(* ===== verification/Prelude.thy ===== *)
theory Prelude
  imports Main "HOL-Library.Multiset" "HOL-Library.Word"
begin

text \<open>
  What every component of the development shares: Go's 64-bit integer arithmetic written
  out on \<open>int\<close>, Go's truncating division, Go maps as association lists, failures as
  values, and the list and multiset lemmas about sums that the accounting proofs use.
\<close>

section \<open>Failures as values\<close>

text \<open>
  A Go function either returns an \<open>error\<close> (here its message) or panics (an index out
  of range, a nil dereference).  Both are values of the model.
\<close>

datatype failure = Errorf string | Panic string

type_synonym 'a outcome = "failure + 'a"

type_synonym byte = "8 word"

section \<open>Go's int64\<close>

text \<open>
  \<open>int64 x\<close> is the value a 64-bit two's complement variable holds after the exact
  result \<open>x\<close> has been stored into it: Go's \<open>int64\<close> (and, on the platforms the SDK
  runs on, \<open>int\<close>) wraps around.
\<close>

definition int64 :: "int \<Rightarrow> int" where
  "int64 x = (x + 9223372036854775808) mod 18446744073709551616 - 9223372036854775808"

definition in_int64 :: "int \<Rightarrow> bool" where
  "in_int64 x \<longleftrightarrow> -9223372036854775808 \<le> x \<and> x \<le> 9223372036854775807"

lemma int64_id [simp]: "in_int64 x \<Longrightarrow> int64 x = x"
  by (simp add: int64_def in_int64_def)

lemma in_int64_int64 [simp]: "in_int64 (int64 x)"
proof -
  have "0 \<le> (x + 9223372036854775808) mod 18446744073709551616"
    and "(x + 9223372036854775808) mod 18446744073709551616 < 18446744073709551616"
    by simp_all
  then show ?thesis unfolding int64_def in_int64_def by linarith
qed

lemma int64_signed_take_bit: "int64 x = signed_take_bit 63 x"
  by (simp add: int64_def signed_take_bit_eq_take_bit_shift take_bit_eq_mod)

lemma in_int64I: "-9223372036854775808 \<le> x \<Longrightarrow> x \<le> 9223372036854775807 \<Longrightarrow> in_int64 x"
  by (simp add: in_int64_def)

text \<open>Go's integer division truncates towards zero.\<close>

definition go_quot :: "int \<Rightarrow> int \<Rightarrow> int" where
  "go_quot a b = sgn a * sgn b * (\<bar>a\<bar> div \<bar>b\<bar>)"

lemma go_quot_nonneg [simp]: "0 \<le> a \<Longrightarrow> 0 < b \<Longrightarrow> go_quot a b = a div b"
  by (cases "a = 0") (simp_all add: go_quot_def)

lemma go_quot_mono_nonneg: "0 \<le> a \<Longrightarrow> a \<le> a' \<Longrightarrow> 0 < b \<Longrightarrow> go_quot a b \<le> go_quot a' b"
  by (simp add: zdiv_mono1)

section \<open>Go maps\<close>

text \<open>
  A Go map is an association list with distinct keys; the order of the list stands for the
  order in which one \<open>range\<close> loop visits the entries, which Go leaves open.
\<close>

type_synonym ('k, 'v) gomap = "('k \<times> 'v) list"

definition gm_get :: "('k, 'v) gomap \<Rightarrow> 'k \<Rightarrow> 'v option" where
  "gm_get m k = map_of m k"

definition gm_delete :: "'k \<Rightarrow> ('k, 'v) gomap \<Rightarrow> ('k, 'v) gomap" where
  "gm_delete k m = filter (\<lambda>e. fst e \<noteq> k) m"

definition gm_put :: "'k \<Rightarrow> 'v \<Rightarrow> ('k, 'v) gomap \<Rightarrow> ('k, 'v) gomap" where
  "gm_put k v m = (k, v) # gm_delete k m"

definition gm_ok :: "('k, 'v) gomap \<Rightarrow> bool" where
  "gm_ok m \<longleftrightarrow> distinct (map fst m)"

definition gm_values :: "('k, 'v) gomap \<Rightarrow> 'v multiset" where
  "gm_values m = mset (map snd m)"

lemma gm_get_Nil [simp]: "gm_get [] k = None"
  by (simp add: gm_get_def)

lemma gm_get_put [simp]: "gm_get (gm_put k v m) k' = (if k' = k then Some v else gm_get (gm_delete k m) k')"
  by (simp add: gm_get_def gm_put_def)

lemma gm_get_delete [simp]: "gm_get (gm_delete k m) k' = (if k' = k then None else gm_get m k')"
  by (induction m) (auto simp: gm_get_def gm_delete_def)

lemma gm_ok_Nil [simp]: "gm_ok []"
  by (simp add: gm_ok_def)

lemma gm_ok_delete [simp]: "gm_ok m \<Longrightarrow> gm_ok (gm_delete k m)"
  by (auto simp: gm_ok_def gm_delete_def distinct_map inj_on_def)

lemma gm_ok_put [simp]: "gm_ok m \<Longrightarrow> gm_ok (gm_put k v m)"
  using gm_ok_delete [of m k] by (auto simp: gm_ok_def gm_put_def gm_delete_def)

lemma gm_delete_absent: "gm_get m k = None \<Longrightarrow> gm_delete k m = m"
  by (auto simp: gm_get_def gm_delete_def map_of_eq_None_iff filter_id_conv)

lemma gm_values_Nil [simp]: "gm_values [] = {#}"
  by (simp add: gm_values_def)

lemma gm_values_put [simp]: "gm_values (gm_put k v m) = add_mset v (gm_values (gm_delete k m))"
  by (simp add: gm_values_def gm_put_def)

lemma gm_values_delete:
  "gm_ok m \<Longrightarrow> gm_get m k = Some v \<Longrightarrow> gm_values m = add_mset v (gm_values (gm_delete k m))"
proof (induction m)
  case Nil
  then show ?case by simp
next
  case (Cons e m)
  obtain k' v' where e: "e = (k', v')" by (cases e)
  show ?case
  proof (cases "k' = k")
    case True
    with Cons.prems e have "gm_delete k m = m"
      by (auto simp: gm_ok_def gm_delete_def filter_id_conv)
    with True Cons.prems e show ?thesis
      by (simp add: gm_values_def gm_get_def gm_delete_def)
  next
    case False
    with Cons.prems e have "gm_ok m" and "gm_get m k = Some v"
      by (simp_all add: gm_ok_def gm_get_def)
    with Cons.IH False e show ?thesis
      by (simp add: gm_values_def gm_delete_def)
  qed
qed

lemma gm_get_in_values: "gm_get m k = Some v \<Longrightarrow> v \<in># gm_values m"
  by (force simp: gm_get_def gm_values_def dest: map_of_SomeD)

lemma gm_get_in_set: "gm_get m k = Some v \<Longrightarrow> (k, v) \<in> set m"
  by (simp add: gm_get_def map_of_SomeD)

lemma gm_get_of_mem: "gm_ok m \<Longrightarrow> (k, v) \<in> set m \<Longrightarrow> gm_get m k = Some v"
  by (simp add: gm_get_def gm_ok_def)

lemma set_gm_delete [simp]: "set (gm_delete k m) = {e \<in> set m. fst e \<noteq> k}"
  by (auto simp: gm_delete_def)

lemma set_gm_put [simp]: "set (gm_put k v m) = insert (k, v) {e \<in> set m. fst e \<noteq> k}"
  by (simp add: gm_put_def)

section \<open>Sums over lists and multisets\<close>

lemma sum_list_map_concat: "sum_list (map f (concat xss)) = (\<Sum>xs\<leftarrow>xss. sum_list (map f xs))"
  by (induction xss) simp_all

lemma sum_mset_nonneg:
  fixes f :: "'b \<Rightarrow> int"
  shows "(\<And>b. b \<in># M \<Longrightarrow> 0 \<le> f b) \<Longrightarrow> 0 \<le> (\<Sum>b\<in>#M. f b)"
  by (induction M) auto

lemma sum_mset_member_le:
  fixes f :: "'b \<Rightarrow> int"
  assumes "b \<in># M" and "\<And>b. b \<in># M \<Longrightarrow> 0 \<le> f b"
  shows "f b \<le> (\<Sum>b\<in>#M. f b)"
proof -
  obtain M' where M: "M = add_mset b M'" using assms(1) by (metis mset_add)
  have "0 \<le> (\<Sum>b\<in>#M'. f b)" using assms(2) M by (intro sum_mset_nonneg) auto
  then show ?thesis by (simp add: M)
qed


end
