(* ===== verification/Cls_Proto.thy ===== *)
theory Cls_Proto
  imports Prelude
begin

text \<open>
  The wire data of \<^verbatim>\<open>cls.pb.go\<close>: the message structs \<open>Log\<close>, \<open>Log_Content\<close>,
  \<open>LogTag\<close>, \<open>LogGroup\<close>, \<open>LogGroupList\<close>, their nil-safe getters, and the
  \<open>Size\<close> methods that give the length of the encoding.  A Go pointer is an option
  (\<open>None\<close> is nil); a Go string is a list of bytes (\<open>char\<close>).  Lengths are natural
  numbers: a Go slice or string is shorter than \<open>2 ^ 63\<close>.
\<close>

unbundle bit_operations_syntax

type_synonym 'a ptr = "'a option"

section \<open>Messages\<close>

record Log_Content =
  Content_Key :: "string ptr"
  Content_Value :: "string ptr"
  Content_XXX_unrecognized :: "byte list"

record Log =
  Log_Time :: "64 word ptr"
  Log_Contents :: "Log_Content ptr list"
  Log_CollectTime :: "64 word ptr"
  Log_XXX_unrecognized :: "byte list"

record LogTag =
  Tag_Key :: "string ptr"
  Tag_Value :: "string ptr"
  Tag_XXX_unrecognized :: "byte list"

record LogGroup =
  Group_Logs :: "Log ptr list"
  Group_ContextFlow :: "string ptr"
  Group_Filename :: "string ptr"
  Group_Source :: "string ptr"
  Group_LogTags :: "LogTag ptr list"
  Group_Hostname :: "string ptr"
  Group_XXX_unrecognized :: "byte list"

record LogGroupList =
  List_LogGroupList :: "LogGroup ptr list"
  List_XXX_unrecognized :: "byte list"

section \<open>Getters\<close>

text \<open>Every getter answers the zero value for a nil message or an unset optional field.\<close>

definition GetTime :: "Log ptr \<Rightarrow> 64 word" where
  "GetTime m = (case m of None \<Rightarrow> 0 | Some l \<Rightarrow> (case Log_Time l of None \<Rightarrow> 0 | Some t \<Rightarrow> t))"

definition GetContents :: "Log ptr \<Rightarrow> Log_Content ptr list" where
  "GetContents m = (case m of None \<Rightarrow> [] | Some l \<Rightarrow> Log_Contents l)"

definition GetCollectTime :: "Log ptr \<Rightarrow> 64 word" where
  "GetCollectTime m = (case m of None \<Rightarrow> 0
     | Some l \<Rightarrow> (case Log_CollectTime l of None \<Rightarrow> 0 | Some t \<Rightarrow> t))"

definition GetLogs :: "LogGroup ptr \<Rightarrow> Log ptr list" where
  "GetLogs m = (case m of None \<Rightarrow> [] | Some g \<Rightarrow> Group_Logs g)"

definition Content_GetKey :: "Log_Content ptr \<Rightarrow> string" where
  "Content_GetKey m = (case m of None \<Rightarrow> '''' | Some g \<Rightarrow> (case Content_Key g of None \<Rightarrow> '''' | Some s \<Rightarrow> s))"

definition Content_GetValue :: "Log_Content ptr \<Rightarrow> string" where
  "Content_GetValue m = (case m of None \<Rightarrow> '''' | Some g \<Rightarrow> (case Content_Value g of None \<Rightarrow> '''' | Some s \<Rightarrow> s))"

definition Tag_GetKey :: "LogTag ptr \<Rightarrow> string" where
  "Tag_GetKey m = (case m of None \<Rightarrow> '''' | Some g \<Rightarrow> (case Tag_Key g of None \<Rightarrow> '''' | Some s \<Rightarrow> s))"

definition Tag_GetValue :: "LogTag ptr \<Rightarrow> string" where
  "Tag_GetValue m = (case m of None \<Rightarrow> '''' | Some g \<Rightarrow> (case Tag_Value g of None \<Rightarrow> '''' | Some s \<Rightarrow> s))"

definition GetContextFlow :: "LogGroup ptr \<Rightarrow> string" where
  "GetContextFlow m = (case m of None \<Rightarrow> '''' | Some g \<Rightarrow> (case Group_ContextFlow g of None \<Rightarrow> '''' | Some s \<Rightarrow> s))"

definition GetFilename :: "LogGroup ptr \<Rightarrow> string" where
  "GetFilename m = (case m of None \<Rightarrow> '''' | Some g \<Rightarrow> (case Group_Filename g of None \<Rightarrow> '''' | Some s \<Rightarrow> s))"

definition GetSource :: "LogGroup ptr \<Rightarrow> string" where
  "GetSource m = (case m of None \<Rightarrow> '''' | Some g \<Rightarrow> (case Group_Source g of None \<Rightarrow> '''' | Some s \<Rightarrow> s))"

definition GetHostname :: "LogGroup ptr \<Rightarrow> string" where
  "GetHostname m = (case m of None \<Rightarrow> '''' | Some g \<Rightarrow> (case Group_Hostname g of None \<Rightarrow> '''' | Some s \<Rightarrow> s))"

definition GetLogTags :: "LogGroup ptr \<Rightarrow> LogTag ptr list" where
  "GetLogTags m = (case m of None \<Rightarrow> [] | Some g \<Rightarrow> Group_LogTags g)"

definition GetLogGroupList :: "LogGroupList ptr \<Rightarrow> LogGroup ptr list" where
  "GetLogGroupList m = (case m of None \<Rightarrow> [] | Some l \<Rightarrow> List_LogGroupList l)"

section \<open>Sizes\<close>

text \<open>\<open>math/bits.Len64\<close>: the number of bits needed to write the number.\<close>

fun Len64 :: "nat \<Rightarrow> nat" where
  "Len64 n = (if n = 0 then 0 else Suc (Len64 (n div 2)))"

declare Len64.simps [simp del]

lemma Len64_0 [simp]: "Len64 0 = 0"
  by (simp add: Len64.simps)

lemma Len64_pos: "0 < n \<Longrightarrow> Len64 n = Suc (Len64 (n div 2))"
  by (subst Len64.simps) simp

lemma Len64_numeral [simp]: "Len64 (numeral k) = Suc (Len64 (numeral k div 2))"
  by (rule Len64_pos) simp

lemma Len64_1 [simp]: "Len64 (Suc 0) = 1"
  by (simp add: Len64_pos)

lemma less_Len64: "n < 2 ^ Len64 n"
proof (induction n rule: Len64.induct)
  case (1 n)
  show ?case
  proof (cases "n = 0")
    case False
    with 1 have "n div 2 < 2 ^ Len64 (n div 2)" by simp
    then have "n < 2 * 2 ^ Len64 (n div 2)" by linarith
    with False show ?thesis by (simp add: Len64_pos)
  qed simp
qed

lemma Len64_le: "n < 2 ^ k \<Longrightarrow> Len64 n \<le> k"
proof (induction k arbitrary: n)
  case (Suc k)
  show ?case
  proof (cases "n = 0")
    case False
    from Suc.prems have "n div 2 < 2 ^ k" by simp
    with Suc.IH False show ?thesis by (simp add: Len64_pos)
  qed simp
qed simp

definition sovCls :: "64 word \<Rightarrow> nat" where
  "sovCls x = (Len64 (unat (x OR 1)) + 6) div 7"

definition sozCls :: "64 word \<Rightarrow> nat" where
  "sozCls x = sovCls (push_bit 1 x XOR signed_drop_bit 63 x)"

text \<open>A length-delimited field: one tag byte, the length as a varint, the payload.\<close>

definition size_delimited :: "nat \<Rightarrow> nat" where
  "size_delimited l = 1 + l + sovCls (of_nat l)"

definition size_string_field :: "string ptr \<Rightarrow> nat" where
  "size_string_field f = (case f of None \<Rightarrow> 0 | Some s \<Rightarrow> size_delimited (length s))"

definition size_varint_field :: "64 word ptr \<Rightarrow> nat" where
  "size_varint_field f = (case f of None \<Rightarrow> 0 | Some v \<Rightarrow> 1 + sovCls v)"

definition Log_Content_Size :: "Log_Content ptr \<Rightarrow> nat" where
  "Log_Content_Size m = (case m of None \<Rightarrow> 0 | Some c \<Rightarrow>
     size_string_field (Content_Key c) + size_string_field (Content_Value c)
     + length (Content_XXX_unrecognized c))"

definition LogTag_Size :: "LogTag ptr \<Rightarrow> nat" where
  "LogTag_Size m = (case m of None \<Rightarrow> 0 | Some c \<Rightarrow>
     size_string_field (Tag_Key c) + size_string_field (Tag_Value c)
     + length (Tag_XXX_unrecognized c))"

definition Log_Size :: "Log ptr \<Rightarrow> nat" where
  "Log_Size m = (case m of None \<Rightarrow> 0 | Some l \<Rightarrow>
     size_varint_field (Log_Time l)
     + (\<Sum>e\<leftarrow>Log_Contents l. size_delimited (Log_Content_Size e))
     + size_varint_field (Log_CollectTime l)
     + length (Log_XXX_unrecognized l))"

definition LogGroup_Size :: "LogGroup ptr \<Rightarrow> nat" where
  "LogGroup_Size m = (case m of None \<Rightarrow> 0 | Some g \<Rightarrow>
     (\<Sum>e\<leftarrow>Group_Logs g. size_delimited (Log_Size e))
     + size_string_field (Group_ContextFlow g)
     + size_string_field (Group_Filename g)
     + size_string_field (Group_Source g)
     + (\<Sum>e\<leftarrow>Group_LogTags g. size_delimited (LogTag_Size e))
     + size_string_field (Group_Hostname g)
     + length (Group_XXX_unrecognized g))"

definition LogGroupList_Size :: "LogGroupList ptr \<Rightarrow> nat" where
  "LogGroupList_Size m = (case m of None \<Rightarrow> 0 | Some g \<Rightarrow>
     (\<Sum>e\<leftarrow>List_LogGroupList g. size_delimited (LogGroup_Size e))
     + length (List_XXX_unrecognized g))"

lemma sovCls_bounds: "1 \<le> sovCls x \<and> sovCls x \<le> 10"
proof -
  have "bit (x OR 1) 0" by (simp add: bit_simps)
  then have "x OR 1 \<noteq> 0" by (intro notI) simp
  then have "0 < unat (x OR 1)" by (simp add: unat_gt_0)
  then have "1 \<le> Len64 (unat (x OR 1))" by (simp add: Len64_pos)
  moreover have "Len64 (unat (x OR 1)) \<le> 64"
    by (rule Len64_le) (use unsigned_less [of "x OR 1"] in simp)
  ultimately show ?thesis unfolding sovCls_def by presburger
qed

end
