(* ===== verification/Utils.thy ===== *)
theory Utils
  imports Cls_Proto
begin

text \<open>
  \<^verbatim>\<open>utils.go\<close>: clock conversion, the size measure the quota is counted in, and the
  package ids; \<^verbatim>\<open>error.go\<close>, \<^verbatim>\<open>error_code.go\<close>, \<^verbatim>\<open>result.go\<close> and
  \<^verbatim>\<open>attempt.go\<close>: the error and result values that the client, the worker and the
  callbacks exchange.
\<close>

section \<open>Time\<close>

definition GetTimeMs :: "int \<Rightarrow> int" where
  "GetTimeMs t = go_quot (go_quot t 1000) 1000"

lemma GetTimeMs_nonneg [simp]: "0 \<le> t \<Longrightarrow> GetTimeMs t = t div 1000000"
  by (simp add: GetTimeMs_def zdiv_zmult2_eq [symmetric])

lemma GetTimeMs_mono: "0 \<le> t \<Longrightarrow> t \<le> t' \<Longrightarrow> GetTimeMs t \<le> GetTimeMs t'"
  by (simp add: zdiv_mono1)

section \<open>The size measure of the quota\<close>

text \<open>
  \<open>GetLogSizeCalculate\<close> dereferences every content, its value and then its key; each
  of the three may be nil, which panics.  A value longer than 10 MiB is an error.
\<close>

definition nil_deref :: failure where
  "nil_deref = Panic ''invalid memory address or nil pointer dereference''"

definition err_value_10M :: failure where
  "err_value_10M = Errorf ''content value can not be than 10M''"

fun content_sizes :: "Log_Content ptr list \<Rightarrow> int \<Rightarrow> int outcome" where
  "content_sizes [] sz = Inr sz"
| "content_sizes (None # cs) sz = Inl nil_deref"
| "content_sizes (Some c # cs) sz =
     (case Content_Value c of
        None \<Rightarrow> Inl nil_deref
      | Some v \<Rightarrow>
          if 10 * 1024 * 1024 < length v then Inl err_value_10M
          else (case Content_Key c of
                  None \<Rightarrow> Inl nil_deref
                | Some k \<Rightarrow> content_sizes cs (sz + int (length v) + int (length k))))"

definition GetLogSizeCalculate :: "Log ptr \<Rightarrow> int outcome" where
  "GetLogSizeCalculate log = content_sizes (GetContents log) 4"

fun log_list_sizes :: "Log ptr list \<Rightarrow> int \<Rightarrow> int outcome" where
  "log_list_sizes [] sz = Inr sz"
| "log_list_sizes (l # ls) sz =
     (case GetLogSizeCalculate l of
        Inl e \<Rightarrow> Inl e
      | Inr n \<Rightarrow> log_list_sizes ls (sz + n))"

definition GetLogListSize :: "Log ptr list \<Rightarrow> int outcome" where
  "GetLogListSize ls = log_list_sizes ls 0"

lemma content_sizes_add:
  "content_sizes cs (a + b) = (case content_sizes cs a of Inl e \<Rightarrow> Inl e | Inr n \<Rightarrow> Inr (n + b))"
  by (induction cs a arbitrary: b rule: content_sizes.induct)
    (auto split: option.splits simp: algebra_simps)

lemma content_sizes_ge: "content_sizes cs sz = Inr n \<Longrightarrow> sz \<le> n"
  by (induction cs sz arbitrary: n rule: content_sizes.induct)
    (fastforce split: option.splits if_splits)+

lemma GetLogSizeCalculate_ge: "GetLogSizeCalculate l = Inr n \<Longrightarrow> 4 \<le> n"
  by (simp add: GetLogSizeCalculate_def content_sizes_ge)

lemma log_list_sizes_add:
  "log_list_sizes ls (a + b) = (case log_list_sizes ls a of Inl e \<Rightarrow> Inl e | Inr n \<Rightarrow> Inr (n + b))"
proof (induction ls a arbitrary: b rule: log_list_sizes.induct)
  case (2 l ls sz)
  show ?case
  proof (cases "GetLogSizeCalculate l")
    case (Inr n)
    have "log_list_sizes ls (sz + b + n) = log_list_sizes ls ((sz + n) + b)"
      by (simp add: algebra_simps)
    with Inr 2 show ?thesis by simp
  qed simp
qed simp

lemma GetLogListSize_Nil [simp]: "GetLogListSize [] = Inr 0"
  by (simp add: GetLogListSize_def)

lemma GetLogListSize_Cons:
  "GetLogListSize (l # ls) =
     (case GetLogSizeCalculate l of Inl e \<Rightarrow> Inl e
      | Inr n \<Rightarrow> (case GetLogListSize ls of Inl e \<Rightarrow> Inl e | Inr m \<Rightarrow> Inr (m + n)))"
proof (cases "GetLogSizeCalculate l")
  case (Inr n)
  have "log_list_sizes ls (0 + n) =
      (case log_list_sizes ls 0 of Inl e \<Rightarrow> Inl e | Inr m \<Rightarrow> Inr (m + n))"
    by (rule log_list_sizes_add)
  with Inr show ?thesis by (simp add: GetLogListSize_def)
qed (simp add: GetLogListSize_def)

lemma GetLogListSize_append:
  "GetLogListSize xs = Inr m \<Longrightarrow> GetLogListSize ys = Inr n \<Longrightarrow> GetLogListSize (xs @ ys) = Inr (m + n)"
  by (induction xs arbitrary: m) (auto simp: GetLogListSize_Cons split: sum.splits)

lemma GetLogListSize_single: "GetLogListSize [l] = GetLogSizeCalculate l"
  by (simp add: GetLogListSize_Cons split: sum.splits)

lemma GetLogListSize_ge: "GetLogListSize ls = Inr n \<Longrightarrow> 4 * int (length ls) \<le> n"
  by (induction ls arbitrary: n)
    (fastforce simp: GetLogListSize_Cons dest: GetLogSizeCalculate_ge split: sum.splits)+

lemma GetLogListSize_nonneg: "GetLogListSize ls = Inr n \<Longrightarrow> 0 \<le> n"
  using GetLogListSize_ge by fastforce

section \<open>Package ids\<close>

text \<open>
  \<open>strings.ToUpper (fmt.Sprintf ("%s-%016x", producerHash, batchId.Inc ()))\<close>: the
  counter in hexadecimal, padded with zeros to 16 digits, everything in upper case.
  \<open>ToUpper\<close> acts on the ASCII letters; the hash is itself upper-case hexadecimal.
\<close>

definition ToUpper_char :: "char \<Rightarrow> char" where
  "ToUpper_char c = (let n = of_char c :: nat in
     if 97 \<le> n \<and> n \<le> 122 then char_of (n - 32) else c)"

definition ToUpper :: "string \<Rightarrow> string" where
  "ToUpper = map ToUpper_char"

definition hex_digit :: "nat \<Rightarrow> char" where
  "hex_digit d = ''0123456789abcdef'' ! d"

fun hex_digits :: "nat \<Rightarrow> string" where
  "hex_digits n = (if n < 16 then [hex_digit n] else hex_digits (n div 16) @ [hex_digit (n mod 16)])"

declare hex_digits.simps [simp del]

definition pad_left :: "nat \<Rightarrow> string \<Rightarrow> string" where
  "pad_left w s = replicate (w - length s) (CHR ''0'') @ s"

definition package_id :: "string \<Rightarrow> nat \<Rightarrow> string" where
  "package_id h n = ToUpper (h @ ''-'' @ pad_left 16 (hex_digits n))"

definition generatePackageId :: "string \<Rightarrow> int \<Rightarrow> string \<times> int" where
  "generatePackageId producerHash batchId =
     (let c = (if 9223372036854775807 \<le> batchId then 0 else batchId);
          c' = int64 (c + 1)
      in (package_id producerHash (nat c'), c'))"

section \<open>Errors, attempts, results\<close>

record CLSError =
  HTTPCode :: int
  Code :: string
  Message :: string
  RequestID :: string

text \<open>\<open>NewError\<close> answers nil for a nil error; \<open>e\<close> is the error's message.\<close>

definition NewError :: "int \<Rightarrow> string \<Rightarrow> string \<Rightarrow> string ptr \<Rightarrow> CLSError ptr" where
  "NewError httpCode requestID errorCode e =
     (case e of None \<Rightarrow> None
      | Some msg \<Rightarrow> Some \<lparr>HTTPCode = httpCode, Code = errorCode, Message = msg, RequestID = requestID\<rparr>)"

text \<open>The text of an error is its JSON form, \<open>json\<close>; one that cannot be written has none.\<close>

definition CLSError_String :: "(CLSError \<Rightarrow> string + string) \<Rightarrow> CLSError \<Rightarrow> string" where
  "CLSError_String json e = (case json e of Inl err \<Rightarrow> [] | Inr b \<Rightarrow> b)"

definition CLSError_Error :: "(CLSError \<Rightarrow> string + string) \<Rightarrow> CLSError \<Rightarrow> string" where
  "CLSError_Error json e = CLSError_String json e"

record Attempt =
  Success :: bool
  RequestId :: string
  ErrorCode :: string
  ErrorMessage :: string
  TimeStampMs :: int

definition NewAttempt :: "bool \<Rightarrow> string \<Rightarrow> string \<Rightarrow> string \<Rightarrow> int \<Rightarrow> Attempt" where
  "NewAttempt success requestId errorCode errorMessage timeStampMs =
     \<lparr>Success = success, RequestId = requestId, ErrorCode = errorCode,
      ErrorMessage = errorMessage, TimeStampMs = timeStampMs\<rparr>"

record Result =
  attemptList :: "Attempt list"
  successful :: bool

definition NewResult :: Result where
  "NewResult = \<lparr>attemptList = [], successful = False\<rparr>"

definition IsSuccessful :: "Result \<Rightarrow> bool" where
  "IsSuccessful r = successful r"

definition GetReservedAttempts :: "Result \<Rightarrow> Attempt list" where
  "GetReservedAttempts r = attemptList r"

text \<open>The getters of the last attempt; an empty list answers the zero value.\<close>

definition GetErrorCode :: "Result \<Rightarrow> string" where
  "GetErrorCode r = (if attemptList r = [] then '''' else
     ErrorCode (attemptList r ! (length (attemptList r) - 1)))"

definition GetErrorMessage :: "Result \<Rightarrow> string" where
  "GetErrorMessage r = (if attemptList r = [] then '''' else
     ErrorMessage (attemptList r ! (length (attemptList r) - 1)))"

definition GetRequestId :: "Result \<Rightarrow> string" where
  "GetRequestId r = (if attemptList r = [] then '''' else
     RequestId (attemptList r ! (length (attemptList r) - 1)))"

definition GetTimeStampMs :: "Result \<Rightarrow> int" where
  "GetTimeStampMs r = (if attemptList r = [] then 0 else
     TimeStampMs (attemptList r ! (length (attemptList r) - 1)))"

section \<open>Decimal numbers\<close>

text \<open>\<open>fmt.Sprintf ("%d", i)\<close>.\<close>

definition dec_digit :: "nat \<Rightarrow> char" where
  "dec_digit d = char_of (48 + d)"

fun dec_digits :: "nat \<Rightarrow> string" where
  "dec_digits n = (if n < 10 then [dec_digit n] else dec_digits (n div 10) @ [dec_digit (n mod 10)])"

declare dec_digits.simps [simp del]

definition decimal :: "int \<Rightarrow> string" where
  "decimal i = (if i < 0 then CHR ''-'' # dec_digits (nat (- i)) else dec_digits (nat i))"

section \<open>Building a log, the host address, the user agent\<close>

text \<open>The contents come in the order in which the map is walked.\<close>

definition NewCLSLog :: "64 word \<Rightarrow> (string, string) gomap \<Rightarrow> Log" where
  "NewCLSLog logTime addLogMap =
     \<lparr>Log_Time = Some logTime,
      Log_Contents = map (\<lambda>(key, value). Some \<lparr>Content_Key = Some key, Content_Value = Some value,
        Content_XXX_unrecognized = []\<rparr>) addLogMap,
      Log_CollectTime = None, Log_XXX_unrecognized = []\<rparr>"

text \<open>An address of a network interface, as the library reports it.\<close>

record net_addr =
  na_IPNet :: bool
  na_Loopback :: bool
  na_To4 :: bool
  na_String :: string

definition GetLocalIP :: "string + net_addr list \<Rightarrow> string \<times> string ptr" where
  "GetLocalIP addrs = (case addrs of
       Inl err \<Rightarrow> ('''', Some err)
     | Inr as \<Rightarrow> (case find (\<lambda>a. na_IPNet a \<and> \<not> na_Loopback a \<and> na_To4 a) as of
           Some a \<Rightarrow> (na_String a, None)
         | None \<Rightarrow> ('''', Some ''can not find local ip'')))"

text \<open>The two package variables of \<^verbatim>\<open>version.go\<close>, as they are set when the program starts.\<close>

record sdk_version =
  sv_userAgent :: string
  sv_version :: string

definition sdk_start :: sdk_version where
  "sdk_start = \<lparr>sv_userAgent = ''cls-go-sdk'', sv_version = ''1.0.15''\<rparr>"

definition getUserAgent :: "sdk_version \<Rightarrow> string" where
  "getUserAgent v = sv_userAgent v @ ''-'' @ sv_version v"

definition getVersion :: "sdk_version \<Rightarrow> string" where
  "getVersion v = sv_version v"

definition SetUserAgent :: "string \<Rightarrow> sdk_version \<Rightarrow> sdk_version" where
  "SetUserAgent agent v = v\<lparr>sv_userAgent := agent\<rparr>"

definition SetVersion :: "string \<Rightarrow> sdk_version \<Rightarrow> sdk_version" where
  "SetVersion ver v = v\<lparr>sv_version := ver\<rparr>"

lemma user_agent_of_setters:
  "getUserAgent (SetVersion ver (SetUserAgent agent v)) = agent @ ''-'' @ ver"
  "getVersion (SetVersion ver v) = ver"
  by (simp_all add: getUserAgent_def getVersion_def SetUserAgent_def SetVersion_def)

text \<open>The size the quota charges a built log: its pairs, and 4 bytes for the time.\<close>

lemma NewCLSLog_size:
  assumes "\<forall>(k, v) \<in> set m. length v \<le> 10 * 1024 * 1024"
  shows "GetLogSizeCalculate (Some (NewCLSLog t m)) = Inr (4 + (\<Sum>(k, v)\<leftarrow>m. int (length k + length v)))"
proof -
  have "content_sizes (map (\<lambda>(key, value). Some \<lparr>Content_Key = Some key, Content_Value = Some value,
        Content_XXX_unrecognized = []\<rparr>) m) a = Inr (a + (\<Sum>(k, v)\<leftarrow>m. int (length k + length v)))" for a
    using assms by (induction m arbitrary: a) auto
  then show ?thesis by (simp add: GetLogSizeCalculate_def GetContents_def NewCLSLog_def)
qed

end
