(* ===== verification/Producer_Config.thy ===== *)
theory Producer_Config
  imports Utils
begin

text \<open>
  \<^verbatim>\<open>cls_endpoint.go\<close>, \<^verbatim>\<open>async_producer_client_config.go\<close> and \<open>validateProducerConfig\<close> of
  \<^verbatim>\<open>async_producer_client.go\<close>: the configuration record, its defaults, and the
  clamping every producer applies before it starts.
\<close>

section \<open>Endpoints\<close>

text \<open>
  \<^verbatim>\<open>cls_endpoint.go\<close>.  Both types are strings, which a caller may also write himself; these
  are the constants the SDK offers.
\<close>

type_synonym NetworkType = string
type_synonym Region = string

definition Intranet :: NetworkType where
  "Intranet = ''cls.tencentyun.com''"

definition Extranet :: NetworkType where
  "Extranet = ''cls.tencentcs.com''"

definition Regions :: "(string \<times> Region) list" where
  "Regions =
     [(''Beijing'', ''ap-beijing''), (''Guangzhou'', ''ap-guangzhou''), (''Shanghai'', ''ap-shanghai''),
      (''Chengdu'', ''ap-chengdu''), (''Nanjing'', ''ap-nanjing''), (''Chongqing'', ''ap-chongqing''),
      (''Hongkong'', ''ap-hongkong''), (''Siliconvalley'', ''na-siliconvalley''),
      (''Ashburn'', ''na-ashburn''), (''Singapore'', ''ap-singapore''), (''Bangkok'', ''ap-bangkok''),
      (''Frankfurt'', ''eu-frankfurt''), (''Tokyo'', ''ap-tokyo''), (''Seoul'', ''ap-seoul''),
      (''Jakarta'', ''ap-jakarta''), (''Saopaulo'', ''sa-saopaulo''),
      (''ShenzhenFSI'', ''ap-shenzhen-fsi''), (''ShanghaiFSI'', ''ap-shanghai-fsi''),
      (''BeijingFSI'', ''ap-beijing-fsi''), (''ShanghaiADC'', ''ap-shanghai-adc'')]"

section \<open>Configuration\<close>

record AsyncProducerClientConfig =
  TotalSizeLnBytes :: int
  MaxSendWorkerCount :: int
  MaxBlockSec :: int
  MaxBatchSize :: int
  MaxBatchCount :: int
  LingerMs :: int
  Retries :: int
  MaxReservedAttempts :: int
  BaseRetryBackoffMs :: int
  MaxRetryBackoffMs :: int
  cfg_Endpoint :: string
  cfg_region :: Region
  cfg_networkType :: NetworkType
  cfg_AccessKeyID :: string
  cfg_AccessKeySecret :: string
  cfg_AccessToken :: string
  cfg_Uin :: string
  cfg_Source :: string
  cfg_Timeout :: int
  cfg_IdleConn :: int
  cfg_CompressType :: string
  cfg_HostName :: string

definition GetDefaultAsyncProducerClientConfig :: AsyncProducerClientConfig where
  "GetDefaultAsyncProducerClientConfig =
     \<lparr>TotalSizeLnBytes = 100 * 1024 * 1024,
      MaxSendWorkerCount = 50,
      MaxBlockSec = 60,
      MaxBatchSize = 512 * 1024,
      MaxBatchCount = 4096,
      LingerMs = 2000,
      Retries = 10,
      MaxReservedAttempts = 11,
      BaseRetryBackoffMs = 100,
      MaxRetryBackoffMs = 50 * 1000,
      cfg_Endpoint = '''', cfg_region = '''', cfg_networkType = '''',
      cfg_AccessKeyID = '''', cfg_AccessKeySecret = '''', cfg_AccessToken = '''',
      cfg_Uin = '''', cfg_Source = '''',
      cfg_Timeout = 10000,
      cfg_IdleConn = 50,
      cfg_CompressType = '''', cfg_HostName = ''''\<rparr>"

definition SetEndpointByRegionAndNetworkType ::
    "Region \<Rightarrow> NetworkType \<Rightarrow> AsyncProducerClientConfig \<Rightarrow> AsyncProducerClientConfig" where
  "SetEndpointByRegionAndNetworkType region networkType config =
     config\<lparr>cfg_region := region, cfg_networkType := networkType,
            cfg_Endpoint := region @ ''.'' @ networkType\<rparr>"

text \<open>
  No two of the endpoints the SDK offers are the same host.
\<close>

lemma endpoints_distinct:
  "distinct [cfg_Endpoint (SetEndpointByRegionAndNetworkType region net c).
     net \<leftarrow> [Intranet, Extranet], (name, region) \<leftarrow> Regions]"
  by (simp add: Regions_def Intranet_def Extranet_def SetEndpointByRegionAndNetworkType_def)

text \<open>
  The checks in the source's order, each of which reads and overwrites one field;
  \<open>localIP\<close> is what \<open>GetLocalIP\<close> returns (the empty string with its error, which the
  code drops).
\<close>

definition validateProducerConfig ::
    "string \<Rightarrow> AsyncProducerClientConfig \<Rightarrow> AsyncProducerClientConfig" where
  "validateProducerConfig localIP c =
     c\<lparr>MaxReservedAttempts := (if MaxReservedAttempts c \<le> 0 then 11 else MaxReservedAttempts c),
       MaxBatchCount := (if 40960 < MaxBatchCount c \<or> MaxBatchCount c \<le> 0
                         then 40960 else MaxBatchCount c),
       MaxBatchSize := (if 1024 * 1024 * 5 < MaxBatchSize c \<or> MaxBatchSize c \<le> 0
                        then 1024 * 1024 * 5 else MaxBatchSize c),
       MaxSendWorkerCount := (if MaxSendWorkerCount c \<le> 0 then 50 else MaxSendWorkerCount c),
       BaseRetryBackoffMs := (if BaseRetryBackoffMs c \<le> 0 then 100 else BaseRetryBackoffMs c),
       TotalSizeLnBytes := (if TotalSizeLnBytes c \<le> 0 then 100 * 1024 * 1024
                            else TotalSizeLnBytes c),
       LingerMs := (if LingerMs c < 100 then 2000 else LingerMs c),
       cfg_IdleConn := (if cfg_IdleConn c \<le> 0 then 50 else cfg_IdleConn c),
       cfg_Timeout := (if cfg_Timeout c \<le> 0 then 10000 else cfg_Timeout c),
       MaxRetryBackoffMs := (if MaxRetryBackoffMs c \<le> 0 then 50 * 1000 else MaxRetryBackoffMs c),
       cfg_Source := (if cfg_Source c = '''' then localIP else cfg_Source c)\<rparr>"

text \<open>What the rest of the producer relies on.\<close>

definition valid_config :: "AsyncProducerClientConfig \<Rightarrow> bool" where
  "valid_config c \<longleftrightarrow>
     0 < MaxReservedAttempts c \<and> 0 < MaxBatchCount c \<and> MaxBatchCount c \<le> 40960 \<and>
     0 < MaxBatchSize c \<and> MaxBatchSize c \<le> 5242880 \<and> 0 < MaxSendWorkerCount c \<and>
     0 < BaseRetryBackoffMs c \<and> 0 < TotalSizeLnBytes c \<and> 100 \<le> LingerMs c \<and>
     0 < cfg_IdleConn c \<and> 0 < cfg_Timeout c \<and> 0 < MaxRetryBackoffMs c"

lemma validate_valid: "valid_config (validateProducerConfig ip c)"
  by (simp add: valid_config_def validateProducerConfig_def)

text \<open>On a valid configuration validation only fills in the missing source address.\<close>

lemma validate_keeps_valid:
  "valid_config c \<Longrightarrow>
   validateProducerConfig ip c = c\<lparr>cfg_Source := (if cfg_Source c = '''' then ip else cfg_Source c)\<rparr>"
  by (simp add: valid_config_def validateProducerConfig_def)

lemma valid_configD [dest]:
  "valid_config c \<Longrightarrow> 0 < TotalSizeLnBytes c"
  "valid_config c \<Longrightarrow> 0 < MaxSendWorkerCount c"
  "valid_config c \<Longrightarrow> 0 < MaxReservedAttempts c"
  "valid_config c \<Longrightarrow> 100 \<le> LingerMs c"
  by (simp_all add: valid_config_def)

text \<open>The defaults already satisfy what validation enforces.\<close>

lemma default_config_valid: "valid_config GetDefaultAsyncProducerClientConfig"
  by (simp add: valid_config_def GetDefaultAsyncProducerClientConfig_def)

text \<open>
  Validation is complete and idempotent: whatever the caller filled in, the validated
  configuration lies within the documented ranges, a second validation fills in at most the
  source address, and the fields that have no range (the retry count, the blocking mode, the
  credentials) are left as the caller set them.
\<close>

theorem validateProducerConfig_correct:
  "valid_config (validateProducerConfig ip c) \<and>
   validateProducerConfig ip' (validateProducerConfig ip c) =
     (validateProducerConfig ip c)\<lparr>cfg_Source :=
        (if cfg_Source (validateProducerConfig ip c) = '''' then ip'
         else cfg_Source (validateProducerConfig ip c))\<rparr> \<and>
   Retries (validateProducerConfig ip c) = Retries c \<and>
   MaxBlockSec (validateProducerConfig ip c) = MaxBlockSec c \<and>
   cfg_AccessKeyID (validateProducerConfig ip c) = cfg_AccessKeyID c \<and>
   cfg_AccessKeySecret (validateProducerConfig ip c) = cfg_AccessKeySecret c \<and>
   cfg_Uin (validateProducerConfig ip c) = cfg_Uin c"
  by (intro conjI validate_valid validate_keeps_valid) (simp_all add: validateProducerConfig_def)

end
