(* ===== verification/Producer_Batch.thy ===== *)
theory Producer_Batch
  imports Producer_Config
begin

text \<open>
  \<^verbatim>\<open>producer_batch.go\<close>: a batch of logs of one topic with its accounting, its retry
  state and the callbacks to run when it is resolved.  Each method holds the batch's own
  lock for its whole body, so it is one function on the record.
\<close>

text \<open>The \<open>interface{}\<close> a caller hands over, by the type the code's switches look for.\<close>

datatype LogData = LogItem "Log ptr" | LogList "Log ptr list" | OtherData

fun data_logs :: "LogData \<Rightarrow> Log ptr list" where
  "data_logs (LogItem l) = [l]"
| "data_logs (LogList ls) = ls"
| "data_logs OtherData = []"

text \<open>A user callback is opaque: only its identity matters.\<close>

type_synonym CallBack = nat

record ProducerBatch =
  totalDataSize :: int
  accountedSize :: int
  logGroup :: LogGroup
  attemptCount :: int
  baseRetryBackoffMs :: int
  nextRetryMs :: int
  maxRetryIntervalInMs :: int
  callBackList :: "CallBack list"
  createTimeMs :: int
  maxRetryTimes :: int
  topicID :: string
  result :: Result
  packageID :: string
  maxReservedAttempts :: int

definition getTopicID :: "ProducerBatch \<Rightarrow> string" where
  "getTopicID b = topicID b"

definition batch_logs :: "ProducerBatch \<Rightarrow> Log ptr list" where
  "batch_logs b = GetLogs (Some (logGroup b))"

definition getLogGroupCount :: "ProducerBatch \<Rightarrow> int" where
  "getLogGroupCount b = int (length (batch_logs b))"

text \<open>
  \<open>NewProducerBatch\<close>: \<open>now\<close> is \<open>time.Now().UnixNano()\<close>.  The accounted size is
  the measure the accumulator charged; only if that measure fails is the encoded size used
  instead, and a nil value in a content panics, as it does in \<open>GetLogListSize\<close>.
\<close>

definition NewProducerBatch ::
    "int \<Rightarrow> string \<Rightarrow> AsyncProducerClientConfig \<Rightarrow> CallBack ptr \<Rightarrow> LogData \<Rightarrow> string
     \<Rightarrow> ProducerBatch outcome" where
  "NewProducerBatch now topic config callBackFunc logData packageId =
    (let logs = data_logs logData;
         group = \<lparr>Group_Logs = logs, Group_ContextFlow = Some packageId, Group_Filename = None,
                  Group_Source = Some (cfg_Source config), Group_LogTags = [],
                  Group_Hostname = Some (cfg_HostName config), Group_XXX_unrecognized = []\<rparr>;
         total = int (LogGroup_Size (Some group));
         batch = (\<lambda>accounted.
           \<lparr>totalDataSize = total, accountedSize = accounted, logGroup = group,
            attemptCount = 0, baseRetryBackoffMs = BaseRetryBackoffMs config, nextRetryMs = 0,
            maxRetryIntervalInMs = MaxRetryBackoffMs config,
            callBackList = (case callBackFunc of None \<Rightarrow> [] | Some cb \<Rightarrow> [cb]),
            createTimeMs = GetTimeMs now, maxRetryTimes = Retries config, topicID = topic,
            result = NewResult, packageID = packageId,
            maxReservedAttempts = MaxReservedAttempts config\<rparr>)
     in case GetLogListSize logs of
          Inr n \<Rightarrow> Inr (batch n)
        | Inl (Errorf m) \<Rightarrow> Inr (batch total)
        | Inl (Panic m) \<Rightarrow> Inl (Panic m))"

definition addLogToLogGroup :: "LogData \<Rightarrow> ProducerBatch \<Rightarrow> ProducerBatch" where
  "addLogToLogGroup d b =
     b\<lparr>logGroup := (logGroup b)\<lparr>Group_Logs := Group_Logs (logGroup b) @ data_logs d\<rparr>\<rparr>"

definition addProducerBatchCallBack :: "CallBack \<Rightarrow> ProducerBatch \<Rightarrow> ProducerBatch" where
  "addProducerBatchCallBack cb b = b\<lparr>callBackList := callBackList b @ [cb]\<rparr>"

section \<open>The batch invariant\<close>

text \<open>
  What every batch satisfies from its creation to its resolution: the charged size is the
  size of its logs in the quota's measure, and its attempt history respects its limits.
\<close>

definition batch_ok :: "ProducerBatch \<Rightarrow> bool" where
  "batch_ok b \<longleftrightarrow>
     GetLogListSize (batch_logs b) = Inr (accountedSize b) \<and>
     0 \<le> attemptCount b \<and> attemptCount b \<le> max 0 (maxRetryTimes b) \<and>
     int (length (attemptList (result b))) = min (attemptCount b) (maxReservedAttempts b) \<and>
     \<not> successful (result b)"

lemma batch_okD:
  assumes "batch_ok b"
  shows "GetLogListSize (batch_logs b) = Inr (accountedSize b)" and "0 \<le> accountedSize b"
    and "0 \<le> attemptCount b"
  using assms GetLogListSize_nonneg by (auto simp: batch_ok_def)

lemma batch_logs_add [simp]: "batch_logs (addLogToLogGroup d b) = batch_logs b @ data_logs d"
  by (simp add: batch_logs_def addLogToLogGroup_def GetLogs_def)

text \<open>Updates that leave the logs alone.\<close>

lemma batch_logs_cong: "logGroup b' = logGroup b \<Longrightarrow> batch_logs b' = batch_logs b"
  by (simp add: batch_logs_def)

lemma NewProducerBatch_ok:
  assumes "GetLogListSize (data_logs d) = Inr n"
  obtains b where "NewProducerBatch now topic config cb d pid = Inr b"
    and "accountedSize b = n" and "batch_logs b = data_logs d" and "topicID b = topic"
    and "callBackList b = (case cb of None \<Rightarrow> [] | Some c \<Rightarrow> [c])"
    and "attemptCount b = 0" and "result b = NewResult" and "packageID b = pid"
    and "maxRetryTimes b = Retries config" and "createTimeMs b = GetTimeMs now"
    and "maxReservedAttempts b = MaxReservedAttempts config" and "nextRetryMs b = 0"
    and "baseRetryBackoffMs b = BaseRetryBackoffMs config"
    and "maxRetryIntervalInMs b = MaxRetryBackoffMs config"
    and "Group_ContextFlow (logGroup b) = Some pid"
    and "totalDataSize b = int (LogGroup_Size (Some (logGroup b)))"
  using assms by (auto simp: NewProducerBatch_def Let_def batch_logs_def GetLogs_def)

lemma NewProducerBatch_batch_ok:
  assumes "GetLogListSize (data_logs d) = Inr n" and "0 < MaxReservedAttempts config"
    and "NewProducerBatch now topic config cb d pid = Inr b"
  shows "batch_ok b"
  using assms by (auto simp: NewProducerBatch_def Let_def batch_logs_def GetLogs_def batch_ok_def
      NewResult_def)

lemma addLog_batch_ok:
  assumes "batch_ok b" and "GetLogListSize (data_logs d) = Inr n"
    and "GetLogListSize (batch_logs b') = Inr (accountedSize b')"
    and "attemptCount b' = attemptCount b" and "maxRetryTimes b' = maxRetryTimes b"
    and "result b' = result b" and "maxReservedAttempts b' = maxReservedAttempts b"
  shows "batch_ok b'"
  using assms by (simp add: batch_ok_def)

end
