(* ===== verification/Interfaces.thy ===== *)
theory Interfaces
  imports Prelude
begin

text \<open>
  The contracts between the components of the producer, as locales.  A batch sits in exactly
  one holder at a time (the accumulator's map, the send queue, a goroutine, the retry heap);
  every hand-over is a \<open>put\<close> into the next holder, so the accounting proofs only need to
  know what each holder contains.
\<close>

section \<open>Holders\<close>

locale batch_holder =
  fixes invar :: "'s \<Rightarrow> bool"
    and bag :: "'s \<Rightarrow> 'b multiset"
    and put :: "'b \<Rightarrow> 's \<Rightarrow> 's"
  assumes bag_put: "invar s \<Longrightarrow> bag (put b s) = add_mset b (bag s)"
    and invar_put: "invar s \<Longrightarrow> invar (put b s)"
begin

lemma invar_put_all: "invar s \<Longrightarrow> invar (fold put bs s)"
  by (induction bs arbitrary: s) (auto simp: invar_put)

lemma bag_put_all: "invar s \<Longrightarrow> bag (fold put bs s) = mset bs + bag s"
  by (induction bs arbitrary: s) (auto simp: invar_put bag_put)

lemma sum_put:
  fixes f :: "'b \<Rightarrow> 'm :: comm_monoid_add"
  shows "invar s \<Longrightarrow> (\<Sum>b\<in>#bag (put b s). f b) = f b + (\<Sum>b\<in>#bag s. f b)"
  by (simp add: bag_put)

end

section \<open>First in, first out\<close>

locale fifo_queue =
  fixes contents :: "'s \<Rightarrow> 'b list"
    and put :: "'b \<Rightarrow> 's \<Rightarrow> 's"
    and pop :: "'s \<Rightarrow> 'b option \<times> 's"
  assumes contents_put: "contents (put b s) = contents s @ [b]"
    and pop_empty: "contents s = [] \<Longrightarrow> pop s = (None, s)"
    and pop_nonempty: "contents s \<noteq> [] \<Longrightarrow>
      \<exists>s'. pop s = (Some (hd (contents s)), s') \<and> contents s' = tl (contents s)"
begin

lemma contents_put_all: "contents (fold put bs s) = contents s @ bs"
  by (induction bs arbitrary: s) (simp_all add: contents_put)

lemma pop_Some: "pop s = (Some b, s') \<Longrightarrow> contents s = b # contents s'"
  using pop_empty [of s] pop_nonempty [of s] by (cases "contents s") auto

lemma pop_None: "pop s = (None, s') \<Longrightarrow> contents s = [] \<and> s' = s"
  using pop_empty [of s] pop_nonempty [of s] by (cases "contents s") auto

text \<open>
  A task put into the queue is popped only after everything that was in the queue before it,
  however many tasks follow.
\<close>

lemma pop_order:
  "contents s = b # bs \<Longrightarrow> \<exists>s'. pop (fold put cs s) = (Some b, s') \<and> contents s' = bs @ cs"
  using pop_nonempty [of "fold put cs s"] by (simp add: contents_put_all)

end

sublocale fifo_queue \<subseteq> holder: batch_holder "\<lambda>_. True" "\<lambda>s. mset (contents s)" put
  by unfold_locales (simp_all add: contents_put)

section \<open>Smallest key first\<close>

locale min_queue = batch_holder invar bag push
  for invar :: "'s \<Rightarrow> bool" and bag :: "'s \<Rightarrow> 'b multiset" and push :: "'b \<Rightarrow> 's \<Rightarrow> 's" +
  fixes key :: "'b \<Rightarrow> int"
    and popMin :: "'s \<Rightarrow> 'b \<times> 's"
  assumes bag_popMin: "invar s \<Longrightarrow> bag s \<noteq> {#} \<Longrightarrow>
      bag s = add_mset (fst (popMin s)) (bag (snd (popMin s)))"
    and invar_popMin: "invar s \<Longrightarrow> bag s \<noteq> {#} \<Longrightarrow> invar (snd (popMin s))"
    and popMin_le: "invar s \<Longrightarrow> b \<in># bag s \<Longrightarrow> key (fst (popMin s)) \<le> key b"
begin

lemma popMin_rest_le:
  "invar s \<Longrightarrow> bag s \<noteq> {#} \<Longrightarrow> b \<in># bag (snd (popMin s)) \<Longrightarrow> key (fst (popMin s)) \<le> key b"
  using bag_popMin [of s] popMin_le [of s b] by simp

lemma size_popMin: "invar s \<Longrightarrow> bag s \<noteq> {#} \<Longrightarrow> size (bag (snd (popMin s))) < size (bag s)"
  using bag_popMin [of s] by (metis add_mset_add_single lessI size_add_mset)

text \<open>Putting back what was popped restores the contents.\<close>

lemma bag_push_popMin:
  "invar s \<Longrightarrow> bag s \<noteq> {#} \<Longrightarrow> bag (push (fst (popMin s)) (snd (popMin s))) = bag s"
  using bag_popMin [of s] by (simp add: bag_put invar_popMin)

end

section \<open>Simulation\<close>

text \<open>
  What it takes for a step relation to implement a more abstract one, where a step of the
  implementation may be invisible, and what follows for whole runs.
\<close>

locale simulation =
  fixes init :: "'c \<Rightarrow> bool" and step :: "'c \<Rightarrow> 'c \<Rightarrow> bool" and inv :: "'c \<Rightarrow> bool"
    and abs :: "'c \<Rightarrow> 'a" and ainit :: "'a \<Rightarrow> bool" and astep :: "'a \<Rightarrow> 'a \<Rightarrow> bool"
  assumes init_inv: "init s \<Longrightarrow> inv s"
    and init_abs: "init s \<Longrightarrow> ainit (abs s)"
    and step_inv: "inv s \<Longrightarrow> step s s' \<Longrightarrow> inv s'"
    and step_abs: "inv s \<Longrightarrow> step s s' \<Longrightarrow> abs s' = abs s \<or> astep (abs s) (abs s')"
begin

lemma run_inv: "step\<^sup>*\<^sup>* s s' \<Longrightarrow> inv s \<Longrightarrow> inv s'"
  by (induction rule: rtranclp_induct) (auto intro: step_inv)

lemma run_abs:
  assumes "step\<^sup>*\<^sup>* s s'" and "inv s"
  shows "astep\<^sup>*\<^sup>* (abs s) (abs s')"
  using assms(1)
proof (induction rule: rtranclp_induct)
  case (step t u)
  from step_abs [OF run_inv [OF step(1) assms(2)] step(2)] step(3) show ?case
    by (auto intro: rtranclp.rtrancl_into_rtrancl)
qed simp

lemma reach_abs:
  assumes "init s" and "step\<^sup>*\<^sup>* s s'"
  shows "\<exists>a. ainit a \<and> astep\<^sup>*\<^sup>* a (abs s')"
  using run_abs [OF assms(2) init_inv [OF assms(1)]] init_abs [OF assms(1)] by blast

end

end
