(* ===== verification/Send_Thread_Pool.thy ===== *)
theory Send_Thread_Pool
  imports Producer_Batch Interfaces
begin

text \<open>
  The task queue of \<^verbatim>\<open>log_send_thread_pool.go\<close>.  The Go \<open>list.List\<close> is a list of
  batches; each method runs under \<open>threadPool.lock\<close>.  The record is the first part of
  the producer's shared state, which the later theories extend.  The loop \<open>start\<close> is part
  of the step relation of \<open>Async_Producer\<close>.
\<close>

record send_thread_pool =
  tp_queue :: "ProducerBatch list"
  tp_shutDownFlag :: bool

definition addTask ::
    "ProducerBatch \<Rightarrow> 'z send_thread_pool_scheme \<Rightarrow> 'z send_thread_pool_scheme" where
  "addTask batch s = s\<lparr>tp_queue := tp_queue s @ [batch]\<rparr>"

definition popTask ::
    "'z send_thread_pool_scheme \<Rightarrow> ProducerBatch ptr \<times> 'z send_thread_pool_scheme" where
  "popTask s = (case tp_queue s of
       [] \<Rightarrow> (None, s)
     | ele # rest \<Rightarrow> (Some ele, s\<lparr>tp_queue := rest\<rparr>))"

definition hasTask :: "'z send_thread_pool_scheme \<Rightarrow> bool" where
  "hasTask s \<longleftrightarrow> 0 < length (tp_queue s)"

interpretation tp: fifo_queue tp_queue addTask popTask
  by unfold_locales (auto simp: addTask_def popTask_def neq_Nil_conv)

lemma tp_queue_addTask [simp]: "tp_queue (addTask b s) = tp_queue s @ [b]"
  by (rule tp.contents_put)

lemma hasTask_iff: "hasTask s \<longleftrightarrow> tp_queue s \<noteq> []"
  by (simp add: hasTask_def)

lemma tp_shutDownFlag_addTask [simp]: "tp_shutDownFlag (addTask b s) = tp_shutDownFlag s"
  by (simp add: addTask_def)

end
