(* ===== verification/Accumulator.thy ===== *)
theory Accumulator
  imports Send_Thread_Pool
begin

text \<open>
  \<^verbatim>\<open>log_accumulator.go\<close>: admission of logs against the byte quota and their grouping
  into one open batch per topic.  A Go batch is a pointer; every batch is reachable from one
  holder only, so an in-place update of the map's batch is a \<open>gm_put\<close> of the new value.
\<close>

record accumulator = send_thread_pool +
  logTopicData :: "(string, ProducerBatch) gomap"
  acc_shutDownFlag :: bool
  batchID :: int
  producerHash :: string
  producerLogGroupSize :: int

definition NewAccumulator :: "string \<Rightarrow> accumulator" where
  "NewAccumulator hash =
     \<lparr>tp_queue = [], tp_shutDownFlag = False, logTopicData = [], acc_shutDownFlag = False,
      batchID = 0, producerHash = hash, producerLogGroupSize = 0\<rparr>"

definition err_shutdown :: failure where
  "err_shutdown = Errorf ''producer has shutdown and cannot write to new logs''"

definition err_logType :: failure where
  "err_logType = Errorf ''invalid logType''"

definition errOverMaxBlock :: failure where
  "errOverMaxBlock = Errorf ''over producer set maximum blocking time''"

section \<open>Grouping\<close>

definition innerSendToServer ::
    "string \<Rightarrow> ProducerBatch \<Rightarrow> 'z accumulator_scheme \<Rightarrow> 'z accumulator_scheme" where
  "innerSendToServer topicId b s =
     (addTask b s)\<lparr>logTopicData := gm_delete topicId (logTopicData (addTask b s))\<rparr>"

definition createNewProducerBatch ::
    "int \<Rightarrow> AsyncProducerClientConfig \<Rightarrow> LogData \<Rightarrow> CallBack ptr \<Rightarrow> string
     \<Rightarrow> 'z accumulator_scheme \<Rightarrow> unit outcome \<times> 'z accumulator_scheme" where
  "createNewProducerBatch now cfg d cb topicId s =
     (if d = OtherData then (Inr (), s)
      else
        let (pid, c) = generatePackageId (producerHash s) (batchID s);
            s' = s\<lparr>batchID := c\<rparr>
        in case NewProducerBatch now topicId cfg cb d pid of
             Inl e \<Rightarrow> (Inl e, s')
           | Inr b \<Rightarrow> (Inr (), s'\<lparr>logTopicData := gm_put topicId b (logTopicData s)\<rparr>))"

text \<open>The three calls both appending branches make: logs, charge, callback.\<close>

definition appendToBatch ::
    "LogData \<Rightarrow> CallBack ptr \<Rightarrow> int \<Rightarrow> ProducerBatch \<Rightarrow> ProducerBatch" where
  "appendToBatch d cb logSize b =
     (let b1 = addLogToLogGroup d b;
          b2 = b1\<lparr>accountedSize := int64 (accountedSize b1 + logSize)\<rparr>
      in case cb of None \<Rightarrow> b2 | Some c \<Rightarrow> addProducerBatchCallBack c b2)"

definition addOrSendProducerBatch ::
    "int \<Rightarrow> AsyncProducerClientConfig \<Rightarrow> string \<Rightarrow> ProducerBatch \<Rightarrow> LogData \<Rightarrow> CallBack ptr \<Rightarrow> int
     \<Rightarrow> 'z accumulator_scheme \<Rightarrow> unit outcome \<times> 'z accumulator_scheme" where
  "addOrSendProducerBatch now cfg topicId b d cb logSize s =
     (let totalDataCount = getLogGroupCount b + 1 in
      if MaxBatchSize cfg < totalDataSize b \<and> totalDataSize b < 5242880
         \<and> totalDataCount \<le> MaxBatchCount cfg
      then (Inr (), innerSendToServer topicId (appendToBatch d cb logSize b) s)
      else if totalDataSize b \<le> MaxBatchSize cfg \<and> totalDataCount \<le> MaxBatchCount cfg
      then (Inr (), s\<lparr>logTopicData :=
              gm_put topicId (appendToBatch d cb logSize b) (logTopicData s)\<rparr>)
      else createNewProducerBatch now cfg d cb topicId (innerSendToServer topicId b s))"

section \<open>Admission\<close>

text \<open>
  The part of \<open>tryReserveAndAppend\<close> after the quota check: reserve, then append to the
  topic's open batch or open one.  The rollback of an unsupported type is the last branch.
\<close>

definition commitAppend ::
    "int \<Rightarrow> AsyncProducerClientConfig \<Rightarrow> string \<Rightarrow> LogData \<Rightarrow> CallBack ptr \<Rightarrow> int
     \<Rightarrow> 'z accumulator_scheme \<Rightarrow> bool outcome \<times> 'z accumulator_scheme" where
  "commitAppend now cfg topicId d cb logSize s =
     (let s1 = s\<lparr>producerLogGroupSize := int64 (producerLogGroupSize s + logSize)\<rparr> in
      if d = OtherData
      then (Inl err_logType,
            s1\<lparr>producerLogGroupSize := int64 (producerLogGroupSize s1 - logSize)\<rparr>)
      else
        let (r, s2) =
          (case gm_get (logTopicData s1) topicId of
             Some b \<Rightarrow> addOrSendProducerBatch now cfg topicId
                  (b\<lparr>totalDataSize := int64 (totalDataSize b + logSize)\<rparr>) d cb logSize s1
           | None \<Rightarrow> createNewProducerBatch now cfg d cb topicId s1)
        in (case r of Inl e \<Rightarrow> Inl e | Inr _ \<Rightarrow> Inr True, s2))"

definition tryReserveAndAppend ::
    "int \<Rightarrow> AsyncProducerClientConfig \<Rightarrow> string \<Rightarrow> LogData \<Rightarrow> CallBack ptr \<Rightarrow> int
     \<Rightarrow> 'z accumulator_scheme \<Rightarrow> bool outcome \<times> 'z accumulator_scheme" where
  "tryReserveAndAppend now cfg topicId d cb logSize s =
     (if acc_shutDownFlag s then (Inl err_shutdown, s)
      else let cur = producerLogGroupSize s in
           if TotalSizeLnBytes cfg < int64 (cur + logSize) then (Inr False, s)
           else commitAppend now cfg topicId d cb logSize s)"

text \<open>The size of a call's data, or the error it is rejected with before any state is read.\<close>

definition data_size :: "LogData \<Rightarrow> int outcome" where
  "data_size d = (case d of
       LogItem l \<Rightarrow> GetLogSizeCalculate l
     | LogList ls \<Rightarrow> GetLogListSize ls
     | OtherData \<Rightarrow> Inl err_logType)"

text \<open>
  The blocking modes.  Between two attempts (and before the first) other goroutines run:
  \<open>env i\<close> is what they do to the state before attempt \<open>i\<close>, \<open>clock i\<close> is the
  time that attempt reads.
\<close>

type_synonym 's env = "nat \<Rightarrow> 's \<Rightarrow> 's"

fun block_attempts ::
    "'z accumulator_scheme env \<Rightarrow> (nat \<Rightarrow> int) \<Rightarrow> AsyncProducerClientConfig \<Rightarrow> string \<Rightarrow> LogData
     \<Rightarrow> CallBack ptr \<Rightarrow> int \<Rightarrow> nat \<Rightarrow> nat \<Rightarrow> 'z accumulator_scheme
     \<Rightarrow> unit outcome \<times> 'z accumulator_scheme" where
  "block_attempts env clock cfg topicId d cb logSize 0 i s = (Inl errOverMaxBlock, s)"
| "block_attempts env clock cfg topicId d cb logSize (Suc n) i s =
     (case tryReserveAndAppend (clock i) cfg topicId d cb logSize (env i s) of
        (Inl e, s') \<Rightarrow> (Inl e, s')
      | (Inr ok, s') \<Rightarrow> if ok then (Inr (), s')
                       else block_attempts env clock cfg topicId d cb logSize n (Suc i) s')"

partial_function (option) block_forever ::
    "'z accumulator_scheme env \<Rightarrow> (nat \<Rightarrow> int) \<Rightarrow> AsyncProducerClientConfig \<Rightarrow> string \<Rightarrow> LogData
     \<Rightarrow> CallBack ptr \<Rightarrow> int \<Rightarrow> nat \<Rightarrow> 'z accumulator_scheme
     \<Rightarrow> (unit outcome \<times> 'z accumulator_scheme) option" where
  "block_forever env clock cfg topicId d cb logSize i s =
     (case tryReserveAndAppend (clock i) cfg topicId d cb logSize (env i s) of
        (Inl e, s') \<Rightarrow> Some (Inl e, s')
      | (Inr ok, s') \<Rightarrow> if ok then Some (Inr (), s')
                       else block_forever env clock cfg topicId d cb logSize (Suc i) s')"

text \<open>\<open>None\<close> is a call that never returns.\<close>

definition addLogToProducerBatch ::
    "'z accumulator_scheme env \<Rightarrow> (nat \<Rightarrow> int) \<Rightarrow> AsyncProducerClientConfig \<Rightarrow> string \<Rightarrow> LogData
     \<Rightarrow> CallBack ptr \<Rightarrow> 'z accumulator_scheme \<Rightarrow> (unit outcome \<times> 'z accumulator_scheme) option" where
  "addLogToProducerBatch env clock cfg topicId d cb s =
     (if acc_shutDownFlag s then Some (Inl err_shutdown, s)
      else case data_size d of
        Inl e \<Rightarrow> Some (Inl e, s)
      | Inr logSize \<Rightarrow>
          if MaxBlockSec cfg = 0 then
            (case tryReserveAndAppend (clock 0) cfg topicId d cb logSize (env 0 s) of
               (Inl e, s') \<Rightarrow> Some (Inl e, s')
             | (Inr ok, s') \<Rightarrow> Some (if ok then Inr () else Inl errOverMaxBlock, s'))
          else if MaxBlockSec cfg < 0 then
            block_forever env clock cfg topicId d cb logSize 0 s
          else Some (block_attempts env clock cfg topicId d cb logSize
                       (nat (MaxBlockSec cfg)) 0 s))"

definition SendLog ::
    "'z accumulator_scheme env \<Rightarrow> (nat \<Rightarrow> int) \<Rightarrow> AsyncProducerClientConfig \<Rightarrow> string \<Rightarrow> Log ptr
     \<Rightarrow> CallBack ptr \<Rightarrow> 'z accumulator_scheme \<Rightarrow> (unit outcome \<times> 'z accumulator_scheme) option" where
  "SendLog env clock cfg topicId l cb s =
     addLogToProducerBatch env clock cfg topicId (LogItem l) cb s"

definition SendLogList ::
    "'z accumulator_scheme env \<Rightarrow> (nat \<Rightarrow> int) \<Rightarrow> AsyncProducerClientConfig \<Rightarrow> string \<Rightarrow> Log ptr list
     \<Rightarrow> CallBack ptr \<Rightarrow> 'z accumulator_scheme \<Rightarrow> (unit outcome \<times> 'z accumulator_scheme) option" where
  "SendLogList env clock cfg topicId ls cb s =
     addLogToProducerBatch env clock cfg topicId (LogList ls) cb s"

section \<open>What an accepted call does\<close>

lemma data_size_logs: "data_size d = Inr n \<Longrightarrow> d \<noteq> OtherData \<and> GetLogListSize (data_logs d) = Inr n"
  by (cases d) (simp_all add: data_size_def GetLogListSize_single)

lemma data_size_nonneg: "data_size d = Inr n \<Longrightarrow> 0 \<le> n"
  using data_size_logs GetLogListSize_nonneg by blast

lemma addTask_unfold: "addTask b s = s\<lparr>tp_queue := tp_queue s @ [b]\<rparr>"
  by (simp add: addTask_def)

abbreviation next_pid :: "'z accumulator_scheme \<Rightarrow> string" where
  "next_pid s \<equiv> fst (generatePackageId (producerHash s) (batchID s))"

abbreviation next_batchID :: "'z accumulator_scheme \<Rightarrow> int" where
  "next_batchID s \<equiv> snd (generatePackageId (producerHash s) (batchID s))"

lemma createNewProducerBatch_ok:
  assumes "data_size d = Inr n"
  obtains b where "NewProducerBatch now topic cfg cb d (next_pid s) = Inr b"
    and "createNewProducerBatch now cfg d cb topic s =
      (Inr (), s\<lparr>batchID := next_batchID s, logTopicData := gm_put topic b (logTopicData s)\<rparr>)"
proof -
  obtain b where "NewProducerBatch now topic cfg cb d (next_pid s) = Inr b"
    using data_size_logs [OF assms] by (blast elim: NewProducerBatch_ok)
  with that show thesis
    using data_size_logs [OF assms]
    by (simp add: createNewProducerBatch_def Let_def split_beta)
qed

text \<open>
  The four ways an admitted call ends, with the exact state after it: every proof about
  \<open>commitAppend\<close> is a case analysis over them.
\<close>

lemma commitAppend_cases:
  fixes s :: "'z accumulator_scheme" and n :: int
  defines "q \<equiv> int64 (producerLogGroupSize s + n)"
  assumes "data_size d = Inr n"
  obtains
    (fresh) b where "gm_get (logTopicData s) topic = None"
      and "NewProducerBatch now topic cfg cb d (next_pid s) = Inr b"
      and "commitAppend now cfg topic d cb n s = (Inr True, s\<lparr>batchID := next_batchID s,
             logTopicData := gm_put topic b (logTopicData s), producerLogGroupSize := q\<rparr>)"
  | (send) b t where "gm_get (logTopicData s) topic = Some b"
      and "t = int64 (totalDataSize b + n)" and "MaxBatchSize cfg < t" and "t < 5242880"
      and "getLogGroupCount b + 1 \<le> MaxBatchCount cfg"
      and "commitAppend now cfg topic d cb n s = (Inr True, s\<lparr>
             tp_queue := tp_queue s @ [appendToBatch d cb n (b\<lparr>totalDataSize := t\<rparr>)],
             logTopicData := gm_delete topic (logTopicData s), producerLogGroupSize := q\<rparr>)"
  | (keep) b t where "gm_get (logTopicData s) topic = Some b"
      and "t = int64 (totalDataSize b + n)" and "t \<le> MaxBatchSize cfg"
      and "getLogGroupCount b + 1 \<le> MaxBatchCount cfg"
      and "commitAppend now cfg topic d cb n s = (Inr True, s\<lparr>
             logTopicData := gm_put topic (appendToBatch d cb n (b\<lparr>totalDataSize := t\<rparr>))
               (logTopicData s), producerLogGroupSize := q\<rparr>)"
  | (replace) b t b' where "gm_get (logTopicData s) topic = Some b"
      and "t = int64 (totalDataSize b + n)"
      and "NewProducerBatch now topic cfg cb d (next_pid s) = Inr b'"
      and "commitAppend now cfg topic d cb n s = (Inr True, s\<lparr>
             tp_queue := tp_queue s @ [b\<lparr>totalDataSize := t\<rparr>], batchID := next_batchID s,
             logTopicData := gm_put topic b' (gm_delete topic (logTopicData s)),
             producerLogGroupSize := q\<rparr>)"
proof (cases "gm_get (logTopicData s) topic")
  case None
  let ?s = "s\<lparr>producerLogGroupSize := q\<rparr>"
  obtain b where b: "NewProducerBatch now topic cfg cb d (next_pid ?s) = Inr b"
    and c: "createNewProducerBatch now cfg d cb topic ?s =
      (Inr (), ?s\<lparr>batchID := next_batchID ?s, logTopicData := gm_put topic b (logTopicData ?s)\<rparr>)"
    using createNewProducerBatch_ok [OF assms(2)] by blast
  from None b c data_size_logs [OF assms(2)] show thesis
    by (intro fresh [of b]) (simp_all add: commitAppend_def q_def)
next
  case (Some b)
  let ?t = "int64 (totalDataSize b + n)"
  let ?b = "b\<lparr>totalDataSize := ?t\<rparr>"
  let ?s = "s\<lparr>producerLogGroupSize := q\<rparr>"
  have commit: "commitAppend now cfg topic d cb n s =
      (let (r, s2) = addOrSendProducerBatch now cfg topic ?b d cb n ?s
       in (case r of Inl e \<Rightarrow> Inl e | Inr _ \<Rightarrow> Inr True, s2))"
    using Some data_size_logs [OF assms(2)] by (simp add: commitAppend_def q_def)
  have cnt: "getLogGroupCount ?b = getLogGroupCount b"
    by (simp add: getLogGroupCount_def batch_logs_def)
  consider "MaxBatchSize cfg < ?t" "?t < 5242880" "getLogGroupCount b + 1 \<le> MaxBatchCount cfg"
    | "?t \<le> MaxBatchSize cfg" "getLogGroupCount b + 1 \<le> MaxBatchCount cfg"
    | "\<not> (MaxBatchSize cfg < ?t \<and> ?t < 5242880 \<and> getLogGroupCount b + 1 \<le> MaxBatchCount cfg)"
      "\<not> (?t \<le> MaxBatchSize cfg \<and> getLogGroupCount b + 1 \<le> MaxBatchCount cfg)"
    by blast
  then show thesis
  proof cases
    case 1
    with commit cnt Some show thesis
      by (intro send [of b ?t])
        (simp_all add: addOrSendProducerBatch_def innerSendToServer_def addTask_unfold)
  next
    case 2
    with commit cnt Some show thesis
      by (intro keep [of b ?t]) (simp_all add: addOrSendProducerBatch_def)
  next
    case 3
    let ?u = "innerSendToServer topic ?b ?s"
    obtain b' where b': "NewProducerBatch now topic cfg cb d (next_pid ?u) = Inr b'"
      and c: "createNewProducerBatch now cfg d cb topic ?u =
        (Inr (), ?u\<lparr>batchID := next_batchID ?u, logTopicData := gm_put topic b' (logTopicData ?u)\<rparr>)"
      using createNewProducerBatch_ok [OF assms(2)] by blast
    have total: "totalDataSize ?b = ?t" by simp
    have "addOrSendProducerBatch now cfg topic ?b d cb n ?s =
        createNewProducerBatch now cfg d cb topic ?u"
      unfolding addOrSendProducerBatch_def Let_def cnt total
      by (simp only: if_not_P [OF 3(1)] if_not_P [OF 3(2)])
    with commit b' c Some show thesis
      by (intro replace [of b ?t b']) (simp_all add: innerSendToServer_def addTask_unfold)
  qed
qed

section \<open>Batches under an append\<close>

fun cb_list :: "CallBack ptr \<Rightarrow> CallBack list" where
  "cb_list None = []"
| "cb_list (Some c) = [c]"

lemma batch_logs_total [simp]: "batch_logs (b\<lparr>totalDataSize := t\<rparr>) = batch_logs b"
  by (simp add: batch_logs_def)

lemma batch_logs_retry [simp]:
  "batch_logs (b\<lparr>attemptCount := c, nextRetryMs := ms, result := res\<rparr>) = batch_logs b"
  by (simp add: batch_logs_def)

lemma append_fields [simp]:
  "batch_logs (appendToBatch d cb n b) = batch_logs b @ data_logs d"
  "accountedSize (appendToBatch d cb n b) = int64 (accountedSize b + n)"
  "callBackList (appendToBatch d cb n b) = callBackList b @ cb_list cb"
  "topicID (appendToBatch d cb n b) = topicID b"
  "totalDataSize (appendToBatch d cb n b) = totalDataSize b"
  "createTimeMs (appendToBatch d cb n b) = createTimeMs b"
  "packageID (appendToBatch d cb n b) = packageID b"
  "result (appendToBatch d cb n b) = result b"
  "attemptCount (appendToBatch d cb n b) = attemptCount b"
  "maxRetryTimes (appendToBatch d cb n b) = maxRetryTimes b"
  "maxReservedAttempts (appendToBatch d cb n b) = maxReservedAttempts b"
  by (cases cb; simp add: appendToBatch_def addProducerBatchCallBack_def addLogToLogGroup_def
      batch_logs_def GetLogs_def Let_def)+

lemma fresh_fields:
  assumes "data_size d = Inr n" and "NewProducerBatch now topic cfg cb d pid = Inr b"
  shows "batch_logs b = data_logs d" "accountedSize b = n" "callBackList b = cb_list cb"
    "topicID b = topic" "attemptCount b = 0" "result b = NewResult" "packageID b = pid"
    "maxRetryTimes b = Retries cfg" "createTimeMs b = GetTimeMs now"
    "maxReservedAttempts b = MaxReservedAttempts cfg"
  using data_size_logs [OF assms(1)] assms(2)
  by (auto simp: NewProducerBatch_def Let_def batch_logs_def GetLogs_def split: option.splits)

lemma batch_ok_append:
  assumes "batch_ok b" and "data_size d = Inr n" and "in_int64 (accountedSize b + n)"
  shows "batch_ok (appendToBatch d cb n (b\<lparr>totalDataSize := t\<rparr>))"
  using assms data_size_logs [OF assms(2)] GetLogListSize_append [of "batch_logs b" _ "data_logs d" n]
  by (simp add: batch_ok_def)

lemma batch_ok_total [simp]: "batch_ok (b\<lparr>totalDataSize := t\<rparr>) = batch_ok b"
  by (simp add: batch_ok_def)

lemma batch_ok_fresh:
  assumes "data_size d = Inr n" and "NewProducerBatch now topic cfg cb d pid = Inr b"
    and "valid_config cfg"
  shows "batch_ok b"
  using NewProducerBatch_batch_ok [of d n cfg now topic cb pid b] data_size_logs assms by auto

section \<open>The accumulator's invariant\<close>

text \<open>Every open batch is filed under its own topic, and no topic has two.\<close>

definition acc_wf :: "'z accumulator_scheme \<Rightarrow> bool" where
  "acc_wf s \<longleftrightarrow> gm_ok (logTopicData s) \<and> (\<forall>(k, b) \<in> set (logTopicData s). topicID b = k)"

lemma acc_wfD:
  assumes "acc_wf s"
  shows "gm_ok (logTopicData s)" and "gm_get (logTopicData s) k = Some b \<Longrightarrow> topicID b = k"
  using assms gm_get_in_set [of "logTopicData s" k b] by (auto simp: acc_wf_def)

text \<open>The batches the accumulator and the send queue hold.\<close>

definition acc_batches :: "'z accumulator_scheme \<Rightarrow> ProducerBatch multiset" where
  "acc_batches s = gm_values (logTopicData s) + mset (tp_queue s)"

lemma open_in_acc_batches: "gm_get (logTopicData s) k = Some b \<Longrightarrow> b \<in># acc_batches s"
  using gm_get_in_values [of "logTopicData s"] by (simp add: acc_batches_def)

lemma acc_wf_commitAppend:
  assumes "acc_wf s" and "data_size d = Inr n"
    and "commitAppend now cfg topic d cb n s = (r, s')"
  shows "acc_wf s'"
  using assms(2)
proof (cases rule: commitAppend_cases [where s = s and now = now and cfg = cfg and topic = topic and cb = cb])
  case (fresh b)
  with assms show ?thesis by (auto simp: acc_wf_def fresh_fields)
next
  case (send b t)
  with assms show ?thesis by (auto simp: acc_wf_def)
next
  case (keep b t)
  with assms acc_wfD(2) [OF assms(1)] show ?thesis by (auto simp: acc_wf_def)
next
  case (replace b t b')
  with assms show ?thesis by (auto simp: acc_wf_def fresh_fields)
qed

section \<open>The abstract log streams\<close>

text \<open>
  What the grouping implements: one stream of logs per topic.  The stream of a topic is what
  its queued batches hold, in queue order, followed by its open batch.
\<close>

definition topic_stream :: "'z accumulator_scheme \<Rightarrow> string \<Rightarrow> Log ptr list" where
  "topic_stream s k =
     concat (map batch_logs (filter (\<lambda>b. topicID b = k) (tp_queue s))) @
     (case gm_get (logTopicData s) k of None \<Rightarrow> [] | Some b \<Rightarrow> batch_logs b)"

lemma topic_stream_commitAppend:
  assumes "acc_wf s" and "data_size d = Inr n"
    and "commitAppend now cfg topic d cb n s = (r, s')"
  shows "topic_stream s' = (topic_stream s)(topic := topic_stream s topic @ data_logs d)"
  using assms(2)
proof (cases rule: commitAppend_cases [where s = s and now = now and cfg = cfg and topic = topic and cb = cb])
  case (fresh b)
  with assms show ?thesis by (auto simp: topic_stream_def fun_eq_iff fresh_fields)
next
  case (send b t)
  with assms acc_wfD(2) [OF assms(1)] show ?thesis by (auto simp: topic_stream_def fun_eq_iff)
next
  case (keep b t)
  with assms acc_wfD(2) [OF assms(1)] show ?thesis by (auto simp: topic_stream_def fun_eq_iff)
next
  case (replace b t b')
  with assms acc_wfD(2) [OF assms(1)] show ?thesis
    by (auto simp: topic_stream_def fun_eq_iff fresh_fields)
qed

section \<open>Additive measures of batches\<close>

text \<open>
  A measure a batch carries that appending adds to and that the retry machinery leaves
  alone.  Charged bytes, callbacks and logs are the three instances; each conservation law
  is proved once, here, and later for every holder.
\<close>

locale batch_measure =
  fixes f :: "ProducerBatch \<Rightarrow> 'm :: comm_monoid_add"
    and weight :: "string \<Rightarrow> CallBack ptr \<Rightarrow> LogData \<Rightarrow> 'm"
  assumes f_append: "data_size d = Inr n \<Longrightarrow> in_int64 (accountedSize b + n) \<Longrightarrow>
      f (appendToBatch d cb n b) = f b + weight (topicID b) cb d"
    and f_fresh: "data_size d = Inr n \<Longrightarrow> NewProducerBatch now topic cfg cb d pid = Inr b \<Longrightarrow>
      f b = weight topic cb d"
    and f_total: "f (b\<lparr>totalDataSize := t\<rparr>) = f b"
    and f_retry: "f (b\<lparr>attemptCount := c, nextRetryMs := ms, result := res\<rparr>) = f b"
begin

lemma sum_open:
  "acc_wf s \<Longrightarrow> gm_get (logTopicData s) k = Some b \<Longrightarrow>
   (\<Sum>x\<in>#acc_batches s. f x) =
     f b + (\<Sum>x\<in>#gm_values (gm_delete k (logTopicData s)) + mset (tp_queue s). f x)"
  by (simp add: acc_batches_def gm_values_delete [of _ k b] acc_wfD(1) ac_simps)

lemma sum_commitAppend:
  assumes "acc_wf s" and "data_size d = Inr n"
    and "\<And>b. gm_get (logTopicData s) topic = Some b \<Longrightarrow> in_int64 (accountedSize b + n)"
    and "commitAppend now cfg topic d cb n s = (r, s')"
  shows "(\<Sum>b\<in>#acc_batches s'. f b) = (\<Sum>b\<in>#acc_batches s. f b) + weight topic cb d"
  using assms(2)
proof (cases rule: commitAppend_cases [where s = s and now = now and cfg = cfg and topic = topic and cb = cb])
  case (fresh b)
  with assms f_fresh [OF assms(2) fresh(2)] show ?thesis
    by (auto simp: acc_batches_def gm_delete_absent ac_simps)
next
  case (send b t)
  have "f (appendToBatch d cb n (b\<lparr>totalDataSize := t\<rparr>)) = f b + weight topic cb d"
    using f_append [OF assms(2), of "b\<lparr>totalDataSize := t\<rparr>" cb] assms send
      acc_wfD(2) [OF assms(1) send(1)] by (simp add: f_total)
  with send assms sum_open [OF assms(1) send(1)] show ?thesis
    by (auto simp: acc_batches_def ac_simps)
next
  case (keep b t)
  have "f (appendToBatch d cb n (b\<lparr>totalDataSize := t\<rparr>)) = f b + weight topic cb d"
    using f_append [OF assms(2), of "b\<lparr>totalDataSize := t\<rparr>" cb] assms keep
      acc_wfD(2) [OF assms(1) keep(1)] by (simp add: f_total)
  with keep assms sum_open [OF assms(1) keep(1)] show ?thesis
    by (auto simp: acc_batches_def ac_simps)
next
  case (replace b t b')
  have "gm_delete topic (gm_delete topic (logTopicData s)) = gm_delete topic (logTopicData s)"
    by (simp add: gm_delete_absent)
  with replace assms sum_open [OF assms(1) replace(1)] f_fresh [OF assms(2) replace(3)] show ?thesis
    by (auto simp: acc_batches_def f_total ac_simps)
qed

end

abbreviation charge :: "LogData \<Rightarrow> int" where
  "charge d \<equiv> (case data_size d of Inl e \<Rightarrow> 0 | Inr n \<Rightarrow> n)"

interpretation acct: batch_measure accountedSize "\<lambda>_ _ d. charge d"
  by unfold_locales (simp_all add: fresh_fields)

interpretation cbs: batch_measure "\<lambda>b. mset (callBackList b)" "\<lambda>_ cb _. mset (cb_list cb)"
  by unfold_locales (simp_all add: fresh_fields)

interpretation logs: batch_measure "\<lambda>b. image_mset (Pair (topicID b)) (mset (batch_logs b))"
    "\<lambda>topic _ d. image_mset (Pair topic) (mset (data_logs d))"
  by unfold_locales (simp_all add: fresh_fields)

end
