(* ===== verification/Go_Heap.thy ===== *)
theory Go_Heap
  imports Prelude
begin

text \<open>
  Go's \<^verbatim>\<open>container/heap\<close>, which the retry queue is built on, over a slice and a key:
  \<open>Less (i, j)\<close> is \<open>key (xs ! i) < key (xs ! j)\<close>.  The lemmas show that \<open>Push\<close>, \<open>Pop\<close> and
  \<open>Init\<close> keep or establish the heap order and only permute the slice.
\<close>

section \<open>The operations\<close>

definition par :: "nat \<Rightarrow> nat" where
  "par j = (j - 1) div 2"

definition swap :: "nat \<Rightarrow> nat \<Rightarrow> 'a list \<Rightarrow> 'a list" where
  "swap i j xs = xs[i := xs ! j, j := xs ! i]"

definition less_at :: "('a \<Rightarrow> int) \<Rightarrow> 'a list \<Rightarrow> nat \<Rightarrow> nat \<Rightarrow> bool" where
  "less_at key xs i j \<longleftrightarrow> key (xs ! i) < key (xs ! j)"

function up :: "('a \<Rightarrow> int) \<Rightarrow> nat \<Rightarrow> 'a list \<Rightarrow> 'a list" where
  "up key j xs = (let i = par j in
     if i = j \<or> \<not> less_at key xs j i then xs else up key i (swap i j xs))"
  by auto

termination up
  by (relation "measure (\<lambda>(key, j, xs). j)") (auto simp: par_def)

function down :: "('a \<Rightarrow> int) \<Rightarrow> nat \<Rightarrow> nat \<Rightarrow> 'a list \<Rightarrow> 'a list" where
  "down key i n xs = (let j1 = 2 * i + 1 in
     if n \<le> j1 then xs
     else let j = (if j1 + 1 < n \<and> less_at key xs (j1 + 1) j1 then j1 + 1 else j1) in
          if \<not> less_at key xs j i then xs else down key j n (swap i j xs))"
  by auto

termination down
  by (relation "measure (\<lambda>(key, i, n, xs). n - i)") (auto simp: Let_def split: if_splits)

declare up.simps [simp del] down.simps [simp del]

definition heap_Push :: "('a \<Rightarrow> int) \<Rightarrow> 'a \<Rightarrow> 'a list \<Rightarrow> 'a list" where
  "heap_Push key x xs = (let ys = xs @ [x] in up key (length ys - 1) ys)"

text \<open>\<open>Pop\<close> on an empty heap indexes out of range; the retry queue never calls it so.\<close>

definition heap_Pop :: "('a \<Rightarrow> int) \<Rightarrow> 'a list \<Rightarrow> 'a \<times> 'a list" where
  "heap_Pop key xs = (let n = length xs - 1; ys = down key 0 n (swap 0 n xs)
     in (last ys, butlast ys))"

fun heapify :: "('a \<Rightarrow> int) \<Rightarrow> nat \<Rightarrow> 'a list \<Rightarrow> 'a list" where
  "heapify key 0 xs = xs"
| "heapify key (Suc i) xs = heapify key i (down key i (length xs) xs)"

definition heap_Init :: "('a \<Rightarrow> int) \<Rightarrow> 'a list \<Rightarrow> 'a list" where
  "heap_Init key xs = heapify key (length xs div 2) xs"

section \<open>Heap order\<close>

definition heap_upto :: "('a \<Rightarrow> int) \<Rightarrow> nat \<Rightarrow> 'a list \<Rightarrow> bool" where
  "heap_upto key n xs \<longleftrightarrow> (\<forall>k<n. 0 < k \<longrightarrow> key (xs ! par k) \<le> key (xs ! k))"

abbreviation is_heap :: "('a \<Rightarrow> int) \<Rightarrow> 'a list \<Rightarrow> bool" where
  "is_heap key xs \<equiv> heap_upto key (length xs) xs"

lemma par_less [simp]: "0 < k \<Longrightarrow> par k < k"
  by (auto simp: par_def)

lemma not_le_par [simp]: "0 < k \<Longrightarrow> \<not> k \<le> par k"
  by (simp add: not_le)

lemma par_0 [simp]: "par 0 = 0"
  by (simp add: par_def)

lemma par_iff: "0 < k \<Longrightarrow> par k = i \<longleftrightarrow> k = 2 * i + 1 \<or> k = 2 * i + 2"
  by (auto simp: par_def)

lemma length_swap [simp]: "length (swap i j xs) = length xs"
  by (simp add: swap_def)

lemma nth_swap:
  "i < length xs \<Longrightarrow> j < length xs \<Longrightarrow>
   swap i j xs ! k = (if k = j then xs ! i else if k = i then xs ! j else xs ! k)"
  by (simp add: swap_def nth_list_update)

lemma mset_swap': "i < length xs \<Longrightarrow> j < length xs \<Longrightarrow> mset (swap i j xs) = mset xs"
  unfolding swap_def by (rule mset_swap)

text \<open>The smallest key is at the root.\<close>

lemma heap_root_le:
  assumes "heap_upto key n xs" and "k < n"
  shows "key (xs ! 0) \<le> key (xs ! k)"
  using assms(2)
proof (induction k rule: less_induct)
  case (less k)
  show ?case
  proof (cases "k = 0")
    case False
    with less have "key (xs ! 0) \<le> key (xs ! par k)" by (meson less_trans neq0_conv par_less)
    also have "\<dots> \<le> key (xs ! k)" using assms(1) less.prems False by (simp add: heap_upto_def)
    finally show ?thesis .
  qed simp
qed

section \<open>Sifting up\<close>

text \<open>Heap order everywhere except between \<open>j\<close> and its parent.\<close>

definition up_inv :: "('a \<Rightarrow> int) \<Rightarrow> nat \<Rightarrow> nat \<Rightarrow> 'a list \<Rightarrow> bool" where
  "up_inv key n j xs \<longleftrightarrow>
     (\<forall>k<n. 0 < k \<longrightarrow> k \<noteq> j \<longrightarrow> key (xs ! par k) \<le> key (xs ! k)) \<and>
     (\<forall>k<n. 0 < k \<longrightarrow> par k = j \<longrightarrow> 0 < j \<longrightarrow> key (xs ! par j) \<le> key (xs ! k))"

lemma up_inv_swap:
  assumes "up_inv key n j xs" and "j < n" and "n \<le> length xs" and "0 < j"
    and "key (xs ! j) < key (xs ! par j)"
  shows "up_inv key n (par j) (swap (par j) j xs)"
proof -
  have len: "par j < length xs" "j < length xs" "par j < j" using assms by (auto intro: less_le_trans dest: par_less)
  note nth = nth_swap [OF len(1,2)]
  have ord: "key (xs ! par k) \<le> key (xs ! k)" if "k < n" "0 < k" "k \<noteq> j" for k
    using assms(1) that by (simp add: up_inv_def)
  have child: "key (xs ! par j) \<le> key (xs ! k)" if "k < n" "0 < k" "par k = j" for k
    using assms(1,4) that by (simp add: up_inv_def)
  show ?thesis
    unfolding up_inv_def nth
  proof (intro conjI allI impI)
    fix k assume k: "k < n" "0 < k" "k \<noteq> par j"
    with ord [OF k(1,2)] child [OF k(1,2)] assms(5) len
    show "key (if par k = j then xs ! par j else if par k = par j then xs ! j else xs ! par k)
      \<le> key (if k = j then xs ! par j else if k = par j then xs ! j else xs ! k)"
      by (cases "k = j"; cases "par k = j"; cases "par k = par j"; auto)
  next
    fix k assume k: "k < n" "0 < k" "par k = par j" "0 < par j"
    have "par (par j) < par j" using k by simp
    moreover have "key (xs ! par (par j)) \<le> key (xs ! par j)"
      using ord [of "par j"] k len assms by simp
    moreover have "key (xs ! par j) \<le> key (xs ! k)" if "k \<noteq> j" using ord [OF k(1,2) that] k by simp
    moreover have "k \<noteq> par j" using k by (metis less_irrefl par_less)
    ultimately show "key (if par (par j) = j then xs ! par j
         else if par (par j) = par j then xs ! j else xs ! par (par j))
      \<le> key (if k = j then xs ! par j else if k = par j then xs ! j else xs ! k)"
      using len by (cases "k = j") auto
  qed
qed

lemma up_correct:
  assumes "up_inv key n j xs" and "j < n" and "n \<le> length xs"
  shows "heap_upto key n (up key j xs) \<and> mset (up key j xs) = mset xs"
  using assms
proof (induction key j xs rule: up.induct)
  case (1 key j xs)
  show ?case
  proof (cases "par j = j \<or> \<not> less_at key xs j (par j)")
    case True
    then have "j = 0 \<or> key (xs ! par j) \<le> key (xs ! j)"
      by (metis less_at_def less_irrefl linorder_not_le not_gr_zero par_less)
    with 1(2) have "heap_upto key n xs" unfolding heap_upto_def up_inv_def by auto
    with True show ?thesis by (simp add: up.simps [of key j xs] Let_def)
  next
    case False
    then have j: "0 < j" and lt: "key (xs ! j) < key (xs ! par j)"
      by (auto simp: less_at_def intro: gr0I)
    have pl: "par j < n" using j 1(3) par_less by (meson less_trans)
    have "heap_upto key n (up key (par j) (swap (par j) j xs)) \<and>
        mset (up key (par j) (swap (par j) j xs)) = mset (swap (par j) j xs)"
      using up_inv_swap [OF 1(2-4) j lt] pl 1(4) False by (intro 1(1)) auto
    moreover have "mset (swap (par j) j xs) = mset xs"
      using 1(3,4) pl by (intro mset_swap') auto
    ultimately show ?thesis using False by (simp add: up.simps [of key j xs] Let_def)
  qed
qed

section \<open>Sifting down\<close>

text \<open>Heap order at and below \<open>m\<close>, except between \<open>i\<close> and its children.\<close>

definition down_inv :: "('a \<Rightarrow> int) \<Rightarrow> nat \<Rightarrow> nat \<Rightarrow> nat \<Rightarrow> 'a list \<Rightarrow> bool" where
  "down_inv key m n i xs \<longleftrightarrow>
     (\<forall>k<n. 0 < k \<longrightarrow> m \<le> par k \<longrightarrow> par k \<noteq> i \<longrightarrow> key (xs ! par k) \<le> key (xs ! k)) \<and>
     (\<forall>k<n. 0 < k \<longrightarrow> par k = i \<longrightarrow> 0 < i \<longrightarrow> m \<le> par i \<longrightarrow> key (xs ! par i) \<le> key (xs ! k))"

definition heap_from :: "('a \<Rightarrow> int) \<Rightarrow> nat \<Rightarrow> nat \<Rightarrow> 'a list \<Rightarrow> bool" where
  "heap_from key m n xs \<longleftrightarrow> (\<forall>k<n. 0 < k \<longrightarrow> m \<le> par k \<longrightarrow> key (xs ! par k) \<le> key (xs ! k))"

lemma heap_from_0: "heap_from key 0 n xs \<longleftrightarrow> heap_upto key n xs"
  by (simp add: heap_from_def heap_upto_def)

lemma down_inv_swap:
  assumes inv: "down_inv key m n i xs" and "m \<le> i" and "n \<le> length xs"
    and j: "j < n" "0 < j" "par j = i"
    and least: "\<And>k. k < n \<Longrightarrow> 0 < k \<Longrightarrow> par k = i \<Longrightarrow> key (xs ! j) \<le> key (xs ! k)"
    and lt: "key (xs ! j) < key (xs ! i)"
  shows "down_inv key m n j (swap i j xs)"
proof -
  have ij: "i < j" using j by (metis par_less)
  then have len: "i < length xs" "j < length xs" using j assms(3) by auto
  note nth = nth_swap [OF len]
  have ord: "key (xs ! par k) \<le> key (xs ! k)" if "k < n" "0 < k" "m \<le> par k" "par k \<noteq> i" for k
    using inv that by (simp add: down_inv_def)
  have above: "key (xs ! par i) \<le> key (xs ! j)" if "0 < i" "m \<le> par i"
    using inv that j by (simp add: down_inv_def)
  show ?thesis
    unfolding down_inv_def nth
  proof (intro conjI allI impI)
    fix k assume k: "k < n" "0 < k" "m \<le> par k" "par k \<noteq> j"
    have "par k < k" using k by simp
    with k ord [OF k(1-3)] above least [OF k(1,2)] lt ij j
    show "key (if par k = j then xs ! i else if par k = i then xs ! j else xs ! par k)
      \<le> key (if k = j then xs ! i else if k = i then xs ! j else xs ! k)"
      by (cases "par k = i"; cases "k = j"; cases "k = i"; auto)
  next
    fix k assume k: "k < n" "0 < k" "par k = j" "0 < j" "m \<le> par j"
    have "j < k" using k by (metis par_less)
    moreover have "key (xs ! j) \<le> key (xs ! k)" using ord [OF k(1,2)] k ij j assms(2) by simp
    ultimately show "key (if par j = j then xs ! i else if par j = i then xs ! j else xs ! par j)
      \<le> key (if k = j then xs ! i else if k = i then xs ! j else xs ! k)"
      using ij j by simp
  qed
qed

lemma nth_swap_other: "k \<noteq> i \<Longrightarrow> k \<noteq> j \<Longrightarrow> swap i j xs ! k = xs ! k"
  by (simp add: swap_def)

lemma down_correct:
  assumes "down_inv key m n i xs" and "m \<le> i" and "n \<le> length xs"
  shows "heap_from key m n (down key i n xs) \<and> mset (down key i n xs) = mset xs \<and>
    (\<forall>k. n \<le> k \<longrightarrow> down key i n xs ! k = xs ! k)"
  using assms
proof (induction key i n xs rule: down.induct)
  case (1 key i n xs)
  let ?j = "if 2 * i + 2 < n \<and> less_at key xs (2 * i + 2) (2 * i + 1) then 2 * i + 2 else 2 * i + 1"
  have unfold: "down key i n xs = (if n \<le> 2 * i + 1 \<or> \<not> less_at key xs ?j i then xs
      else down key ?j n (swap i ?j xs))"
    by (simp add: down.simps [of key i n xs] Let_def)
  have children: "k = 2 * i + 1 \<or> k = 2 * i + 2" if "0 < k" "par k = i" for k
    using that par_iff by blast
  have least: "key (xs ! ?j) \<le> key (xs ! k)" if "k < n" "0 < k" "par k = i" for k
    using children [OF that(2,3)] that(1) by (auto simp: less_at_def)
  show ?case
  proof (cases "n \<le> 2 * i + 1 \<or> \<not> less_at key xs ?j i")
    case True
    have "key (xs ! i) \<le> key (xs ! k)" if "k < n" "0 < k" "par k = i" for k
    proof (cases "n \<le> 2 * i + 1")
      case True
      with children [OF that(2,3)] that(1) show ?thesis by auto
    next
      case False
      with True least [OF that] show ?thesis by (simp add: less_at_def)
    qed
    with 1(2) have "heap_from key m n xs"
      unfolding heap_from_def down_inv_def by metis
    with True show ?thesis by (simp only: unfold if_True) simp
  next
    case False
    then have j: "?j < n" "0 < ?j" "par ?j = i" and lt: "key (xs ! ?j) < key (xs ! i)"
      by (auto simp: par_def less_at_def)
    have ij: "i < ?j" by simp
    have IH: "heap_from key m n (down key ?j n (swap i ?j xs)) \<and>
        mset (down key ?j n (swap i ?j xs)) = mset (swap i ?j xs) \<and>
        (\<forall>k. n \<le> k \<longrightarrow> down key ?j n (swap i ?j xs) ! k = swap i ?j xs ! k)"
    proof (rule 1(1) [OF refl])
      show "\<not> n \<le> 2 * i + 1" using False by blast
      show "?j = (if 2 * i + 1 + 1 < n \<and> less_at key xs (2 * i + 1 + 1) (2 * i + 1)
          then 2 * i + 1 + 1 else 2 * i + 1)" by simp
      show "\<not> \<not> less_at key xs ?j i" using False by blast
      show "down_inv key m n ?j (swap i ?j xs)"
        using down_inv_swap [OF 1(2-4) j least lt] by blast
      show "m \<le> ?j" using 1(3) ij by linarith
      show "n \<le> length (swap i ?j xs)" using 1(4) by simp
    qed
    moreover have "mset (swap i ?j xs) = mset xs"
      using j(1) ij 1(4) by (intro mset_swap') linarith+
    moreover have "swap i ?j xs ! k = xs ! k" if "n \<le> k" for k
      using that j(1) ij by (intro nth_swap_other) linarith+
    ultimately show ?thesis using False by (simp only: unfold if_False) simp
  qed
qed

lemma length_down [simp]: "length (down key i n xs) = length xs"
  by (induction key i n xs rule: down.induct) (subst down.simps, simp add: Let_def)

section \<open>Push, Pop, Init\<close>

lemma heap_Push_correct:
  assumes "is_heap key xs"
  shows "is_heap key (heap_Push key x xs) \<and> mset (heap_Push key x xs) = add_mset x (mset xs)"
proof -
  let ?ys = "xs @ [x]"
  have "up_inv key (length ?ys) (length xs) ?ys"
  proof -
    have "key (?ys ! par k) \<le> key (?ys ! k)" if "k < length xs" "0 < k" for k
    proof -
      have "par k < length xs" using that par_less less_trans by blast
      with that assms show ?thesis by (simp add: heap_upto_def nth_append)
    qed
    moreover have "par k \<noteq> length xs" if "k < length ?ys" "0 < k" for k
      using that(1) par_less [OF that(2)] by (simp del: par_less)
    ultimately show ?thesis unfolding up_inv_def by (auto simp: less_Suc_eq)
  qed
  from up_correct [OF this] have
    *: "heap_upto key (length ?ys) (heap_Push key x xs)" "mset (heap_Push key x xs) = mset ?ys"
    by (simp_all add: heap_Push_def)
  then have "length (heap_Push key x xs) = length ?ys" by (metis size_mset)
  with * show ?thesis by simp
qed

lemma heap_Pop_correct:
  assumes "is_heap key xs" and "xs \<noteq> []" and "heap_Pop key xs = (x, ys)"
  shows "x = xs ! 0 \<and> mset xs = add_mset x (mset ys) \<and> is_heap key ys"
proof -
  let ?n = "length xs - Suc 0" and ?sw = "swap 0 (length xs - Suc 0) xs"
  let ?zs = "down key 0 ?n ?sw"
  have len: "0 < length xs" "?n < length xs" using assms(2) by auto
  have nth: "?sw ! k = (if k = ?n then xs ! 0 else if k = 0 then xs ! ?n else xs ! k)" for k
    by (rule nth_swap [OF len])
  have "down_inv key 0 ?n 0 ?sw"
    unfolding down_inv_def
  proof (intro conjI allI impI)
    fix k assume k: "k < ?n" "0 < k" "par k \<noteq> 0"
    have "par k < ?n" using k par_less less_trans by blast
    then show "key (?sw ! par k) \<le> key (?sw ! k)"
      using k assms(1) by (simp add: nth heap_upto_def)
  qed auto
  from down_correct [OF this] have
    d: "heap_upto key ?n ?zs" "mset ?zs = mset ?sw" "?zs ! ?n = ?sw ! ?n"
    by (simp_all add: heap_from_0)
  have ne: "?zs \<noteq> []" using assms(2) length_down [of key 0 ?n ?sw] by (metis length_0_conv length_swap)
  have last: "last ?zs = xs ! 0"
    using ne d(3) by (simp add: last_conv_nth nth)
  have x: "x = last ?zs" "ys = butlast ?zs" using assms(3) by (auto simp: heap_Pop_def Let_def)
  have "mset xs = mset ?zs" using d(2) mset_swap' [OF len] by simp
  also have "\<dots> = mset (butlast ?zs @ [last ?zs])" using ne by simp
  finally have m: "mset xs = add_mset x (mset ys)" using x by simp
  have "is_heap key ys"
    unfolding heap_upto_def
  proof (intro allI impI)
    fix k assume k: "k < length ys" "0 < k"
    then have "par k < length ys" using par_less less_trans by blast
    with k d(1) show "key (ys ! par k) \<le> key (ys ! k)"
      by (simp add: x nth_butlast heap_upto_def)
  qed
  with m last x show ?thesis by simp
qed

lemma heapify_correct:
  assumes "heap_from key i (length xs) xs"
  shows "is_heap key (heapify key i xs) \<and> mset (heapify key i xs) = mset xs"
  using assms
proof (induction i arbitrary: xs)
  case 0
  then show ?case by (simp add: heap_from_0)
next
  case (Suc i)
  have "down_inv key i (length xs) i xs"
    using Suc.prems by (auto simp: down_inv_def heap_from_def)
  from down_correct [OF this] have d: "heap_from key i (length xs) (down key i (length xs) xs)"
    "mset (down key i (length xs) xs) = mset xs" by simp_all
  with Suc.IH [of "down key i (length xs) xs"] show ?case by simp
qed

lemma heap_Init_correct: "is_heap key (heap_Init key xs) \<and> mset (heap_Init key xs) = mset xs"
  unfolding heap_Init_def
  by (rule heapify_correct) (auto simp: heap_from_def par_def)

end
