(* ===== verification/Retry_Queue.thy ===== *)
theory Retry_Queue
  imports Go_Heap Producer_Batch Interfaces
begin

text \<open>
  \<^verbatim>\<open>log_send_retry_queue.go\<close>: failed batches wait in a heap ordered by the time of
  their next attempt.  The queue is its slice; both methods hold its mutex throughout.
\<close>

abbreviation retry_heap :: "ProducerBatch list \<Rightarrow> bool" where
  "retry_heap \<equiv> is_heap nextRetryMs"

definition NewRetryQueue :: "ProducerBatch list" where
  "NewRetryQueue = heap_Init nextRetryMs []"

definition sendToRetryQueue :: "ProducerBatch ptr \<Rightarrow> ProducerBatch list \<Rightarrow> ProducerBatch list" where
  "sendToRetryQueue p q = (case p of None \<Rightarrow> q | Some b \<Rightarrow> heap_Push nextRetryMs b q)"

lemma retry_pop:
  assumes "retry_heap q" and "q \<noteq> []"
  shows "fst (heap_Pop nextRetryMs q) = q ! 0"
    "mset q = add_mset (fst (heap_Pop nextRetryMs q)) (mset (snd (heap_Pop nextRetryMs q)))"
    "retry_heap (snd (heap_Pop nextRetryMs q))"
  using heap_Pop_correct [OF assms prod.collapse [symmetric]] by blast+

lemma retry_root_le:
  assumes "retry_heap q" and "b \<in> set q"
  shows "nextRetryMs (q ! 0) \<le> nextRetryMs b"
  using assms heap_root_le [OF assms(1)] by (metis in_set_conv_nth)

interpretation retry: min_queue retry_heap mset "heap_Push nextRetryMs" nextRetryMs
    "heap_Pop nextRetryMs"
proof (unfold_locales, goal_cases)
  case (1 s b)
  then show ?case by (rule heap_Push_correct [THEN conjunct2])
next
  case (2 s b)
  then show ?case by (rule heap_Push_correct [THEN conjunct1])
next
  case (3 s)
  then show ?case using retry_pop(2) [of s] by simp
next
  case (4 s)
  then show ?case using retry_pop(3) [of s] by simp
next
  case (5 s b)
  then have ne: "s \<noteq> []" and mem: "b \<in> set s" by auto
  show ?case unfolding retry_pop(1) [OF 5(1) ne] by (rule retry_root_le [OF 5(1) mem])
qed

lemma heap_Pop_size: "(x, r) = heap_Pop key q \<Longrightarrow> q \<noteq> [] \<Longrightarrow> length r < length q"
  by (simp add: heap_Pop_def Let_def)

section \<open>Taking batches out\<close>

text \<open>
  The two loops of \<open>getRetryBatch\<close>.  The clock is read once for every popped batch;
  \<open>clock i\<close> is the \<open>i\<close>-th reading of \<open>time.Now ().UnixNano ()\<close>.
\<close>

function takeDue ::
    "(nat \<Rightarrow> int) \<Rightarrow> nat \<Rightarrow> ProducerBatch list \<Rightarrow> ProducerBatch list \<times> ProducerBatch list" where
  "takeDue clock i q =
     (if q = [] then ([], q)
      else let (b, q') = heap_Pop nextRetryMs q in
           if nextRetryMs b < GetTimeMs (clock i)
           then let (bs, q'') = takeDue clock (Suc i) q' in (b # bs, q'')
           else ([], heap_Push nextRetryMs b q'))"
  by auto

termination takeDue
  by (relation "measure (\<lambda>(clock, i, q). length q)")
    (auto dest: heap_Pop_size)

function takeAll :: "ProducerBatch list \<Rightarrow> ProducerBatch list \<times> ProducerBatch list" where
  "takeAll q =
     (if q = [] then ([], q)
      else let (b, q') = heap_Pop nextRetryMs q; (bs, q'') = takeAll q' in (b # bs, q''))"
  by auto

termination takeAll
  by (relation "measure length") (auto dest: heap_Pop_size)

declare takeDue.simps [simp del] takeAll.simps [simp del]

lemma take_Nil [simp]: "takeDue clock i [] = ([], [])" "takeAll [] = ([], [])"
  by (simp_all add: takeDue.simps takeAll.simps)

definition getRetryBatch ::
    "bool \<Rightarrow> (nat \<Rightarrow> int) \<Rightarrow> ProducerBatch list \<Rightarrow> ProducerBatch list \<times> ProducerBatch list" where
  "getRetryBatch moverShutDownFlag clock q =
     (if \<not> moverShutDownFlag then takeDue clock 0 q else takeAll q)"

section \<open>Correctness\<close>

lemma pop_facts:
  assumes "retry_heap q" and "q \<noteq> []" and "heap_Pop nextRetryMs q = (b, q')"
  shows "mset q = add_mset b (mset q')" "retry_heap q'" "b' \<in> set q' \<Longrightarrow> nextRetryMs b \<le> nextRetryMs b'"
    "heap_Push nextRetryMs b q' = p \<Longrightarrow> mset p = mset q \<and> retry_heap p"
  using assms retry.bag_popMin [of q] retry.invar_popMin [of q] retry.popMin_rest_le [of q b']
    retry.bag_push_popMin [of q] retry.invar_put [of q' b] by auto

lemma takeDue_correct:
  assumes "retry_heap q" and "takeDue clock i q = (bs, q')"
  shows "retry_heap q' \<and> mset q = mset bs + mset q' \<and>
    sorted (map nextRetryMs bs) \<and>
    (\<forall>j<length bs. nextRetryMs (bs ! j) < GetTimeMs (clock (i + j))) \<and>
    (\<forall>b\<in>set q'. GetTimeMs (clock (i + length bs)) \<le> nextRetryMs b \<and>
       (\<forall>b'\<in>set bs. nextRetryMs b' \<le> nextRetryMs b))"
  using assms
proof (induction clock i q arbitrary: bs q' rule: takeDue.induct)
  case (1 clock i q)
  show ?case
  proof (cases "q = []")
    case True
    with 1(3) have "bs = []" "q' = q" by simp_all
    with 1(2) True show ?thesis by simp
  next
    case False
    obtain b r where pop: "heap_Pop nextRetryMs q = (b, r)" by force
    note pf = pop_facts [OF 1(2) False pop]
    show ?thesis
    proof (cases "nextRetryMs b < GetTimeMs (clock i)")
      case True
      obtain cs r' where rec: "takeDue clock (Suc i) r = (cs, r')" by force
      have bs: "bs = b # cs" "q' = r'"
        using 1(3) False pop True rec by (simp_all add: takeDue.simps [of clock i q])
      have IH: "retry_heap r'" "mset r = mset cs + mset r'" "sorted (map nextRetryMs cs)"
        "\<forall>j<length cs. nextRetryMs (cs ! j) < GetTimeMs (clock (Suc i + j))"
        "\<forall>b\<in>set r'. GetTimeMs (clock (Suc i + length cs)) \<le> nextRetryMs b \<and>
           (\<forall>b'\<in>set cs. nextRetryMs b' \<le> nextRetryMs b)"
        using 1(1) [OF False pop [symmetric] refl True pf(2) rec] by blast+
      have b_le: "nextRetryMs b \<le> nextRetryMs c" if "c \<in> set cs \<union> set r'" for c
        using that pf(3) [of c] mset_eq_setD [of r "cs @ r'"] IH(2) by auto
      show ?thesis
        unfolding bs using IH pf(1) b_le True by (auto simp: nth_Cons split: nat.splits)
    next
      case False
      then have bs: "bs = []" "q' = heap_Push nextRetryMs b r"
        using 1(3) \<open>q \<noteq> []\<close> pop by (simp_all add: takeDue.simps [of clock i q])
      have "GetTimeMs (clock i) \<le> nextRetryMs c" if "c \<in> set q'" for c
      proof -
        have "set q' = set (b # r)"
          using pf(1) pf(4) [OF refl] bs(2) by (metis mset.simps(2) mset_eq_setD)
        with that pf(3) [of c] False show ?thesis by auto
      qed
      with bs pf(4) [OF refl] show ?thesis by simp
    qed
  qed
qed

lemma takeAll_correct:
  assumes "retry_heap q" and "takeAll q = (bs, q')"
  shows "q' = [] \<and> mset q = mset bs \<and> sorted (map nextRetryMs bs)"
  using assms
proof (induction q arbitrary: bs q' rule: takeAll.induct)
  case (1 q)
  show ?case
  proof (cases "q = []")
    case True
    with 1(3) have "bs = []" "q' = q" by simp_all
    with True show ?thesis by simp
  next
    case False
    obtain b r where pop: "heap_Pop nextRetryMs q = (b, r)" by force
    note pf = pop_facts [OF 1(2) False pop]
    obtain cs r' where rec: "takeAll r = (cs, r')" by force
    have bs: "bs = b # cs" "q' = r'"
      using 1(3) False pop rec by (simp_all add: takeAll.simps [of q])
    have IH: "r' = []" "mset r = mset cs" "sorted (map nextRetryMs cs)"
      using 1(1) [OF False pop [symmetric] refl pf(2) rec] by blast+
    then have "nextRetryMs b \<le> nextRetryMs c" if "c \<in> set cs" for c
      using that pf(3) [of c] mset_eq_setD by fastforce
    with IH bs pf(1) show ?thesis by simp
  qed
qed

lemma sendToRetryQueue_ok:
  "retry_heap q \<Longrightarrow> retry_heap (sendToRetryQueue (Some b) q) \<and>
   mset (sendToRetryQueue (Some b) q) = add_mset b (mset q)"
  using retry.bag_put retry.invar_put by (simp add: sendToRetryQueue_def)

text \<open>
  C20: the retry queue is a faithful priority queue with a deadline.  Taking batches out loses
  and invents none, keeps the heap order and yields them by next attempt time; in normal
  operation every batch taken was due when it was looked at, every batch left was not, and
  nothing left precedes anything taken; at shutdown everything is taken, due or not.
\<close>

theorem getRetryBatch_correct:
  assumes "retry_heap q" and "getRetryBatch flag clock q = (bs, q')"
  shows "retry_heap q' \<and> mset q = mset bs + mset q' \<and> sorted (map nextRetryMs bs) \<and>
    (if flag then q' = []
     else (\<forall>j<length bs. nextRetryMs (bs ! j) < GetTimeMs (clock j)) \<and>
          (\<forall>b\<in>set q'. GetTimeMs (clock (length bs)) \<le> nextRetryMs b \<and>
             (\<forall>b'\<in>set bs. nextRetryMs b' \<le> nextRetryMs b)))"
proof (cases flag)
  case True
  with takeAll_correct [OF assms(1), of bs q'] assms(2) show ?thesis
    by (simp add: getRetryBatch_def heap_upto_def)
next
  case False
  with takeDue_correct [OF assms(1), of clock 0 bs q'] assms(2) show ?thesis
    by (simp add: getRetryBatch_def)
qed

definition ex_batch :: "int \<Rightarrow> ProducerBatch" where
  "ex_batch ms = \<lparr>totalDataSize = 30, accountedSize = 6,
     logGroup = \<lparr>Group_Logs = [], Group_ContextFlow = None, Group_Filename = None,
       Group_Source = None, Group_LogTags = [], Group_Hostname = None,
       Group_XXX_unrecognized = []\<rparr>,
     attemptCount = 1, baseRetryBackoffMs = 100, nextRetryMs = ms, maxRetryIntervalInMs = 50000,
     callBackList = [], createTimeMs = 0, maxRetryTimes = 10, topicID = ''t'',
     result = NewResult, packageID = '''', maxReservedAttempts = 11\<rparr>"

lemma ex_batch_retry [simp]: "nextRetryMs (ex_batch ms) = ms"
  by (simp add: ex_batch_def)

theorem getRetryBatch_correct_witness:
  "getRetryBatch False (\<lambda>i. 5000000) [ex_batch 3, ex_batch 9] = ([ex_batch 3], [ex_batch 9]) \<and>
   5 \<le> nextRetryMs (ex_batch 9)"
proof -
  have h: "retry_heap [ex_batch 3, ex_batch 9]"
    by (auto simp: heap_upto_def par_def less_Suc_eq)
  have "getRetryBatch False (\<lambda>i. 5000000) [ex_batch 3, ex_batch 9] = ([ex_batch 3], [ex_batch 9])"
    by (simp add: getRetryBatch_def takeDue.simps heap_Pop_def heap_Push_def swap_def down.simps
        up.simps Let_def par_def less_at_def)
  from this getRetryBatch_correct [OF h this] show ?thesis by simp
qed

end
