(* ===== verification/Worker.thy ===== *)
theory Worker
  imports Accumulator Retry_Queue
begin

text \<open>
  \<^verbatim>\<open>woker.go\<close>: one send of a batch and what its outcome does to the batch, the quota,
  the retry queue and the callbacks.  The transport \<open>CLSClient.Send\<close> is an argument: the
  response \<open>resp\<close> it returned (\<open>None\<close> for success).  A callback is recorded in
  \<open>cb_trace\<close> when it runs.
\<close>

datatype cb_event = CbSuccess CallBack Result | CbFail CallBack Result

primrec cb_of :: "cb_event \<Rightarrow> CallBack" where
  "cb_of (CbSuccess cb r) = cb"
| "cb_of (CbFail cb r) = cb"

record worker = accumulator +
  retryQueue :: "ProducerBatch list"
  retryQueueShutDownFlag :: bool
  taskCount :: int
  maxSendWorker :: nat
  cb_trace :: "cb_event list"

definition addErrorMessageToBatchAttempt :: "int \<Rightarrow> CLSError \<Rightarrow> ProducerBatch \<Rightarrow> ProducerBatch" where
  "addErrorMessageToBatchAttempt now err b =
     b\<lparr>result := \<lparr>attemptList =
          (if attemptCount b < maxReservedAttempts b
           then attemptList (result b) @
             [NewAttempt False (RequestID err) (Code err) (Message err) (GetTimeMs now)]
           else attemptList (result b)),
          successful = False\<rparr>,
       attemptCount := attemptCount b + 1\<rparr>"

definition release :: "ProducerBatch \<Rightarrow> 'z worker_scheme \<Rightarrow> 'z worker_scheme" where
  "release b s = s\<lparr>producerLogGroupSize := int64 (producerLogGroupSize s - accountedSize b)\<rparr>"

definition executeFailedCallback :: "ProducerBatch \<Rightarrow> 'z worker_scheme \<Rightarrow> 'z worker_scheme" where
  "executeFailedCallback b s =
     (release b s)\<lparr>cb_trace := cb_trace s @ map (\<lambda>cb. CbFail cb (result b)) (callBackList b)\<rparr>"

text \<open>
  \<open>int64 (math.Pow (2, float64 (attemptCount) - 1))\<close>.  A power of two up to \<open>2 ^ 62\<close> is
  exact in both types; the conversion of a larger one is left to the platform, which is the
  argument \<open>ovf\<close>; \<open>2 ^ (-1)\<close> is cut to 0.
\<close>

definition pow2_int64 :: "int \<Rightarrow> int \<Rightarrow> int" where
  "pow2_int64 ovf k = (if k < 0 then 0 else if k < 63 then 2 ^ nat k else ovf)"

definition retryWaitTime :: "int \<Rightarrow> ProducerBatch \<Rightarrow> int" where
  "retryWaitTime ovf b = int64 (baseRetryBackoffMs b * pow2_int64 ovf (attemptCount b - 1))"

definition scheduleRetry :: "int \<Rightarrow> int \<Rightarrow> ProducerBatch \<Rightarrow> ProducerBatch" where
  "scheduleRetry ovf now b =
     (if retryWaitTime ovf b < maxRetryIntervalInMs b
      then b\<lparr>nextRetryMs := int64 (GetTimeMs now + retryWaitTime ovf b)\<rparr>
      else b\<lparr>nextRetryMs := int64 (GetTimeMs now + maxRetryIntervalInMs b)\<rparr>)"

definition send_success :: "int \<Rightarrow> ProducerBatch \<Rightarrow> 'z worker_scheme \<Rightarrow> 'z worker_scheme" where
  "send_success now b s =
     (let r = \<lparr>attemptList =
                (if attemptCount b < maxReservedAttempts b
                 then attemptList (result b) @ [NewAttempt True '''' '''' '''' (GetTimeMs now)]
                 else attemptList (result b)),
               successful = True\<rparr>
      in (release b s)\<lparr>cb_trace := cb_trace s @ map (\<lambda>cb. CbSuccess cb r) (callBackList b)\<rparr>)"

text \<open>
  The failure branch; \<open>shut\<close> is the value of \<open>retryQueueShutDownFlag\<close> it loads, \<open>t1\<close>
  and \<open>t2\<close> its two clock readings.
\<close>

definition send_failed ::
    "int \<Rightarrow> int \<Rightarrow> int \<Rightarrow> bool \<Rightarrow> CLSError \<Rightarrow> ProducerBatch \<Rightarrow> 'z worker_scheme \<Rightarrow> 'z worker_scheme" where
  "send_failed ovf t1 t2 shut err b s =
     (if shut then executeFailedCallback (addErrorMessageToBatchAttempt t1 err b) s
      else if HTTPCode err = 413 \<or> HTTPCode err = 404 \<or> HTTPCode err = 401
      then executeFailedCallback (addErrorMessageToBatchAttempt t1 err b) s
      else if attemptCount b < maxRetryTimes b
      then s\<lparr>retryQueue := sendToRetryQueue
               (Some (scheduleRetry ovf t2 (addErrorMessageToBatchAttempt t1 err b))) (retryQueue s)\<rparr>
      else executeFailedCallback b s)"

definition worker_sendToServer ::
    "int \<Rightarrow> int \<Rightarrow> int \<Rightarrow> CLSError ptr \<Rightarrow> ProducerBatch \<Rightarrow> 'z worker_scheme \<Rightarrow> 'z worker_scheme" where
  "worker_sendToServer ovf t1 t2 resp b s =
     (case resp of
        None \<Rightarrow> send_success t1 b s
      | Some err \<Rightarrow> send_failed ovf t1 t2 (retryQueueShutDownFlag s) err b s)"

text \<open>
  The task brackets.  \<open>startSendTask\<close> counts the task and then takes a slot of the
  \<open>maxSendWorker\<close> channel, which blocks (\<open>None\<close>) while all \<open>cap\<close> slots are taken.
\<close>

definition startSendTask_count :: "'z worker_scheme \<Rightarrow> 'z worker_scheme" where
  "startSendTask_count s = s\<lparr>taskCount := taskCount s + 1\<rparr>"

definition startSendTask_slot :: "int \<Rightarrow> 'z worker_scheme \<Rightarrow> 'z worker_scheme option" where
  "startSendTask_slot cap s =
     (if int (maxSendWorker s) < cap then Some (s\<lparr>maxSendWorker := maxSendWorker s + 1\<rparr>) else None)"

text \<open>\<open>closeSendTask\<close> gives the slot back (blocking on an empty channel) and then uncounts.\<close>

definition closeSendTask_slot :: "'z worker_scheme \<Rightarrow> 'z worker_scheme option" where
  "closeSendTask_slot s =
     (if 0 < maxSendWorker s then Some (s\<lparr>maxSendWorker := maxSendWorker s - 1\<rparr>) else None)"

definition closeSendTask_count :: "'z worker_scheme \<Rightarrow> 'z worker_scheme" where
  "closeSendTask_count s = s\<lparr>taskCount := taskCount s - 1\<rparr>"

section \<open>What one send does\<close>

definition permanent :: "CLSError \<Rightarrow> bool" where
  "permanent err \<longleftrightarrow> HTTPCode err \<in> {413, 404, 401}"

definition will_retry :: "bool \<Rightarrow> CLSError \<Rightarrow> ProducerBatch \<Rightarrow> bool" where
  "will_retry shut err b \<longleftrightarrow> \<not> shut \<and> \<not> permanent err \<and> attemptCount b < maxRetryTimes b"

abbreviation retried :: "int \<Rightarrow> int \<Rightarrow> int \<Rightarrow> CLSError \<Rightarrow> ProducerBatch \<Rightarrow> ProducerBatch" where
  "retried ovf t1 t2 err b \<equiv> scheduleRetry ovf t2 (addErrorMessageToBatchAttempt t1 err b)"

lemma send_failed_retry:
  "will_retry shut err b \<Longrightarrow> send_failed ovf t1 t2 shut err b s =
     s\<lparr>retryQueue := sendToRetryQueue (Some (retried ovf t1 t2 err b)) (retryQueue s)\<rparr>"
  by (auto simp: send_failed_def will_retry_def permanent_def)

lemma send_failed_final:
  "\<not> will_retry shut err b \<Longrightarrow> send_failed ovf t1 t2 shut err b s = executeFailedCallback
     (if shut \<or> permanent err then addErrorMessageToBatchAttempt t1 err b else b) s"
  by (auto simp: send_failed_def will_retry_def permanent_def)

text \<open>A retried batch differs in its attempt bookkeeping only.\<close>

lemma retried_eq:
  "\<exists>ms. retried ovf t1 t2 err b =
    b\<lparr>attemptCount := attemptCount b + 1, nextRetryMs := ms,
      result := result (addErrorMessageToBatchAttempt t1 err b)\<rparr>"
  by (rule exI [of _ "nextRetryMs (retried ovf t1 t2 err b)"], rule ProducerBatch.equality)
    (simp_all add: scheduleRetry_def addErrorMessageToBatchAttempt_def)

lemma retried_fields [simp]:
  "accountedSize (retried ovf t1 t2 err b) = accountedSize b"
  "callBackList (retried ovf t1 t2 err b) = callBackList b"
  "batch_logs (retried ovf t1 t2 err b) = batch_logs b"
  "topicID (retried ovf t1 t2 err b) = topicID b"
  "attemptCount (retried ovf t1 t2 err b) = attemptCount b + 1"
  "maxRetryTimes (retried ovf t1 t2 err b) = maxRetryTimes b"
  "maxReservedAttempts (retried ovf t1 t2 err b) = maxReservedAttempts b"
  "packageID (retried ovf t1 t2 err b) = packageID b"
  using retried_eq [where ovf = ovf and ?t1.0 = t1 and ?t2.0 = t2 and err = err and b = b] by auto

lemma addError_fields [simp]:
  "accountedSize (addErrorMessageToBatchAttempt t err b) = accountedSize b"
  "callBackList (addErrorMessageToBatchAttempt t err b) = callBackList b"
  "batch_logs (addErrorMessageToBatchAttempt t err b) = batch_logs b"
  "attemptCount (addErrorMessageToBatchAttempt t err b) = attemptCount b + 1"
  by (simp_all add: addErrorMessageToBatchAttempt_def batch_logs_def)

lemma batch_ok_retried:
  assumes "batch_ok b" and "will_retry shut err b"
  shows "batch_ok (retried ovf t1 t2 err b)"
proof -
  let ?a = "NewAttempt False (RequestID err) (Code err) (Message err) (GetTimeMs t1)"
  have "result (retried ovf t1 t2 err b) =
      \<lparr>attemptList = (if attemptCount b < maxReservedAttempts b
         then attemptList (result b) @ [?a] else attemptList (result b)), successful = False\<rparr>"
    by (simp add: scheduleRetry_def addErrorMessageToBatchAttempt_def)
  with assms show ?thesis by (auto simp: batch_ok_def will_retry_def)
qed

text \<open>Every measure of the accumulator survives a retry.\<close>

context batch_measure begin

lemma f_retried: "f (retried ovf t1 t2 err b) = f b"
  using retried_eq [where ovf = ovf and ?t1.0 = t1 and ?t2.0 = t2 and err = err and b = b] f_retry
  by metis

end

end
