(* ===== verification/Admission.thy ===== *)
theory Admission
  imports Accumulator
begin

text \<open>
  The properties of the accumulator: what an admitted and a refused call do to the abstract
  streams and to the quota, how the three blocking modes repeat the attempt, and how large a
  batch can get.
\<close>

text \<open>A concrete log and a concrete accumulator, for the instances of the properties.\<close>

definition ex_log :: "Log ptr" where
  "ex_log = Some \<lparr>Log_Time = Some 1,
     Log_Contents = [Some \<lparr>Content_Key = Some ''k'', Content_Value = Some ''v'',
                           Content_XXX_unrecognized = []\<rparr>],
     Log_CollectTime = None, Log_XXX_unrecognized = []\<rparr>"

lemma ex_log_size [simp]: "data_size (LogItem ex_log) = Inr 6"
  by (simp add: data_size_def ex_log_def GetLogSizeCalculate_def GetContents_def)

lemma NewAccumulator_simps [simp]:
  "acc_wf (NewAccumulator h)" "acc_shutDownFlag (NewAccumulator h) = False"
  "producerLogGroupSize (NewAccumulator h) = 0" "topic_stream (NewAccumulator h) k = []"
  "acc_batches (NewAccumulator h) = {#}" "logTopicData (NewAccumulator h) = []"
  by (simp_all add: NewAccumulator_def acc_wf_def topic_stream_def acc_batches_def)

definition ex_config :: AsyncProducerClientConfig where
  "ex_config = GetDefaultAsyncProducerClientConfig"

lemma ex_config_simps [simp]:
  "valid_config ex_config" "TotalSizeLnBytes ex_config = 104857600" "MaxBlockSec ex_config = 60"
  by (simp_all add: ex_config_def default_config_valid)
    (simp_all add: GetDefaultAsyncProducerClientConfig_def)

section \<open>One attempt\<close>

text \<open>An attempt is refused only for lack of quota in a running producer.\<close>

definition refused :: "AsyncProducerClientConfig \<Rightarrow> int \<Rightarrow> 'z accumulator_scheme \<Rightarrow> bool" where
  "refused cfg n s \<longleftrightarrow>
     \<not> acc_shutDownFlag s \<and> TotalSizeLnBytes cfg < int64 (producerLogGroupSize s + n)"

lemma commitAppend_accepts:
  assumes "data_size d = Inr n"
  shows "\<exists>s'. commitAppend now cfg topic d cb n s = (Inr True, s') \<and>
    producerLogGroupSize s' = int64 (producerLogGroupSize s + n) \<and>
    acc_shutDownFlag s' = acc_shutDownFlag s \<and> tp_shutDownFlag s' = tp_shutDownFlag s"
  using assms
  by (cases rule: commitAppend_cases [where s = s and now = now and cfg = cfg and topic = topic and cb = cb])
    auto

lemma tryReserve_refused:
  "refused cfg n s \<Longrightarrow> tryReserveAndAppend now cfg topic d cb n s = (Inr False, s)"
  by (simp add: refused_def tryReserveAndAppend_def Let_def)

lemma tryReserve_not_refused:
  assumes "data_size d = Inr n" and "\<not> refused cfg n s"
  shows "tryReserveAndAppend now cfg topic d cb n s =
    (if acc_shutDownFlag s then (Inl err_shutdown, s) else commitAppend now cfg topic d cb n s)"
  using assms by (auto simp: refused_def tryReserveAndAppend_def Let_def)

lemma tryReserve_False_iff:
  assumes "data_size d = Inr n"
  shows "fst (tryReserveAndAppend now cfg topic d cb n s) = Inr False \<longleftrightarrow> refused cfg n s"
  using commitAppend_accepts [OF assms, of now cfg topic cb s] tryReserve_refused [of cfg n s]
    tryReserve_not_refused [OF assms, of cfg s]
  by (cases "refused cfg n s") auto

text \<open>
  C7: one attempt refines the abstract append of the per-topic streams: when it is admitted,
  exactly the stream of the call's topic grows, by exactly the call's logs at its end, the
  quota grows by the call's size and stays within the configured total; when it is refused or
  the producer is shut down, nothing changes at all; and which of the three happens is decided
  by the shutdown flag and the quota alone.
\<close>

theorem tryReserveAndAppend_refines:
  assumes "acc_wf s" and "data_size d = Inr n"
    and "tryReserveAndAppend now cfg topic d cb n s = (r, s')"
  shows "acc_wf s' \<and>
    r = (if acc_shutDownFlag s then Inl err_shutdown
         else Inr (int64 (producerLogGroupSize s + n) \<le> TotalSizeLnBytes cfg)) \<and>
    (if r = Inr True
     then topic_stream s' = (topic_stream s)(topic := topic_stream s topic @ data_logs d) \<and>
          producerLogGroupSize s' = int64 (producerLogGroupSize s + n) \<and>
          producerLogGroupSize s' \<le> TotalSizeLnBytes cfg
     else s' = s)"
proof (cases "refused cfg n s")
  case True
  with assms tryReserve_refused [OF True] show ?thesis by (auto simp: refused_def)
next
  case False
  obtain u where u: "commitAppend now cfg topic d cb n s = (Inr True, u)"
    and q: "producerLogGroupSize u = int64 (producerLogGroupSize s + n)"
    using commitAppend_accepts [OF assms(2), of now cfg topic cb s] by blast
  show ?thesis
  proof (cases "acc_shutDownFlag s")
    case True
    with assms tryReserve_not_refused [OF assms(2) False] show ?thesis by auto
  next
    case running: False
    with assms(3) tryReserve_not_refused [OF assms(2) False] u have "r = Inr True" "s' = u" by auto
    with u q running False acc_wf_commitAppend [OF assms(1,2) u]
      topic_stream_commitAppend [OF assms(1,2) u] show ?thesis by (auto simp: refused_def)
  qed
qed

theorem tryReserveAndAppend_refines_witness:
  "topic_stream (snd (tryReserveAndAppend 0 ex_config ''t'' (LogItem ex_log) None 6
     (NewAccumulator ''H''))) ''t'' = [ex_log]"
  using tryReserveAndAppend_refines
    [of "NewAccumulator ''H''" "LogItem ex_log" 6, OF _ _ surjective_pairing,
     of 0 ex_config "''t''" None]
  by (simp add: in_int64_def)

section \<open>The blocking modes\<close>

text \<open>
  \<open>await env i j s\<close>: the state that attempt \<open>i + j\<close> finds when attempts \<open>i\<close> up to
  \<open>i + j - 1\<close> were refused.
\<close>

fun await :: "'s env \<Rightarrow> nat \<Rightarrow> nat \<Rightarrow> 's \<Rightarrow> 's" where
  "await env i 0 s = env i s"
| "await env i (Suc j) s = await env (Suc i) j (env i s)"

text \<open>What the caller gets from the attempt that was not refused.\<close>

definition settle :: "bool outcome \<times> 's \<Rightarrow> unit outcome \<times> 's" where
  "settle rs = (case fst rs of Inl e \<Rightarrow> Inl e | Inr _ \<Rightarrow> Inr (), snd rs)"

lemma find_upt_Suc:
  "find P [0..<Suc N] = (if P 0 then Some 0 else map_option Suc (find (\<lambda>j. P (Suc j)) [0..<N]))"
proof -
  have "find P (map Suc xs) = map_option Suc (find (\<lambda>j. P (Suc j)) xs)" for xs :: "nat list"
    by (induction xs) auto
  then show ?thesis by (simp only: upt_conv_Cons map_Suc_upt [symmetric] zero_less_Suc) simp
qed

lemma block_attempts_spec:
  assumes "data_size d = Inr n"
  shows "block_attempts env clock cfg topic d cb n N i s =
    (case find (\<lambda>j. \<not> refused cfg n (await env i j s)) [0..<N] of
       None \<Rightarrow> (Inl errOverMaxBlock, if N = 0 then s else await env i (N - 1) s)
     | Some j \<Rightarrow> settle (tryReserveAndAppend (clock (i + j)) cfg topic d cb n (await env i j s)))"
proof (induction N arbitrary: i s)
  case 0
  show ?case by simp
next
  case (Suc N)
  show ?case
  proof (cases "refused cfg n (env i s)")
    case True
    with Suc.IH [of "Suc i" "env i s"] show ?thesis
      by (cases N) (auto simp: find_upt_Suc tryReserve_refused simp del: upt_Suc split: option.splits)
  next
    case False
    with tryReserve_False_iff [OF assms, of "clock i" cfg topic cb "env i s"] show ?thesis
      by (auto simp: find_upt_Suc settle_def simp del: upt_Suc split: prod.splits sum.splits)
  qed
qed

text \<open>
  With a positive \<open>MaxBlockSec\<close> a well-formed call in a running producer always returns,
  after at most that many attempts: the first attempt that is not refused decides, exactly
  as a single attempt at that moment would; if every attempt is refused the call ends with
  the blocking-time error and has changed nothing, so the state is what the rest of the
  program made of it.
\<close>

theorem addLog_bounded_blocking:
  assumes "0 < MaxBlockSec cfg" and "data_size d = Inr n" and "\<not> acc_shutDownFlag s"
  shows "addLogToProducerBatch env clock cfg topic d cb s = Some
    (case find (\<lambda>j. \<not> refused cfg n (await env 0 j s)) [0..<nat (MaxBlockSec cfg)] of
       None \<Rightarrow> (Inl errOverMaxBlock, await env 0 (nat (MaxBlockSec cfg) - 1) s)
     | Some j \<Rightarrow> settle (tryReserveAndAppend (clock j) cfg topic d cb n (await env 0 j s)))"
  using assms by (simp add: addLogToProducerBatch_def block_attempts_spec split: option.splits)

text \<open>An instance where the quota is full at the first attempt and has room at the second.\<close>

definition ex_env :: "accumulator env" where
  "ex_env i s = s\<lparr>producerLogGroupSize := (if i = 0 then 104857600 else 0)\<rparr>"

lemma ex_env_refused:
  "refused ex_config 6 (await ex_env 0 0 (NewAccumulator h))"
  "\<not> refused ex_config 6 (await ex_env 0 (Suc 0) (NewAccumulator h))"
  by (simp_all add: refused_def ex_env_def NewAccumulator_def in_int64_def)

theorem addLog_bounded_blocking_witness:
  "addLogToProducerBatch ex_env (\<lambda>i. 0) ex_config ''t'' (LogItem ex_log) None (NewAccumulator ''H'')
   = Some (settle (tryReserveAndAppend 0 ex_config ''t'' (LogItem ex_log) None 6
              (await ex_env 0 1 (NewAccumulator ''H''))))"
proof -
  have "find (\<lambda>j. \<not> refused ex_config 6 (await ex_env 0 j (NewAccumulator ''H''))) [0..<Suc (Suc 58)] = Some 1"
    using ex_env_refused by (simp only: find_upt_Suc) simp
  then show ?thesis
    using addLog_bounded_blocking [of ex_config "LogItem ex_log" 6 "NewAccumulator ''H''" ex_env
        "\<lambda>i. 0" "''t''" None]
    by (simp del: upt_Suc await.simps)
qed

lemma block_forever_ends:
  assumes "data_size d = Inr n"
    and "\<not> refused cfg n (await env i j s)" and "\<And>k. k < j \<Longrightarrow> refused cfg n (await env i k s)"
  shows "block_forever env clock cfg topic d cb n i s =
    Some (settle (tryReserveAndAppend (clock (i + j)) cfg topic d cb n (await env i j s)))"
  using assms(2,3)
proof (induction j arbitrary: i s)
  case 0
  with tryReserve_False_iff [OF assms(1), of "clock i" cfg topic cb "env i s"] show ?case
    by (subst block_forever.simps) (auto simp: settle_def split: prod.splits sum.splits)
next
  case (Suc j)
  have "refused cfg n (env i s)" using Suc.prems(2) [of 0] by simp
  moreover have "refused cfg n (await env (Suc i) k (env i s))" if "k < j" for k
    using Suc.prems(2) [of "Suc k"] that by simp
  ultimately show ?case
    using Suc.IH [of "Suc i" "env i s"] Suc.prems(1)
    by (subst block_forever.simps) (simp add: tryReserve_refused)
qed

lemma block_forever_only_ends:
  assumes "block_forever env clock cfg topic d cb n i s = Some y" and "data_size d = Inr n"
  shows "\<exists>j. \<not> refused cfg n (await env i j s)"
proof (rule block_forever.raw_induct [OF _ assms(1),
      of "\<lambda>env clock cfg topic d cb n i s y. data_size d = Inr n \<longrightarrow> (\<exists>j. \<not> refused cfg n (await env i j s))",
      THEN mp, OF _ assms(2)], intro impI)
  fix rec :: "'a accumulator_scheme env \<Rightarrow> (nat \<Rightarrow> int) \<Rightarrow> AsyncProducerClientConfig \<Rightarrow> string \<Rightarrow> LogData
     \<Rightarrow> CallBack ptr \<Rightarrow> int \<Rightarrow> nat \<Rightarrow> 'a accumulator_scheme
     \<Rightarrow> (unit outcome \<times> 'a accumulator_scheme) option"
  fix env clock cfg topic d cb n i s y
  assume IH: "\<And>env clock cfg topic d cb n i (s :: 'a accumulator_scheme) y. rec env clock cfg topic d cb n i s = Some y \<Longrightarrow>
        data_size d = Inr n \<longrightarrow> (\<exists>j. \<not> refused cfg n (await env i j s))"
    and body: "(case tryReserveAndAppend (clock i) cfg topic d cb n (env i s) of
        (Inl e, s') \<Rightarrow> Some (Inl e, s')
      | (Inr ok, s') \<Rightarrow> if ok then Some (Inr (), s') else rec env clock cfg topic d cb n (Suc i) s')
      = Some y"
    and d: "data_size d = Inr n"
  show "\<exists>j. \<not> refused cfg n (await env i j s)"
  proof (cases "refused cfg n (env i s)")
    case True
    with body have "rec env clock cfg topic d cb n (Suc i) (env i s) = Some y"
      by (simp add: tryReserve_refused)
    with IH d have "\<exists>j. \<not> refused cfg n (await env (Suc i) j (env i s))" by blast
    then obtain j where "\<not> refused cfg n (await env i (Suc j) s)" by auto
    then show ?thesis by blast
  next
    case False
    then have "\<not> refused cfg n (await env i 0 s)" by simp
    then show ?thesis by blast
  qed
qed

text \<open>
  C24: with a negative \<open>MaxBlockSec\<close> a well-formed call returns if and only if, at some
  attempt, the quota has room or the producer has been shut down; and it then returns what
  the first such attempt gives.  It never gives up for lack of room.
\<close>

theorem addLog_unbounded_blocking:
  assumes "MaxBlockSec cfg < 0" and "data_size d = Inr n" and "\<not> acc_shutDownFlag s"
  shows "addLogToProducerBatch env clock cfg topic d cb s =
    (if \<exists>j. \<not> refused cfg n (await env 0 j s)
     then let j = LEAST j. \<not> refused cfg n (await env 0 j s)
          in Some (settle (tryReserveAndAppend (clock j) cfg topic d cb n (await env 0 j s)))
     else None)"
proof (cases "\<exists>j. \<not> refused cfg n (await env 0 j s)")
  case True
  let ?j = "LEAST j. \<not> refused cfg n (await env 0 j s)"
  from True have "\<not> refused cfg n (await env 0 ?j s)" by (rule LeastI_ex)
  moreover have "refused cfg n (await env 0 k s)" if "k < ?j" for k
    using not_less_Least [OF that] by simp
  ultimately have "block_forever env clock cfg topic d cb n 0 s =
      Some (settle (tryReserveAndAppend (clock (0 + ?j)) cfg topic d cb n (await env 0 ?j s)))"
    by (rule block_forever_ends [OF assms(2)])
  with True assms show ?thesis by (simp add: addLogToProducerBatch_def Let_def)
next
  case False
  with block_forever_only_ends [of env clock cfg topic d cb n 0 s] assms(2)
  have "block_forever env clock cfg topic d cb n 0 s = None" by (cases "block_forever env clock cfg topic d cb n 0 s") auto
  with False assms show ?thesis by (simp add: addLogToProducerBatch_def)
qed

theorem addLog_unbounded_blocking_witness:
  "addLogToProducerBatch ex_env (\<lambda>i. 0) (ex_config\<lparr>MaxBlockSec := - 1\<rparr>) ''t'' (LogItem ex_log) None
     (NewAccumulator ''H'') \<noteq> None"
proof -
  have "refused (ex_config\<lparr>MaxBlockSec := - 1\<rparr>) n s = refused ex_config n s" for n and s :: accumulator
    by (simp add: refused_def)
  then have "\<exists>j. \<not> refused (ex_config\<lparr>MaxBlockSec := - 1\<rparr>) 6 (await ex_env 0 j (NewAccumulator ''H''))"
    using ex_env_refused(2) by metis
  then show ?thesis
    using addLog_unbounded_blocking [of "ex_config\<lparr>MaxBlockSec := - 1\<rparr>" "LogItem ex_log" 6
        "NewAccumulator ''H''" ex_env "\<lambda>i. 0" "''t''" None]
    by (simp add: Let_def)
qed

section \<open>How large a batch gets\<close>

text \<open>
  For a log that carries its (required) time, the encoding is at least as long as the charge:
  the batch limits, which the code states on the encoded size, bound the charged size too.
\<close>

definition timed :: "Log ptr \<Rightarrow> bool" where
  "timed l \<longleftrightarrow> (case l of None \<Rightarrow> False | Some m \<Rightarrow> Log_Time m \<noteq> None)"

lemma size_delimited_ge: "l + 2 \<le> size_delimited l"
  using sovCls_bounds [of "of_nat l"] by (simp add: size_delimited_def)

lemma content_sizes_le:
  "content_sizes cs sz = Inr n \<Longrightarrow> n \<le> sz + int (\<Sum>e\<leftarrow>cs. size_delimited (Log_Content_Size e))"
proof (induction cs sz arbitrary: n rule: content_sizes.induct)
  case (3 c cs sz)
  then obtain v k where v: "Content_Value c = Some v" and k: "Content_Key c = Some k"
    and rest: "content_sizes cs (sz + int (length v) + int (length k)) = Inr n"
    and small: "\<not> 10 * 1024 * 1024 < length v"
    by (auto split: option.splits if_splits)
  have "length v + length k \<le> Log_Content_Size (Some c)"
    using size_delimited_ge [of "length v"] size_delimited_ge [of "length k"]
    by (simp add: Log_Content_Size_def v k size_string_field_def)
  then have "length v + length k \<le> size_delimited (Log_Content_Size (Some c))"
    using size_delimited_ge [of "Log_Content_Size (Some c)"] by linarith
  with "3.IH" [OF v small k rest] show ?case by simp
qed simp_all

lemma Log_Size_ge:
  assumes "GetLogSizeCalculate l = Inr n" and "timed l"
  shows "n \<le> int (size_delimited (Log_Size l))"
proof -
  obtain m t where m: "l = Some m" and t: "Log_Time m = Some t"
    using assms(2) by (auto simp: timed_def split: option.splits)
  have "2 + (\<Sum>e\<leftarrow>Log_Contents m. size_delimited (Log_Content_Size e)) \<le> Log_Size l"
    using sovCls_bounds [of t] by (simp add: m t Log_Size_def size_varint_field_def)
  moreover have "n \<le> 4 + int (\<Sum>e\<leftarrow>Log_Contents m. size_delimited (Log_Content_Size e))"
    using assms(1) content_sizes_le by (simp add: GetLogSizeCalculate_def GetContents_def m)
  ultimately show ?thesis using size_delimited_ge [of "Log_Size l"] by linarith
qed

lemma GetLogListSize_le:
  "GetLogListSize ls = Inr n \<Longrightarrow> \<forall>l\<in>set ls. timed l \<Longrightarrow>
   n \<le> int (\<Sum>l\<leftarrow>ls. size_delimited (Log_Size l))"
  by (induction ls arbitrary: n)
    (fastforce simp: GetLogListSize_Cons dest: Log_Size_ge split: sum.splits)+

lemma fresh_total_ge:
  assumes "data_size d = Inr n" and "\<forall>l\<in>set (data_logs d). timed l"
    and "NewProducerBatch now topic cfg cb d pid = Inr b"
  shows "n \<le> totalDataSize b"
proof -
  have n: "GetLogListSize (data_logs d) = Inr n" using data_size_logs [OF assms(1)] by blast
  then obtain b' where "NewProducerBatch now topic cfg cb d pid = Inr b'"
    and "batch_logs b' = data_logs d" and "totalDataSize b' = int (LogGroup_Size (Some (logGroup b')))"
    by (rule NewProducerBatch_ok)
  with assms(3) GetLogListSize_le [OF n assms(2)] show ?thesis
    by (simp add: LogGroup_Size_def batch_logs_def GetLogs_def)
qed

definition batch_bounded :: "AsyncProducerClientConfig \<Rightarrow> int \<Rightarrow> int \<Rightarrow> ProducerBatch \<Rightarrow> bool" where
  "batch_bounded cfg L S b \<longleftrightarrow>
     getLogGroupCount b < MaxBatchCount cfg + L \<and> accountedSize b \<le> max 5242880 S \<and>
     accountedSize b \<le> totalDataSize b \<and> 0 \<le> accountedSize b"

lemma batch_bounded_total:
  "batch_bounded cfg L S b \<Longrightarrow> totalDataSize b \<le> t \<Longrightarrow> batch_bounded cfg L S (b\<lparr>totalDataSize := t\<rparr>)"
  by (simp add: batch_bounded_def getLogGroupCount_def)

lemma batch_bounded_append:
  assumes "batch_bounded cfg L S b" and "getLogGroupCount b + 1 \<le> MaxBatchCount cfg"
    and "int (length (data_logs d)) \<le> L" and "totalDataSize b + n \<le> 5242880" and "0 \<le> n"
  shows "batch_bounded cfg L S (appendToBatch d cb n (b\<lparr>totalDataSize := totalDataSize b + n\<rparr>))"
proof -
  have "in_int64 (accountedSize b + n)"
    using assms by (intro in_int64I) (auto simp: batch_bounded_def)
  moreover have "accountedSize b + n \<le> 5242880" using assms by (auto simp: batch_bounded_def)
  ultimately show ?thesis using assms by (auto simp: batch_bounded_def getLogGroupCount_def)
qed

lemma batch_bounded_fresh:
  assumes "data_size d = Inr n" and "\<forall>l\<in>set (data_logs d). timed l"
    and "NewProducerBatch now topic cfg cb d pid = Inr b" and "valid_config cfg"
    and "int (length (data_logs d)) \<le> L" and "n \<le> S"
  shows "batch_bounded cfg L S b"
  using assms fresh_total_ge [OF assms(1-3)] data_size_nonneg [OF assms(1)]
    fresh_fields(1,2) [OF assms(1,3)]
  by (auto simp: batch_bounded_def getLogGroupCount_def valid_config_def)

text \<open>The bounds over one commit.\<close>

lemma commitAppend_batch_bounds:
  assumes "valid_config cfg" and "data_size d = Inr n"
    and "int (length (data_logs d)) \<le> L" and "n \<le> S" and "\<forall>l\<in>set (data_logs d). timed l"
    and "\<forall>b. gm_get (logTopicData s) topic = Some b \<longrightarrow> in_int64 (totalDataSize b + n)"
    and "\<forall>b\<in>#acc_batches s. batch_bounded cfg L S b"
    and commit: "commitAppend now cfg topic d cb n s = (r, s')"
  shows "\<forall>b\<in>#acc_batches s'. batch_bounded cfg L S b"
proof -
  have rest: "batch_bounded cfg L S b"
    if "b \<in># gm_values (gm_delete topic (logTopicData s)) + mset (tp_queue s)" for b
    using that assms(7) by (auto simp: acc_batches_def gm_values_def gm_delete_def)
  have old: "batch_bounded cfg L S b" "int64 (totalDataSize b + n) = totalDataSize b + n"
    if "gm_get (logTopicData s) topic = Some b" for b
    using that assms(6,7) open_in_acc_batches by auto
  have n: "0 \<le> n" by (rule data_size_nonneg [OF assms(2)])
  note new = batch_bounded_fresh [OF assms(2,5) _ assms(1,3,4)]
  note append = batch_bounded_append [OF old(1) _ assms(3) _ n]
  show ?thesis
    using assms(2)
  proof (cases rule: commitAppend_cases [where s = s and now = now and cfg = cfg and topic = topic and cb = cb])
    case (fresh b)
    with commit new [OF fresh(2)] rest show ?thesis by (auto simp: acc_batches_def)
  next
    case (send b t)
    with commit rest old(2) [OF send(1)] append [OF send(1) send(5)] show ?thesis by (auto simp: acc_batches_def)
  next
    case (keep b t)
    then have "totalDataSize b + n \<le> 5242880"
      using old(2) [OF keep(1)] assms(1) by (simp add: valid_config_def)
    with keep commit rest old(2) [OF keep(1)] append [OF keep(1,4)] show ?thesis by (auto simp: acc_batches_def)
  next
    case (replace b t b')
    have "gm_delete topic (gm_delete topic (logTopicData s)) = gm_delete topic (logTopicData s)"
      by (simp add: gm_delete_absent)
    with replace commit rest old [OF replace(1)] new [OF replace(3)]
      batch_bounded_total [OF old(1) [OF replace(1)], of t] n
    show ?thesis by (auto simp: acc_batches_def)
  qed
qed

text \<open>
  C25: batches stay within the service's limits.  If every call brings at most \<open>L\<close> logs (each
  with its time) of at most \<open>S\<close> charged bytes in all, then every batch the accumulator and
  the send queue hold has fewer than \<open>MaxBatchCount + L\<close> logs and at most 5 MiB, or \<open>S\<close> if
  a single call is larger than that, and an admitted call keeps it so.  With \<open>SendLog\<close>
  (\<open>L = 1\<close>) the count limit is therefore exact.  (The open batch's encoded size must not
  overflow an \<open>int64\<close>.)
\<close>

theorem tryReserveAndAppend_batch_bounds:
  assumes "acc_wf s" and "valid_config cfg" and "data_size d = Inr n"
    and "int (length (data_logs d)) \<le> L" and "n \<le> S" and "\<forall>l\<in>set (data_logs d). timed l"
    and "\<forall>b. gm_get (logTopicData s) topic = Some b \<longrightarrow> in_int64 (totalDataSize b + n)"
    and "\<forall>b\<in>#acc_batches s. batch_bounded cfg L S b"
    and "tryReserveAndAppend now cfg topic d cb n s = (r, s')"
  shows "\<forall>b\<in>#acc_batches s'. batch_bounded cfg L S b"
proof (cases "refused cfg n s \<or> acc_shutDownFlag s")
  case True
  then have "s' = s"
    using assms(9) tryReserve_refused [of cfg n s] tryReserve_not_refused [OF assms(3), of cfg s]
    by (cases "refused cfg n s") auto
  with assms(8) show ?thesis by simp
next
  case False
  then have commit: "commitAppend now cfg topic d cb n s = (r, s')"
    using assms(9) tryReserve_not_refused [OF assms(3), of cfg s] by simp
  from commitAppend_batch_bounds [OF assms(2-8) this] show ?thesis .
qed

theorem tryReserveAndAppend_batch_bounds_witness:
  "filter_mset (\<lambda>b. \<not> batch_bounded ex_config 1 6 b)
     (acc_batches (snd (tryReserveAndAppend 0 ex_config ''t'' (LogItem ex_log) None 6
       (NewAccumulator ''H'')))) = {#}"
proof -
  have "\<forall>b\<in>#acc_batches (snd (tryReserveAndAppend 0 ex_config ''t'' (LogItem ex_log) None 6
      (NewAccumulator ''H''))). batch_bounded ex_config 1 6 b"
    by (rule tryReserveAndAppend_batch_bounds
        [of "NewAccumulator ''H''" ex_config "LogItem ex_log" 6, OF _ _ _ _ _ _ _ _ surjective_pairing])
      (simp_all add: timed_def, simp add: ex_log_def)
  then show ?thesis by (auto simp: multiset_eq_iff not_in_iff)
qed

end
