(* ===== verification/Delivery.thy ===== *)
theory Delivery
  imports Worker Admission
begin

text \<open>
  The properties of the worker: what one send does in each of its branches, the backoff it
  schedules, and the life of a batch over its retries.
\<close>

section \<open>One send\<close>

definition resolves :: "bool \<Rightarrow> CLSError ptr \<Rightarrow> ProducerBatch \<Rightarrow> bool" where
  "resolves shut resp b \<longleftrightarrow> (case resp of None \<Rightarrow> True | Some err \<Rightarrow> \<not> will_retry shut err b)"

text \<open>The attempts reported to the callbacks of a resolved batch.\<close>

definition final_attempts :: "int \<Rightarrow> bool \<Rightarrow> CLSError ptr \<Rightarrow> ProducerBatch \<Rightarrow> Attempt list" where
  "final_attempts t shut resp b = attemptList (result b) @
     (if attemptCount b < maxReservedAttempts b then
        (case resp of
           None \<Rightarrow> [NewAttempt True '''' '''' '''' (GetTimeMs t)]
         | Some err \<Rightarrow>
             if shut \<or> permanent err
             then [NewAttempt False (RequestID err) (Code err) (Message err) (GetTimeMs t)]
             else [])
      else [])"

lemma send_resolved:
  assumes "batch_ok b" and "resolves (retryQueueShutDownFlag s) resp b"
    and "s' = worker_sendToServer ovf t1 t2 resp b s"
  shows "retryQueue s' = retryQueue s \<and>
    producerLogGroupSize s' = int64 (producerLogGroupSize s - accountedSize b) \<and>
    cb_trace s' = cb_trace s @
      map (\<lambda>cb. (if resp = None then CbSuccess else CbFail) cb
           \<lparr>attemptList = final_attempts t1 (retryQueueShutDownFlag s) resp b,
            successful = (resp = None)\<rparr>) (callBackList b)"
proof (cases resp)
  case None
  with assms show ?thesis
    by (simp add: worker_sendToServer_def send_success_def release_def final_attempts_def Let_def)
next
  case (Some err)
  let ?shut = "retryQueueShutDownFlag s"
  have final: "\<not> will_retry ?shut err b" using assms(2) Some by (simp add: resolves_def)
  then have "s' = executeFailedCallback
      (if ?shut \<or> permanent err then addErrorMessageToBatchAttempt t1 err b else b) s"
    by (simp add: assms(3) Some worker_sendToServer_def send_failed_final)
  moreover have "result b = \<lparr>attemptList = attemptList (result b), successful = False\<rparr>"
    using assms(1) by (simp add: batch_ok_def)
  ultimately show ?thesis
    using final Some
    by (auto simp: executeFailedCallback_def release_def final_attempts_def
        addErrorMessageToBatchAttempt_def)
qed

text \<open>
  C18: a send either resolves its batch or schedules exactly one retry, and which one depends
  only on the response, the shutdown flag and the attempts used: success, shutdown, 401, 404,
  413 and the last retry resolve, everything else retries.  A resolved batch gives its charged
  bytes back, runs every one of its callbacks exactly once with the same outcome, and leaves
  the retry queue alone; a retried one keeps its logs, callbacks and charge, counts one more
  attempt, and has run no callback.  A failure that exhausts the retries reports the earlier
  attempts only, not itself.
\<close>

theorem worker_sendToServer_outcome:
  assumes "retry_heap (retryQueue s)" and "batch_ok b"
    and "s' = worker_sendToServer ovf t1 t2 resp b s"
  shows "retry_heap (retryQueue s') \<and>
    (if resolves (retryQueueShutDownFlag s) resp b
     then retryQueue s' = retryQueue s \<and>
       producerLogGroupSize s' = int64 (producerLogGroupSize s - accountedSize b) \<and>
       cb_trace s' = cb_trace s @
         map (\<lambda>cb. (if resp = None then CbSuccess else CbFail) cb
              \<lparr>attemptList = final_attempts t1 (retryQueueShutDownFlag s) resp b,
               successful = (resp = None)\<rparr>) (callBackList b)
     else producerLogGroupSize s' = producerLogGroupSize s \<and> cb_trace s' = cb_trace s \<and>
       (\<exists>b'. mset (retryQueue s') = add_mset b' (mset (retryQueue s)) \<and> batch_ok b' \<and>
          attemptCount b' = attemptCount b + 1 \<and> batch_logs b' = batch_logs b \<and>
          callBackList b' = callBackList b \<and> accountedSize b' = accountedSize b \<and>
          topicID b' = topicID b))"
proof (cases "resolves (retryQueueShutDownFlag s) resp b")
  case True
  with send_resolved [OF assms(2) True assms(3)] assms(1) show ?thesis by simp
next
  case False
  then obtain err where err: "resp = Some err" "will_retry (retryQueueShutDownFlag s) err b"
    by (auto simp: resolves_def split: option.splits)
  have "s' = s\<lparr>retryQueue := sendToRetryQueue (Some (retried ovf t1 t2 err b)) (retryQueue s)\<rparr>"
    by (simp add: assms(3) err(1) worker_sendToServer_def send_failed_retry [OF err(2)])
  moreover have "batch_ok (retried ovf t1 t2 err b)" by (rule batch_ok_retried [OF assms(2) err(2)])
  ultimately show ?thesis
    using sendToRetryQueue_ok [OF assms(1), of "retried ovf t1 t2 err b"] False
    by (auto intro!: exI [of _ "retried ovf t1 t2 err b"])
qed

definition ex_err :: "int \<Rightarrow> CLSError" where
  "ex_err code = \<lparr>HTTPCode = code, Code = ''SpeedQuotaExceed'', Message = ''slow down'',
     RequestID = ''r-1''\<rparr>"

definition ex_worker :: worker where
  "ex_worker = \<lparr>tp_queue = [], tp_shutDownFlag = False, logTopicData = [],
     acc_shutDownFlag = False, batchID = 0, producerHash = ''H'', producerLogGroupSize = 6,
     retryQueue = [], retryQueueShutDownFlag = False, taskCount = 1, maxSendWorker = 1,
     cb_trace = []\<rparr>"

definition ex_first_batch :: ProducerBatch where
  "ex_first_batch = (ex_batch 0)\<lparr>attemptCount := 0, callBackList := [7],
     logGroup := (logGroup (ex_batch 0))\<lparr>Group_Logs := [ex_log]\<rparr>\<rparr>"

lemma ex_first_batch_ok: "batch_ok ex_first_batch"
  by (simp add: ex_first_batch_def ex_batch_def batch_ok_def batch_logs_def GetLogs_def
      NewResult_def GetLogListSize_single ex_log_def GetLogSizeCalculate_def GetContents_def)

theorem worker_sendToServer_outcome_witness:
  "size (retryQueue (worker_sendToServer 0 0 0 (Some (ex_err 429)) ex_first_batch ex_worker)) = 1 \<and>
   cb_trace (worker_sendToServer 0 0 0 (Some (ex_err 413)) ex_first_batch ex_worker) =
     [CbFail 7 \<lparr>attemptList = [NewAttempt False ''r-1'' ''SpeedQuotaExceed'' ''slow down'' 0],
                successful = False\<rparr>]"
proof -
  have h: "retry_heap (retryQueue ex_worker)" by (simp add: ex_worker_def heap_upto_def)
  have a: "attemptCount ex_first_batch = 0" "maxRetryTimes ex_first_batch = 10"
    "maxReservedAttempts ex_first_batch = 11" "callBackList ex_first_batch = [7]"
    "result ex_first_batch = NewResult"
    by (simp_all add: ex_first_batch_def ex_batch_def)
  from worker_sendToServer_outcome [OF h ex_first_batch_ok refl, of 0 0 0 "Some (ex_err 429)"] a
  have "size (mset (retryQueue (worker_sendToServer 0 0 0 (Some (ex_err 429)) ex_first_batch ex_worker))) = 1"
    by (auto simp: resolves_def will_retry_def permanent_def ex_err_def ex_worker_def)
  moreover from worker_sendToServer_outcome [OF h ex_first_batch_ok refl, of 0 0 0 "Some (ex_err 413)"] a
  have "cb_trace (worker_sendToServer 0 0 0 (Some (ex_err 413)) ex_first_batch ex_worker) =
     [CbFail 7 \<lparr>attemptList = [NewAttempt False ''r-1'' ''SpeedQuotaExceed'' ''slow down'' 0],
                successful = False\<rparr>]"
    by (simp add: resolves_def will_retry_def permanent_def ex_err_def ex_worker_def
        final_attempts_def NewResult_def)
  ultimately show ?thesis by simp
qed

section \<open>Backoff\<close>

text \<open>
  Exponential backoff, capped: as long as the doubled delay fits an \<open>int64\<close>, the batch's
  next attempt is due exactly \<open>min (base * 2 ^ attempts) max\<close> milliseconds after the failure.
\<close>

theorem retry_backoff:
  assumes "will_retry shut err b" and "batch_ok b" and "0 < baseRetryBackoffMs b"
    and "baseRetryBackoffMs b * 2 ^ nat (attemptCount b) \<le> 9223372036854775807"
    and "0 < maxRetryIntervalInMs b" and "0 \<le> t2"
    and "GetTimeMs t2 + maxRetryIntervalInMs b \<le> 9223372036854775807"
    and "s' = send_failed ovf t1 t2 shut err b s"
  shows "\<exists>b'. retryQueue s' = sendToRetryQueue (Some b') (retryQueue s) \<and>
    nextRetryMs b' = GetTimeMs t2 +
      min (baseRetryBackoffMs b * 2 ^ nat (attemptCount b)) (maxRetryIntervalInMs b)"
proof -
  let ?b = "addErrorMessageToBatchAttempt t1 err b"
  let ?w = "baseRetryBackoffMs b * 2 ^ nat (attemptCount b)"
  have f: "baseRetryBackoffMs ?b = baseRetryBackoffMs b" "maxRetryIntervalInMs ?b = maxRetryIntervalInMs b"
    by (simp_all add: addErrorMessageToBatchAttempt_def)
  have a: "0 \<le> attemptCount b" using assms(2) by (rule batch_okD)
  have "(2::int) ^ nat (attemptCount b) \<le> ?w" using assms(3) by simp
  also note assms(4)
  finally have "(2::int) ^ nat (attemptCount b) < 2 ^ 63" by simp
  then have "nat (attemptCount b) < 63" by (rule power_less_imp_less_exp [rotated]) simp
  then have "attemptCount b < 63" by simp
  with a have "pow2_int64 ovf (attemptCount ?b - 1) = 2 ^ nat (attemptCount b)"
    by (simp add: pow2_int64_def)
  moreover have "0 < ?w" using assms(3) by simp
  ultimately have w: "retryWaitTime ovf ?b = ?w"
    using assms(4) by (simp add: retryWaitTime_def f in_int64_def)
  have "0 \<le> GetTimeMs t2" using assms(6) by simp
  then have "int64 (GetTimeMs t2 + min ?w (maxRetryIntervalInMs b)) =
      GetTimeMs t2 + min ?w (maxRetryIntervalInMs b)"
    using assms(5,7) \<open>0 < ?w\<close> by (intro int64_id in_int64I) auto
  then have "nextRetryMs (scheduleRetry ovf t2 ?b) = GetTimeMs t2 + min ?w (maxRetryIntervalInMs b)"
    by (cases "?w < maxRetryIntervalInMs b") (simp_all add: scheduleRetry_def w f)
  then show ?thesis
    using assms(8) by (auto simp: send_failed_retry [OF assms(1)] intro!: exI [of _ "scheduleRetry ovf t2 ?b"])
qed

theorem retry_backoff_witness:
  "\<exists>b'. retryQueue (send_failed 0 0 5000000 False (ex_err 429) ex_first_batch ex_worker) =
     sendToRetryQueue (Some b') (retryQueue ex_worker) \<and> nextRetryMs b' = 105"
  using retry_backoff [of False "ex_err 429" ex_first_batch 5000000 _ 0 0 ex_worker, OF _ ex_first_batch_ok _ _ _ _ _ refl]
  by (auto simp: will_retry_def permanent_def ex_err_def ex_first_batch_def ex_batch_def)

text \<open>
  Past that range the doubling overflows: with the default base of 100 ms the 58th
  failure computes a negative delay, so the batch is due before the moment it failed, instead
  of waiting the configured maximum.
\<close>

theorem retry_backoff_overflow:
  assumes "baseRetryBackoffMs b = 100" and "attemptCount b = 57" and "will_retry shut err b"
    and "0 < maxRetryIntervalInMs b" and "0 \<le> t2" and "GetTimeMs t2 < 1000000000000000000"
  shows "\<exists>b'. retryQueue (send_failed ovf t1 t2 shut err b s) = sendToRetryQueue (Some b') (retryQueue s) \<and>
    nextRetryMs b' < GetTimeMs t2"
proof -
  let ?b = "addErrorMessageToBatchAttempt t1 err b"
  have f: "baseRetryBackoffMs ?b = 100" "maxRetryIntervalInMs ?b = maxRetryIntervalInMs b"
    using assms(1) by (simp_all add: addErrorMessageToBatchAttempt_def)
  have w: "retryWaitTime ovf ?b = - 4035225266123964416"
    using assms(2) by (simp add: retryWaitTime_def f pow2_int64_def int64_def)
  have "in_int64 (GetTimeMs t2 - 4035225266123964416)"
    using assms(5,6) by (intro in_int64I) auto
  then have "nextRetryMs (scheduleRetry ovf t2 ?b) < GetTimeMs t2"
    using assms(4) by (simp add: scheduleRetry_def w f del: GetTimeMs_nonneg)
  then show ?thesis
    by (auto simp: send_failed_retry [OF assms(3)] intro!: exI [of _ "scheduleRetry ovf t2 ?b"])
qed

theorem retry_backoff_overflow_witness:
  "\<exists>b'. retryQueue (send_failed 0 0 0 False (ex_err 429)
       (ex_first_batch\<lparr>attemptCount := 57, maxRetryTimes := 100\<rparr>) ex_worker) =
     sendToRetryQueue (Some b') (retryQueue ex_worker) \<and> nextRetryMs b' < 0"
  using retry_backoff_overflow [of "ex_first_batch\<lparr>attemptCount := 57, maxRetryTimes := 100\<rparr>"
      False "ex_err 429" 0 0 0 ex_worker]
  by (simp add: will_retry_def permanent_def ex_err_def ex_first_batch_def ex_batch_def)

section \<open>The life of a batch\<close>

text \<open>
  One batch through the cycle of its sends: the worker sends it, and a retry (the timer takes
  it from the retry queue, the pool hands it to the worker) sends what the queue holds.
  \<open>resps i\<close> is the response to send \<open>i\<close>; the answer is the number of sends made.
\<close>

lemma retryQueue_send:
  "retryQueue (worker_sendToServer ovf t1 t2 resp b (s\<lparr>retryQueue := []\<rparr>)) =
     (case resp of None \<Rightarrow> []
      | Some err \<Rightarrow> if will_retry (retryQueueShutDownFlag s) err b
                    then [retried ovf t1 t2 err b] else [])"
  by (auto simp: worker_sendToServer_def send_success_def release_def send_failed_retry
      send_failed_final executeFailedCallback_def sendToRetryQueue_def heap_Push_def up.simps Let_def
      split: option.splits)

function deliver ::
    "int \<Rightarrow> (nat \<Rightarrow> int) \<Rightarrow> (nat \<Rightarrow> CLSError ptr) \<Rightarrow> nat \<Rightarrow> ProducerBatch \<Rightarrow> worker \<Rightarrow> nat \<times> worker" where
  "deliver ovf clock resps i b s =
     (let s' = worker_sendToServer ovf (clock (2 * i)) (clock (2 * i + 1)) (resps i) b
                 (s\<lparr>retryQueue := []\<rparr>)
      in case retryQueue s' of
           [] \<Rightarrow> (Suc i, s')
         | b' # rest \<Rightarrow> deliver ovf clock resps (Suc i) b' s')"
  by auto

termination deliver
  by (relation "measure (\<lambda>(ovf, clock, resps, i, b, s). nat (maxRetryTimes b - attemptCount b))")
    (auto simp: retryQueue_send will_retry_def split: option.splits if_splits)

declare deliver.simps [simp del]

lemma deliver_retry:
  assumes "resps i = Some err" and "will_retry (retryQueueShutDownFlag s) err b"
  shows "deliver ovf clock resps i b s =
    deliver ovf clock resps (Suc i) (retried ovf (clock (2 * i)) (clock (2 * i + 1)) err b)
      (s\<lparr>retryQueue := [retried ovf (clock (2 * i)) (clock (2 * i + 1)) err b]\<rparr>)"
  using assms by (subst deliver.simps)
    (simp add: worker_sendToServer_def send_failed_retry sendToRetryQueue_def heap_Push_def up.simps Let_def)

lemma deliver_success:
  "resps i = None \<Longrightarrow> fst (deliver ovf clock resps i b s) = Suc i"
  by (subst deliver.simps) (simp add: Let_def retryQueue_send)

lemma deliver_spec:
  assumes "batch_ok b" and "deliver ovf clock resps i b s = (n, s')"
  shows "i < n \<and> int n \<le> int i + max 0 (maxRetryTimes b - attemptCount b) + 1 \<and>
    retryQueue s' = [] \<and>
    producerLogGroupSize s' = int64 (producerLogGroupSize s - accountedSize b) \<and>
    (\<exists>r. cb_trace s' = cb_trace s @
       map (\<lambda>cb. (if resps (n - 1) = None then CbSuccess else CbFail) cb r) (callBackList b)) \<and>
    (\<forall>j. i \<le> j \<longrightarrow> j < n - 1 \<longrightarrow> (\<exists>err. resps j = Some err \<and> \<not> permanent err))"
  using assms
proof (induction ovf clock resps i b s rule: deliver.induct)
  case (1 ovf clock resps i b s)
  let ?u = "worker_sendToServer ovf (clock (2 * i)) (clock (2 * i + 1)) (resps i) b (s\<lparr>retryQueue := []\<rparr>)"
  show ?case
  proof (cases "resolves (retryQueueShutDownFlag s) (resps i) b")
    case True
    then have "retryQueue ?u = []"
      by (auto simp: resolves_def retryQueue_send split: option.splits)
    then have "n = Suc i" "s' = ?u" using 1(3) by (simp_all add: deliver.simps [of ovf clock resps i])
    with True send_resolved [OF 1(2), of "s\<lparr>retryQueue := []\<rparr>" "resps i", OF _ refl] show ?thesis
      by (auto simp: max_def)
  next
    case False
    then obtain err where err: "resps i = Some err" "will_retry (retryQueueShutDownFlag s) err b"
      by (auto simp: resolves_def split: option.splits)
    let ?b = "retried ovf (clock (2 * i)) (clock (2 * i + 1)) err b"
    have q: "retryQueue ?u = [?b]" using err by (simp add: retryQueue_send)
    then have rec: "deliver ovf clock resps (Suc i) ?b ?u = (n, s')"
      using 1(3) by (simp add: deliver.simps [of ovf clock resps i])
    have "producerLogGroupSize ?u = producerLogGroupSize s" "cb_trace ?u = cb_trace s"
      using err by (simp_all add: worker_sendToServer_def send_failed_retry)
    moreover have "attemptCount b < maxRetryTimes b" "\<not> permanent err"
      using err(2) by (simp_all add: will_retry_def)
    ultimately show ?thesis
      using 1(1) [OF refl q batch_ok_retried [OF 1(2) err(2)] rec] err(1)
      by (auto simp: not_less_eq_eq le_Suc_eq Suc_le_eq) (metis Suc_leI le_neq_implies_less)
  qed
qed

text \<open>
  C19: every batch is resolved, and soon: whatever the service answers, after at most
  \<open>maxRetryTimes + 1\<close> sends its charge is given back once and every callback has run exactly
  once, with success exactly when the last send succeeded; all earlier sends failed with an
  error that is worth retrying.
\<close>

theorem deliver_resolves:
  assumes "batch_ok b" and "attemptCount b = 0" and "deliver ovf clock resps 0 b s = (n, s')"
  shows "1 \<le> n \<and> int n \<le> max 0 (maxRetryTimes b) + 1 \<and> retryQueue s' = [] \<and>
    producerLogGroupSize s' = int64 (producerLogGroupSize s - accountedSize b) \<and>
    (\<exists>r. cb_trace s' = cb_trace s @
       map (\<lambda>cb. (if resps (n - 1) = None then CbSuccess else CbFail) cb r) (callBackList b)) \<and>
    (\<forall>j<n - 1. \<exists>err. resps j = Some err \<and> \<not> permanent err)"
  using deliver_spec [OF assms(1,3)] assms(2) by auto

theorem deliver_resolves_witness:
  "\<exists>r. cb_trace (snd (deliver 0 (\<lambda>i. 0) (\<lambda>i. if i < 2 then Some (ex_err 429) else None) 0
       ex_first_batch ex_worker)) = [CbSuccess 7 r]"
proof -
  let ?resps = "\<lambda>i. if i < 2 then Some (ex_err 429) else None"
  have a: "attemptCount ex_first_batch = 0" "maxRetryTimes ex_first_batch = 10"
    "callBackList ex_first_batch = [7]" "retryQueueShutDownFlag ex_worker = False"
    "cb_trace ex_worker = []"
    by (simp_all add: ex_first_batch_def ex_batch_def ex_worker_def)
  obtain n s' where d: "deliver 0 (\<lambda>i. 0) ?resps 0 ex_first_batch ex_worker = (n, s')" by force
  have "n = 3"
    using d deliver_success [of ?resps 2] a
    by (simp add: deliver_retry will_retry_def permanent_def ex_err_def numeral_eq_Suc)
      (metis fst_conv)
  with deliver_resolves [OF ex_first_batch_ok a(1) d] d a show ?thesis by simp
qed

end
