(* ===== verification/Timer_Task.thy ===== *)
theory Timer_Task
  imports Delivery
begin

text \<open>
  \<^verbatim>\<open>timer_send_log_task.go\<close>: the timer goroutine.  Each round moves the open batches
  that have lingered long enough, and the retries that are due, into the send queue; after
  the shutdown signal one last pass moves everything.  The pieces are the sections the
  goroutine runs under one lock; \<open>Async_Producer\<close> interleaves them with the rest.
\<close>

record timer_task = worker +
  timer_shutDownFlag :: bool

definition timer_sendToServer ::
    "int \<Rightarrow> AsyncProducerClientConfig \<Rightarrow> string \<Rightarrow> ProducerBatch
     \<Rightarrow> 'z accumulator_scheme \<Rightarrow> 'z accumulator_scheme" where
  "timer_sendToServer now cfg key batch s =
     (case gm_get (logTopicData s) key of
        None \<Rightarrow> s
      | Some val \<Rightarrow>
          if int64 (GetTimeMs now - createTimeMs val) < LingerMs cfg then s
          else (addTask batch s)\<lparr>logTopicData := gm_delete key (logTopicData (addTask batch s))\<rparr>)"

text \<open>
  The loop over the map: \<open>es\<close> is what is still to be visited (deleting the visited key is
  all the body does to the map), \<open>clock i\<close> the reading of the \<open>i\<close>-th visit.
\<close>

fun timer_scan ::
    "(nat \<Rightarrow> int) \<Rightarrow> AsyncProducerClientConfig \<Rightarrow> int \<Rightarrow> nat \<Rightarrow> (string, ProducerBatch) gomap \<Rightarrow> int
     \<Rightarrow> 'z accumulator_scheme \<Rightarrow> int \<times> 'z accumulator_scheme" where
  "timer_scan clock cfg nowTimeMs i [] sleepMs s = (sleepMs, s)"
| "timer_scan clock cfg nowTimeMs i ((key, batch) # es) sleepMs s =
     (let timeInterval = int64 (createTimeMs batch + LingerMs cfg - nowTimeMs) in
      if timeInterval \<le> 0
      then timer_scan clock cfg nowTimeMs (Suc i) es sleepMs
             (timer_sendToServer (clock i) cfg key batch s)
      else timer_scan clock cfg nowTimeMs (Suc i) es
             (if timeInterval < sleepMs then timeInterval else sleepMs) s)"

text \<open>The locked part of a round, with the sleep it computes.\<close>

definition timer_round ::
    "int \<Rightarrow> (nat \<Rightarrow> int) \<Rightarrow> AsyncProducerClientConfig \<Rightarrow> 'z accumulator_scheme
     \<Rightarrow> int \<times> 'z accumulator_scheme" where
  "timer_round now clock cfg s =
     (let (sleepMs, s') = timer_scan clock cfg (GetTimeMs now) 0 (logTopicData s) (LingerMs cfg) s
      in (if length (logTopicData s) = 0 then LingerMs cfg else sleepMs, s'))"

definition timer_take_retries ::
    "(nat \<Rightarrow> int) \<Rightarrow> 'z timer_task_scheme \<Rightarrow> ProducerBatch list \<times> 'z timer_task_scheme" where
  "timer_take_retries clock s =
     (let (bs, q) = getRetryBatch (timer_shutDownFlag s) clock (retryQueue s)
      in (bs, s\<lparr>retryQueue := q\<rparr>))"

definition timer_drain :: "'z accumulator_scheme \<Rightarrow> 'z accumulator_scheme" where
  "timer_drain s = (fold addTask (map snd (logTopicData s)) s)\<lparr>logTopicData := []\<rparr>"

section \<open>A round\<close>

lemma acc_batches_move:
  assumes "acc_wf s" and "gm_get (logTopicData s) k = Some b"
  shows "acc_batches ((addTask b s)\<lparr>logTopicData := gm_delete k (logTopicData s)\<rparr>) = acc_batches s"
  using gm_values_delete [OF acc_wfD(1) [OF assms(1)] assms(2)] by (simp add: acc_batches_def)

lemma logTopicData_addTask [simp]: "logTopicData (addTask b s) = logTopicData s"
  by (simp add: addTask_def)

definition expired :: "AsyncProducerClientConfig \<Rightarrow> int \<Rightarrow> ProducerBatch \<Rightarrow> bool" where
  "expired cfg nowMs b \<longleftrightarrow> createTimeMs b + LingerMs cfg \<le> nowMs"

definition time_ok :: "AsyncProducerClientConfig \<Rightarrow> int \<Rightarrow> ProducerBatch \<Rightarrow> bool" where
  "time_ok cfg nowMs b \<longleftrightarrow> 0 \<le> createTimeMs b \<and> createTimeMs b + LingerMs cfg \<le> 9223372036854775807"

lemma filter_delete_visited:
  assumes "gm_ok m" and "gm_get m k = Some b" and "k \<notin> fst ` set es" and "Q (k, b)"
  shows "filter (\<lambda>e. e \<in> set es \<longrightarrow> \<not> Q e) (gm_delete k m) =
    filter (\<lambda>e. e \<in> set ((k, b) # es) \<longrightarrow> \<not> Q e) m"
  unfolding gm_delete_def filter_filter
proof (rule filter_cong [OF refl])
  fix e assume e: "e \<in> set m"
  show "(fst e \<noteq> k \<and> (e \<in> set es \<longrightarrow> \<not> Q e)) = (e \<in> set ((k, b) # es) \<longrightarrow> \<not> Q e)"
  proof (cases "fst e = k")
    case True
    with e assms(1,2) have "e = (k, b)" by (metis gm_get_of_mem option.inject prod.collapse)
    with assms(4) show ?thesis by simp
  next
    case False
    then show ?thesis by (cases e) simp
  qed
qed

text \<open>One visit, with the wrap-around of its two subtractions discharged.\<close>

lemma timer_scan_visit:
  assumes "gm_ok (logTopicData s)" and "(key, batch) \<in> set (logTopicData s)"
    and "time_ok cfg nowMs batch"
    and bound: "\<forall>j. nowMs \<le> GetTimeMs (clock j) \<and> GetTimeMs (clock j) \<le> 9223372036854775807"
    and "0 \<le> nowMs" and "0 \<le> LingerMs cfg"
  shows "timer_scan clock cfg nowMs i ((key, batch) # es) sleepMs s =
    (if expired cfg nowMs batch
     then timer_scan clock cfg nowMs (Suc i) es sleepMs
       (s\<lparr>tp_queue := tp_queue s @ [batch], logTopicData := gm_delete key (logTopicData s)\<rparr>)
     else timer_scan clock cfg nowMs (Suc i) es (min (createTimeMs batch + LingerMs cfg - nowMs) sleepMs) s)"
proof -
  let ?t = "createTimeMs batch + LingerMs cfg - nowMs" and ?e = "GetTimeMs (clock i) - createTimeMs batch"
  have t: "int64 ?t = ?t" and e: "int64 ?e = ?e"
    using assms(3,5,6) bound [rule_format, of i] by (auto intro!: int64_id in_int64I simp: time_ok_def)
  have x: "expired cfg nowMs batch = (?t \<le> 0)" by (auto simp: expired_def)
  have "gm_get (logTopicData s) key = Some batch" by (rule gm_get_of_mem [OF assms(1,2)])
  moreover have "\<not> ?e < LingerMs cfg" if "?t \<le> 0" using that bound [rule_format, of i] by linarith
  ultimately show ?thesis unfolding x
    by (simp add: Let_def t e timer_sendToServer_def addTask_def min_def)
qed

text \<open>
  The loop over any part \<open>es\<close> of the map: exactly the expired entries of \<open>es\<close> move, in
  visiting order, and the sleep shrinks to the nearest remaining deadline.
\<close>

lemma timer_scan_correct:
  assumes "timer_scan clock cfg nowMs i es sleepMs s = (sleep', s')"
    and "gm_ok (logTopicData s)" and "distinct (map fst es)" and "set es \<subseteq> set (logTopicData s)"
    and "\<forall>e \<in> set es. time_ok cfg nowMs (snd e)"
    and bound: "\<forall>j. nowMs \<le> GetTimeMs (clock j) \<and> GetTimeMs (clock j) \<le> 9223372036854775807"
    and nonneg: "0 \<le> nowMs" "0 \<le> LingerMs cfg" and "0 < sleepMs"
  shows "s' = s\<lparr>tp_queue := tp_queue s @ map snd (filter (\<lambda>e. expired cfg nowMs (snd e)) es),
      logTopicData := filter (\<lambda>e. e \<in> set es \<longrightarrow> \<not> expired cfg nowMs (snd e)) (logTopicData s)\<rparr> \<and>
    0 < sleep' \<and> sleep' \<le> sleepMs \<and>
    (\<forall>(k, b) \<in> set es. \<not> expired cfg nowMs b \<longrightarrow> sleep' \<le> createTimeMs b + LingerMs cfg - nowMs)"
  using assms(1-5,9)
proof (induction es arbitrary: i sleepMs s)
  case (Cons e es)
  obtain key batch where e: "e = (key, batch)" by (cases e)
  have mem: "(key, batch) \<in> set (logTopicData s)" and tm: "time_ok cfg nowMs batch"
    and fresh: "key \<notin> fst ` set es"
    using Cons.prems(3-5) e by auto
  note visit = timer_scan_visit [OF Cons.prems(2) mem tm bound nonneg, where i = i and es = es and sleepMs = sleepMs]
  have tms: "\<forall>e \<in> set es. time_ok cfg nowMs (snd e)" using Cons.prems(5) by simp
  show ?case
  proof (cases "expired cfg nowMs batch")
    case True
    let ?u = "s\<lparr>tp_queue := tp_queue s @ [batch], logTopicData := gm_delete key (logTopicData s)\<rparr>"
    have p: "gm_ok (logTopicData ?u)" "distinct (map fst es)" "set es \<subseteq> set (logTopicData ?u)"
      using Cons.prems(2-4) e fresh by (auto intro: rev_image_eqI)
    have scan: "timer_scan clock cfg nowMs (Suc i) es sleepMs ?u = (sleep', s')"
      using Cons.prems(1) True unfolding e visit by simp
    have "filter (\<lambda>e. e \<in> set es \<longrightarrow> \<not> expired cfg nowMs (snd e)) (gm_delete key (logTopicData s)) =
        filter (\<lambda>x. x \<in> set (e # es) \<longrightarrow> \<not> expired cfg nowMs (snd x)) (logTopicData s)"
      using filter_delete_visited [OF Cons.prems(2) gm_get_of_mem [OF Cons.prems(2) mem] fresh,
          of "\<lambda>e. expired cfg nowMs (snd e)"] True e by simp
    with Cons.IH [OF scan p tms Cons.prems(6)] True e show ?thesis by (simp split: prod.splits)
  next
    case False
    let ?sl = "min (createTimeMs batch + LingerMs cfg - nowMs) sleepMs"
    have p: "distinct (map fst es)" "set es \<subseteq> set (logTopicData s)" "0 < ?sl"
      using Cons.prems(3,4,6) False by (auto simp: expired_def)
    have scan: "timer_scan clock cfg nowMs (Suc i) es ?sl s = (sleep', s')"
      using Cons.prems(1) False unfolding e visit by simp
    have keep: "filter (\<lambda>e. e \<in> set es \<longrightarrow> \<not> expired cfg nowMs (snd e)) (logTopicData s) =
        filter (\<lambda>x. x \<in> set (e # es) \<longrightarrow> \<not> expired cfg nowMs (snd x)) (logTopicData s)"
      using False e by (intro filter_cong) auto
    have moved: "filter (\<lambda>x. expired cfg nowMs (snd x)) (e # es) = filter (\<lambda>x. expired cfg nowMs (snd x)) es"
      using False e by simp
    show ?thesis
      using Cons.IH [OF scan Cons.prems(2) p(1,2) tms p(3)] unfolding keep moved
      by (elim conjE, intro conjI) (simp_all add: e)
  qed
qed simp

section \<open>Moving open batches\<close>

text \<open>
  A round and the final pass both append some open batches to the send queue and drop them
  from the map.  Whatever the choice \<open>Q\<close>, no batch is lost and no topic's stream changes.
\<close>

definition move_open ::
    "(string \<times> ProducerBatch \<Rightarrow> bool) \<Rightarrow> 'z accumulator_scheme \<Rightarrow> 'z accumulator_scheme" where
  "move_open Q s = s\<lparr>tp_queue := tp_queue s @ map snd (filter Q (logTopicData s)),
     logTopicData := filter (\<lambda>e. \<not> Q e) (logTopicData s)\<rparr>"

lemma filter_topic:
  assumes "gm_ok m" and "\<forall>(k, b) \<in> set m. topicID b = k"
  shows "filter (\<lambda>b. topicID b = k) (map snd (filter Q m)) =
    (case gm_get m k of None \<Rightarrow> [] | Some b \<Rightarrow> if Q (k, b) then [b] else [])"
  using assms
proof (induction m)
  case (Cons e m)
  obtain k' b where e: "e = (k', b)" by (cases e)
  have IH: "filter (\<lambda>b. topicID b = k) (map snd (filter Q m)) =
      (case gm_get m k of None \<Rightarrow> [] | Some b \<Rightarrow> if Q (k, b) then [b] else [])"
    using Cons by (auto simp: gm_ok_def)
  have "gm_get m k' = None"
    using Cons.prems(1) e by (auto simp: gm_ok_def gm_get_def map_of_eq_None_iff)
  with IH Cons.prems(2) e show ?case by (auto simp: gm_get_def)
qed simp

lemma gm_get_filter:
  "gm_ok m \<Longrightarrow> gm_get (filter Q m) k =
    (case gm_get m k of None \<Rightarrow> None | Some b \<Rightarrow> if Q (k, b) then Some b else None)"
proof (induction m)
  case (Cons e m)
  obtain k' b where e: "e = (k', b)" by (cases e)
  with Cons.prems have "gm_get m k' = None"
    by (auto simp: gm_ok_def gm_get_def map_of_eq_None_iff)
  with Cons e show ?case by (auto simp: gm_ok_def gm_get_def)
qed simp

lemma move_open_batches: "acc_batches (move_open Q s) = acc_batches s"
proof -
  have "mset (map snd m) = mset (map snd (filter Q m)) + mset (map snd (filter (\<lambda>e. \<not> Q e) m))"
    for m :: "(string \<times> ProducerBatch) list"
    by (induction m) auto
  from this [of "logTopicData s"] show ?thesis by (simp add: acc_batches_def move_open_def gm_values_def)
qed

lemma move_open_wf: "acc_wf s \<Longrightarrow> acc_wf (move_open Q s)"
  by (auto simp: acc_wf_def move_open_def gm_ok_def distinct_map inj_on_def)

lemma move_open_streams:
  assumes "acc_wf s"
  shows "topic_stream (move_open Q s) = topic_stream s"
proof
  fix k
  have "filter (\<lambda>b. topicID b = k) (map snd (filter Q (logTopicData s))) =
      (case gm_get (logTopicData s) k of None \<Rightarrow> [] | Some b \<Rightarrow> if Q (k, b) then [b] else [])"
    using assms by (intro filter_topic) (auto simp: acc_wf_def)
  moreover have "gm_get (filter (\<lambda>e. \<not> Q e) (logTopicData s)) k =
      (case gm_get (logTopicData s) k of None \<Rightarrow> None | Some b \<Rightarrow> if \<not> Q (k, b) then Some b else None)"
    by (rule gm_get_filter [OF acc_wfD(1) [OF assms]])
  ultimately show "topic_stream (move_open Q s) k = topic_stream s k"
    by (simp add: topic_stream_def move_open_def split: option.splits)
qed

lemma timer_round_moves:
  assumes "acc_wf s" and "\<forall>(k, b) \<in> set (logTopicData s). time_ok cfg (GetTimeMs now) b"
    and "\<forall>j. GetTimeMs now \<le> GetTimeMs (clock j) \<and> GetTimeMs (clock j) \<le> 9223372036854775807"
    and "0 \<le> now" and "valid_config cfg" and "timer_round now clock cfg s = (sleepMs, s')"
  shows "s' = move_open (\<lambda>e. expired cfg (GetTimeMs now) (snd e)) s"
    and "0 < sleepMs" and "sleepMs \<le> LingerMs cfg"
    and "\<forall>(k, b) \<in> set (logTopicData s'). sleepMs \<le> createTimeMs b + LingerMs cfg - GetTimeMs now"
proof -
  obtain sl u where scan:
    "timer_scan clock cfg (GetTimeMs now) 0 (logTopicData s) (LingerMs cfg) s = (sl, u)" by force
  have linger: "0 < LingerMs cfg" using assms(5) by (simp add: valid_config_def)
  have "u = s\<lparr>tp_queue := tp_queue s @ map snd (filter (\<lambda>e. expired cfg (GetTimeMs now) (snd e)) (logTopicData s)),
      logTopicData := filter (\<lambda>e. e \<in> set (logTopicData s) \<longrightarrow> \<not> expired cfg (GetTimeMs now) (snd e)) (logTopicData s)\<rparr> \<and>
    0 < sl \<and> sl \<le> LingerMs cfg \<and>
    (\<forall>(k, b) \<in> set (logTopicData s). \<not> expired cfg (GetTimeMs now) b \<longrightarrow>
       sl \<le> createTimeMs b + LingerMs cfg - GetTimeMs now)"
    by (rule timer_scan_correct [OF scan])
      (use assms linger in \<open>auto simp: acc_wf_def gm_ok_def\<close>)
  then have u: "u = move_open (\<lambda>e. expired cfg (GetTimeMs now) (snd e)) s"
    and sl: "0 < sl" "sl \<le> LingerMs cfg"
    and rest: "\<forall>(k, b) \<in> set (logTopicData s). \<not> expired cfg (GetTimeMs now) b \<longrightarrow>
       sl \<le> createTimeMs b + LingerMs cfg - GetTimeMs now"
    by (simp_all add: move_open_def cong: filter_cong)
  have s': "s' = u" "sleepMs = (if logTopicData s = [] then LingerMs cfg else sl)"
    using assms(6) scan by (auto simp: timer_round_def)
  show "s' = move_open (\<lambda>e. expired cfg (GetTimeMs now) (snd e)) s" "0 < sleepMs" "sleepMs \<le> LingerMs cfg"
    using s' u sl linger by auto
  show "\<forall>(k, b) \<in> set (logTopicData s'). sleepMs \<le> createTimeMs b + LingerMs cfg - GetTimeMs now"
    using s' u rest by (auto simp: move_open_def)
qed

lemma fold_addTask: "fold addTask bs s = s\<lparr>tp_queue := tp_queue s @ bs\<rparr>"
  by (induction bs arbitrary: s) (simp_all add: addTask_def)

lemma timer_drain_moves: "timer_drain s = move_open (\<lambda>e. True) s"
  by (simp add: timer_drain_def move_open_def fold_addTask)

text \<open>
  C26: no batch overstays its linger time.  A round hands exactly the batches that have
  lingered \<open>LingerMs\<close> or longer to the send queue, keeps all others, loses none and keeps
  every topic's logs in order; and the sleep it computes is positive, at most \<open>LingerMs\<close>,
  and ends no later than the first deadline of the batches it left.
\<close>

theorem timer_round_correct:
  assumes "acc_wf s" and "\<forall>(k, b) \<in> set (logTopicData s). time_ok cfg (GetTimeMs now) b"
    and "\<forall>j. GetTimeMs now \<le> GetTimeMs (clock j) \<and> GetTimeMs (clock j) \<le> 9223372036854775807"
    and "0 \<le> now" and "valid_config cfg" and "timer_round now clock cfg s = (sleepMs, s')"
  shows "acc_wf s' \<and> acc_batches s' = acc_batches s \<and> topic_stream s' = topic_stream s \<and>
    set (tp_queue s') = set (tp_queue s) \<union>
      {b. \<exists>k. (k, b) \<in> set (logTopicData s) \<and> expired cfg (GetTimeMs now) b} \<and>
    (\<forall>(k, b) \<in> set (logTopicData s'). \<not> expired cfg (GetTimeMs now) b \<and>
       sleepMs \<le> createTimeMs b + LingerMs cfg - GetTimeMs now) \<and>
    0 < sleepMs \<and> sleepMs \<le> LingerMs cfg"
proof -
  note m = timer_round_moves [OF assms]
  have "set (tp_queue s') = set (tp_queue s) \<union>
      {b. \<exists>k. (k, b) \<in> set (logTopicData s) \<and> expired cfg (GetTimeMs now) b}"
    unfolding m(1) by (force simp: move_open_def)
  moreover have "\<forall>(k, b) \<in> set (logTopicData s'). \<not> expired cfg (GetTimeMs now) b"
    unfolding m(1) by (auto simp: move_open_def)
  ultimately show ?thesis
    using m(2-4) move_open_wf [OF assms(1)] move_open_batches move_open_streams [OF assms(1)] m(1)
    by fast
qed

theorem timer_round_correct_witness:
  "logTopicData (snd (timer_round 3000000000 (\<lambda>i. 3000000001) ex_config
      (ex_worker\<lparr>logTopicData := [(''t'', ex_batch 0), (''u'', (ex_batch 0)\<lparr>createTimeMs := 2500, topicID := ''u''\<rparr>)]\<rparr>)))
     = [(''u'', (ex_batch 0)\<lparr>createTimeMs := 2500, topicID := ''u''\<rparr>)] \<and>
   fst (timer_round 3000000000 (\<lambda>i. 3000000001) ex_config
      (ex_worker\<lparr>logTopicData := [(''t'', ex_batch 0), (''u'', (ex_batch 0)\<lparr>createTimeMs := 2500, topicID := ''u''\<rparr>)]\<rparr>))
     \<le> 1500"
proof -
  let ?u = "(ex_batch 0)\<lparr>createTimeMs := 2500, topicID := ''u''\<rparr>"
  let ?s = "ex_worker\<lparr>logTopicData := [(''t'', ex_batch 0), (''u'', ?u)]\<rparr>"
  have l: "LingerMs ex_config = 2000"
    by (simp add: ex_config_def GetDefaultAsyncProducerClientConfig_def)
  have b: "createTimeMs (ex_batch 0) = 0" "topicID (ex_batch 0) = ''t''" by (simp_all add: ex_batch_def)
  obtain sl s' where r: "timer_round 3000000000 (\<lambda>i. 3000000001) ex_config ?s = (sl, s')" by force
  have s': "logTopicData s' = [(''u'', ?u)]"
    using r by (simp add: timer_round_def timer_sendToServer_def l b in_int64_def gm_get_def
        gm_delete_def split: prod.splits) (auto simp: addTask_def)
  have "\<forall>(k, b) \<in> set (logTopicData s'). \<not> expired ex_config (GetTimeMs 3000000000) b \<and>
       sl \<le> createTimeMs b + LingerMs ex_config - GetTimeMs 3000000000"
    using timer_round_correct [of ?s ex_config 3000000000 "\<lambda>i. 3000000001" sl s'] r l b
    by (simp add: acc_wf_def time_ok_def gm_ok_def)
  with s' r l show ?thesis by simp
qed

end
