(* ===== verification/Async_Producer.thy ===== *)
theory Async_Producer
  imports Timer_Task
begin

text \<open>
  The running producer of \<^verbatim>\<open>async_producer_client.go\<close>: the callers of \<open>SendLog\<close>, the
  timer goroutine, the pool goroutine, the sending goroutines and \<open>Close\<close>, interleaved.  A
  step is what one goroutine does under one lock or with one atomic operation; the fields
  after the components' own say where each goroutine stands.  \<open>accepted\<close> and \<open>resolved\<close>
  are history variables: the calls that were admitted and the batches whose outcome was
  reported.
\<close>

section \<open>Goroutines\<close>

datatype timer_pc =
    T_loop | T_retry | T_move "ProducerBatch list"
  | T_drain | T_drain_retry | T_drain_move "ProducerBatch list" | T_done

datatype pool_pc = P_loop | P_empty | P_hold ProducerBatch | P_counted ProducerBatch | P_done

datatype sender = Sending ProducerBatch | Failed ProducerBatch CLSError bool | Closing | Closed

datatype closer_pc = C_run | C_sig1 | C_sig2 | C_timer | C_pool | C_poll | C_zero | C_nil | C_timeout

type_synonym call = "string \<times> CallBack ptr \<times> LogData"

record producer = timer_task +
  writer :: "(call \<times> int) option"
  timer :: timer_pc
  pool :: pool_pc
  senders :: "sender multiset"
  closer :: closer_pc
  accepted :: "call list"
  resolved :: "ProducerBatch list"

text \<open>The producer after \<open>NewAsyncProducerClient\<close> and \<open>Start\<close>.\<close>

definition Start :: "string \<Rightarrow> producer" where
  "Start hash =
     \<lparr>tp_queue = [], tp_shutDownFlag = False, logTopicData = [], acc_shutDownFlag = False,
      batchID = 0, producerHash = hash, producerLogGroupSize = 0,
      retryQueue = NewRetryQueue, retryQueueShutDownFlag = False, taskCount = 0,
      maxSendWorker = 0, cb_trace = [], timer_shutDownFlag = False,
      writer = None, timer = T_loop, pool = P_loop, senders = {#}, closer = C_run,
      accepted = [], resolved = []\<rparr>"

section \<open>Steps\<close>

text \<open>
  The first rule is a caller that passed the quota check and still holds the accumulator's
  lock; a refused check changes nothing and is no step.  Its last premise is the size bound
  of the model: the configured total plus one call's data fits an \<open>int64\<close>.
\<close>

inductive step :: "AsyncProducerClientConfig \<Rightarrow> int \<Rightarrow> producer \<Rightarrow> producer \<Rightarrow> bool"
  for cfg :: AsyncProducerClientConfig and ovf :: int where
  caller_check: "writer s = None \<Longrightarrow> \<not> acc_shutDownFlag s \<Longrightarrow> data_size d = Inr n \<Longrightarrow>
    int64 (producerLogGroupSize s + n) \<le> TotalSizeLnBytes cfg \<Longrightarrow>
    in_int64 (TotalSizeLnBytes cfg + n) \<Longrightarrow>
    step cfg ovf s (s\<lparr>writer := Some ((topic, cb, d), n)\<rparr>)"
| caller_commit: "writer s = Some ((topic, cb, d), n) \<Longrightarrow>
    commitAppend now cfg topic d cb n s = (r, s1) \<Longrightarrow>
    step cfg ovf s (s1\<lparr>writer := None, accepted := accepted s1 @ [(topic, cb, d)]\<rparr>)"
| timer_scan_round: "timer s = T_loop \<Longrightarrow> \<not> timer_shutDownFlag s \<Longrightarrow> writer s = None \<Longrightarrow>
    mset m = mset (logTopicData s) \<Longrightarrow>
    timer_round now clock cfg (s\<lparr>logTopicData := m\<rparr>) = (ms, s1) \<Longrightarrow>
    step cfg ovf s (s1\<lparr>timer := T_retry\<rparr>)"
| timer_take: "timer s = T_retry \<Longrightarrow> timer_take_retries clock s = (bs, s1) \<Longrightarrow>
    step cfg ovf s (s1\<lparr>timer := T_move bs\<rparr>)"
| timer_add: "timer s = T_move (b # bs) \<Longrightarrow> step cfg ovf s ((addTask b s)\<lparr>timer := T_move bs\<rparr>)"
| timer_again: "timer s = T_move [] \<Longrightarrow> step cfg ovf s (s\<lparr>timer := T_loop\<rparr>)"
| timer_exit: "timer s = T_loop \<Longrightarrow> timer_shutDownFlag s \<Longrightarrow> step cfg ovf s (s\<lparr>timer := T_drain\<rparr>)"
| timer_drain_open: "timer s = T_drain \<Longrightarrow> writer s = None \<Longrightarrow> mset m = mset (logTopicData s) \<Longrightarrow>
    step cfg ovf s ((timer_drain (s\<lparr>logTopicData := m\<rparr>))\<lparr>timer := T_drain_retry\<rparr>)"
| timer_drain_take: "timer s = T_drain_retry \<Longrightarrow> timer_take_retries clock s = (bs, s1) \<Longrightarrow>
    step cfg ovf s (s1\<lparr>timer := T_drain_move bs\<rparr>)"
| timer_drain_add: "timer s = T_drain_move (b # bs) \<Longrightarrow>
    step cfg ovf s ((addTask b s)\<lparr>timer := T_drain_move bs\<rparr>)"
| timer_finish: "timer s = T_drain_move [] \<Longrightarrow> step cfg ovf s (s\<lparr>timer := T_done\<rparr>)"
| pool_pop: "pool s = P_loop \<Longrightarrow> popTask s = (Some b, s1) \<Longrightarrow> step cfg ovf s (s1\<lparr>pool := P_hold b\<rparr>)"
| pool_empty: "pool s = P_loop \<Longrightarrow> popTask s = (None, s1) \<Longrightarrow> step cfg ovf s (s1\<lparr>pool := P_empty\<rparr>)"
| pool_sleep: "pool s = P_empty \<Longrightarrow> \<not> tp_shutDownFlag s \<Longrightarrow> step cfg ovf s (s\<lparr>pool := P_loop\<rparr>)"
| pool_break: "pool s = P_empty \<Longrightarrow> tp_shutDownFlag s \<Longrightarrow> step cfg ovf s (s\<lparr>pool := P_done\<rparr>)"
| pool_count: "pool s = P_hold b \<Longrightarrow>
    step cfg ovf s ((startSendTask_count s)\<lparr>pool := P_counted b\<rparr>)"
| pool_start: "pool s = P_counted b \<Longrightarrow> startSendTask_slot (MaxSendWorkerCount cfg) s = Some s1 \<Longrightarrow>
    step cfg ovf s (s1\<lparr>pool := P_loop, senders := add_mset (Sending b) (senders s1)\<rparr>)"
| send_ok: "senders s = add_mset (Sending b) S \<Longrightarrow>
    step cfg ovf s ((send_success t b s)\<lparr>senders := add_mset Closing S, resolved := resolved s @ [b]\<rparr>)"
| send_err: "senders s = add_mset (Sending b) S \<Longrightarrow>
    step cfg ovf s (s\<lparr>senders := add_mset (Failed b err (retryQueueShutDownFlag s)) S\<rparr>)"
| send_retry: "senders s = add_mset (Failed b err shut) S \<Longrightarrow> will_retry shut err b \<Longrightarrow>
    step cfg ovf s ((send_failed ovf t1 t2 shut err b s)\<lparr>senders := add_mset Closing S\<rparr>)"
| send_give_up: "senders s = add_mset (Failed b err shut) S \<Longrightarrow> \<not> will_retry shut err b \<Longrightarrow>
    step cfg ovf s ((send_failed ovf t1 t2 shut err b s)\<lparr>senders := add_mset Closing S,
      resolved := resolved s @ [b]\<rparr>)"
| sender_slot: "senders s = add_mset Closing S \<Longrightarrow> closeSendTask_slot s = Some s1 \<Longrightarrow>
    step cfg ovf s (s1\<lparr>senders := add_mset Closed S\<rparr>)"
| sender_count: "senders s = add_mset Closed S \<Longrightarrow>
    step cfg ovf s ((closeSendTask_count s)\<lparr>senders := S\<rparr>)"
| close_timer: "closer s = C_run \<Longrightarrow> step cfg ovf s (s\<lparr>timer_shutDownFlag := True, closer := C_sig1\<rparr>)"
| close_acc: "closer s = C_sig1 \<Longrightarrow> step cfg ovf s (s\<lparr>acc_shutDownFlag := True, closer := C_sig2\<rparr>)"
| close_retry: "closer s = C_sig2 \<Longrightarrow>
    step cfg ovf s (s\<lparr>retryQueueShutDownFlag := True, closer := C_timer\<rparr>)"
| close_wait: "closer s = C_timer \<Longrightarrow> timer s = T_done \<Longrightarrow> step cfg ovf s (s\<lparr>closer := C_pool\<rparr>)"
| close_pool: "closer s = C_pool \<Longrightarrow> step cfg ovf s (s\<lparr>tp_shutDownFlag := True, closer := C_poll\<rparr>)"
| close_zero: "closer s = C_poll \<Longrightarrow> taskCount s = 0 \<Longrightarrow> step cfg ovf s (s\<lparr>closer := C_zero\<rparr>)"
| close_nil: "closer s = C_zero \<Longrightarrow> \<not> hasTask s \<Longrightarrow> step cfg ovf s (s\<lparr>closer := C_nil\<rparr>)"
| close_again: "closer s = C_zero \<Longrightarrow> hasTask s \<Longrightarrow> step cfg ovf s (s\<lparr>closer := C_poll\<rparr>)"
| close_timeout: "closer s = C_poll \<Longrightarrow> step cfg ovf s (s\<lparr>closer := C_timeout\<rparr>)"

inductive reachable :: "AsyncProducerClientConfig \<Rightarrow> int \<Rightarrow> producer \<Rightarrow> bool"
  for cfg :: AsyncProducerClientConfig and ovf :: int where
  reachable_Start: "reachable cfg ovf (Start hash)"
| reachable_step: "reachable cfg ovf s \<Longrightarrow> step cfg ovf s s' \<Longrightarrow> reachable cfg ovf s'"

section \<open>Where the batches are\<close>

primrec timer_holds :: "timer_pc \<Rightarrow> ProducerBatch multiset" where
  "timer_holds T_loop = {#}"
| "timer_holds T_retry = {#}"
| "timer_holds (T_move bs) = mset bs"
| "timer_holds T_drain = {#}"
| "timer_holds T_drain_retry = {#}"
| "timer_holds (T_drain_move bs) = mset bs"
| "timer_holds T_done = {#}"

primrec pool_holds :: "pool_pc \<Rightarrow> ProducerBatch multiset" where
  "pool_holds P_loop = {#}"
| "pool_holds P_empty = {#}"
| "pool_holds (P_hold b) = {#b#}"
| "pool_holds (P_counted b) = {#b#}"
| "pool_holds P_done = {#}"

primrec sender_holds :: "sender \<Rightarrow> ProducerBatch multiset" where
  "sender_holds (Sending b) = {#b#}"
| "sender_holds (Failed b err shut) = {#b#}"
| "sender_holds Closing = {#}"
| "sender_holds Closed = {#}"

definition live :: "producer \<Rightarrow> ProducerBatch multiset" where
  "live s = acc_batches s + mset (retryQueue s) + timer_holds (timer s) + pool_holds (pool s)
     + (\<Sum>x\<in>#senders s. sender_holds x)"

end
