(* ===== verification/Producer_Invariant.thy ===== *)
theory Producer_Invariant
  imports Async_Producer
begin

text \<open>
  The invariant of the running producer.  Every step is first reduced to one of five effects
  on the batches (\<open>effect\<close>); the invariant and the conservation laws are then proved once
  per effect.
\<close>

section \<open>Frames\<close>

lemma commitAppend_frame:
  assumes "data_size d = Inr n" and "commitAppend now cfg topic d cb n s = (r, s')"
  obtains q m c where "s' = s\<lparr>tp_queue := q, logTopicData := m, batchID := c,
    producerLogGroupSize := int64 (producerLogGroupSize s + n)\<rparr>"
proof -
  have "s' = s\<lparr>tp_queue := tp_queue s', logTopicData := logTopicData s', batchID := batchID s',
      producerLogGroupSize := int64 (producerLogGroupSize s + n)\<rparr>"
    using assms(1)
    by (cases rule: commitAppend_cases [where s = s and now = now and cfg = cfg and topic = topic and cb = cb])
      (rule accumulator.equality; use assms(2) in simp)+
  with that show thesis by blast
qed

lemma acc_wf_perm: "mset m = mset (logTopicData s) \<Longrightarrow> acc_wf (s\<lparr>logTopicData := m\<rparr>) = acc_wf s"
  using mset_eq_setD [of m "logTopicData s"] mset_eq_imp_distinct_iff [of "map fst m" "map fst (logTopicData s)"]
  by (auto simp: acc_wf_def gm_ok_def)

lemma acc_batches_perm:
  "mset m = mset (logTopicData s) \<Longrightarrow> acc_batches (s\<lparr>logTopicData := m\<rparr>) = acc_batches s"
  by (simp add: acc_batches_def gm_values_def)

lemma timer_sendToServer_frame:
  assumes "acc_wf s" and "(key, batch) \<in> set (logTopicData s)"
  shows "(\<exists>q m. timer_sendToServer t cfg key batch s = s\<lparr>tp_queue := q, logTopicData := m\<rparr>) \<and>
    acc_wf (timer_sendToServer t cfg key batch s) \<and>
    acc_batches (timer_sendToServer t cfg key batch s) = acc_batches s \<and>
    set (gm_delete key (logTopicData s)) \<subseteq> set (logTopicData (timer_sendToServer t cfg key batch s))"
proof -
  have get: "gm_get (logTopicData s) key = Some batch"
    using assms by (intro gm_get_of_mem) (auto simp: acc_wf_def)
  have "s = s\<lparr>tp_queue := tp_queue s, logTopicData := logTopicData s\<rparr>" by simp
  then have same: "\<exists>q m. s = s\<lparr>tp_queue := q, logTopicData := m\<rparr>" by blast
  have sub: "set (gm_delete key (logTopicData s)) \<subseteq> set (logTopicData s)" by (auto simp: gm_delete_def)
  show ?thesis
  proof (cases "int64 (GetTimeMs t - createTimeMs batch) < LingerMs cfg")
    case True
    then have "timer_sendToServer t cfg key batch s = s" using get by (simp add: timer_sendToServer_def)
    then show ?thesis using assms(1) same sub by (simp only: simp_thms)
  next
    case False
    then show ?thesis
      using get acc_batches_move [OF assms(1) get] assms(1)
      by (auto simp: timer_sendToServer_def addTask_def acc_wf_def)
  qed
qed

lemma timer_scan_frame:
  assumes "timer_scan clock cfg nowMs i es sleepMs s = (sleep', s')" and "acc_wf s"
    and "distinct (map fst es)" and "set es \<subseteq> set (logTopicData s)"
  shows "(\<exists>q m. s' = s\<lparr>tp_queue := q, logTopicData := m\<rparr>) \<and> acc_wf s' \<and> acc_batches s' = acc_batches s"
  using assms
proof (induction clock cfg nowMs i es sleepMs s arbitrary: sleep' s' rule: timer_scan.induct)
  case (1 clock cfg nowMs i sleepMs s)
  have "s = s\<lparr>tp_queue := tp_queue s, logTopicData := logTopicData s\<rparr>" by simp
  with 1 show ?case by (metis Pair_inject timer_scan.simps(1))
next
  case (2 clock cfg nowMs i key batch es sleepMs s)
  let ?t = "int64 (createTimeMs batch + LingerMs cfg - nowMs)"
  let ?u = "timer_sendToServer (clock i) cfg key batch s"
  have "(key, batch) \<in> set (logTopicData s)" using 2(6) by simp
  note u = timer_sendToServer_frame [OF 2(4) this, of "clock i" cfg]
  show ?case
  proof (cases "?t \<le> 0")
    case True
    have "set es \<subseteq> set (gm_delete key (logTopicData s))" using 2(5,6) by (force simp: gm_delete_def)
    then have "(\<exists>q m. s' = ?u\<lparr>tp_queue := q, logTopicData := m\<rparr>) \<and> acc_wf s' \<and> acc_batches s' = acc_batches ?u"
      by (intro 2(1) [OF refl True]) (use 2(3,5) u True in auto)
    moreover obtain q0 m0 where "?u = s\<lparr>tp_queue := q0, logTopicData := m0\<rparr>" using u by blast
    ultimately show ?thesis using u by auto
  next
    case False
    show ?thesis
      by (rule 2(2) [OF refl False]) (use 2(3-6) False in \<open>simp_all add: Let_def\<close>)
  qed
qed

lemma timer_round_frame:
  assumes "timer_round now clock cfg (s\<lparr>logTopicData := m\<rparr>) = (ms, s')" and "acc_wf s"
    and "mset m = mset (logTopicData s)"
  shows "(\<exists>q m. s' = s\<lparr>tp_queue := q, logTopicData := m\<rparr>) \<and> acc_wf s' \<and> acc_batches s' = acc_batches s"
proof -
  let ?s = "s\<lparr>logTopicData := m\<rparr>"
  have wf: "acc_wf ?s" "acc_batches ?s = acc_batches s"
    using assms(2,3) acc_wf_perm acc_batches_perm by auto
  obtain sl where "timer_scan clock cfg (GetTimeMs now) 0 m (LingerMs cfg) ?s = (sl, s')"
    using assms(1) by (auto simp: timer_round_def split: prod.splits)
  from timer_scan_frame [OF this wf(1)] wf show ?thesis by (auto simp: acc_wf_def gm_ok_def)
qed

lemma timer_drain_frame:
  assumes "acc_wf s" and "mset m = mset (logTopicData s)"
  shows "(\<exists>q. timer_drain (s\<lparr>logTopicData := m\<rparr>) = s\<lparr>tp_queue := q, logTopicData := []\<rparr>) \<and>
    acc_batches (timer_drain (s\<lparr>logTopicData := m\<rparr>)) = acc_batches s"
proof -
  have "acc_batches (timer_drain (s\<lparr>logTopicData := m\<rparr>)) = acc_batches (s\<lparr>logTopicData := m\<rparr>)"
    by (simp add: timer_drain_moves move_open_batches)
  with acc_batches_perm [OF assms(2)] show ?thesis
    by (auto simp: timer_drain_moves move_open_def)
qed

section \<open>Effects\<close>

text \<open>What a step does to the batches and to the accounting, whatever goroutine makes it.\<close>

inductive effect :: "AsyncProducerClientConfig \<Rightarrow> producer \<Rightarrow> producer \<Rightarrow> bool"
  for cfg :: AsyncProducerClientConfig and s :: producer and s' :: producer where
  move: "live s' = live s \<Longrightarrow> producerLogGroupSize s' = producerLogGroupSize s \<Longrightarrow>
    writer s' = writer s \<Longrightarrow> accepted s' = accepted s \<Longrightarrow> resolved s' = resolved s \<Longrightarrow>
    cb_trace s' = cb_trace s \<Longrightarrow> effect cfg s s'"
| check: "s' = s\<lparr>writer := Some ((topic, cb, d), n)\<rparr> \<Longrightarrow> writer s = None \<Longrightarrow> data_size d = Inr n \<Longrightarrow>
    int64 (producerLogGroupSize s + n) \<le> TotalSizeLnBytes cfg \<Longrightarrow>
    in_int64 (TotalSizeLnBytes cfg + n) \<Longrightarrow> effect cfg s s'"
| commit: "writer s = Some ((topic, cb, d), n) \<Longrightarrow> writer s' = None \<Longrightarrow>
    commitAppend now cfg topic d cb n s = (r, s1) \<Longrightarrow>
    s' = s1\<lparr>writer := None, accepted := accepted s1 @ [(topic, cb, d)]\<rparr> \<Longrightarrow> effect cfg s s'"
| retry: "live s = add_mset b M \<Longrightarrow> live s' = add_mset (retried ovf t1 t2 err b) M \<Longrightarrow>
    will_retry shut err b \<Longrightarrow> producerLogGroupSize s' = producerLogGroupSize s \<Longrightarrow>
    writer s' = writer s \<Longrightarrow> accepted s' = accepted s \<Longrightarrow> resolved s' = resolved s \<Longrightarrow>
    cb_trace s' = cb_trace s \<Longrightarrow> effect cfg s s'"
| resolve: "live s = add_mset b (live s') \<Longrightarrow>
    producerLogGroupSize s' = int64 (producerLogGroupSize s - accountedSize b) \<Longrightarrow>
    resolved s' = resolved s @ [b] \<Longrightarrow>
    map cb_of (cb_trace s') = map cb_of (cb_trace s) @ callBackList b \<Longrightarrow>
    writer s' = writer s \<Longrightarrow> accepted s' = accepted s \<Longrightarrow> effect cfg s s'"

lemma live_simps:
  "live (s\<lparr>writer := w\<rparr>) = live s" "live (s\<lparr>closer := c\<rparr>) = live s"
  "live (s\<lparr>timer_shutDownFlag := x\<rparr>) = live s" "live (s\<lparr>acc_shutDownFlag := x\<rparr>) = live s"
  "live (s\<lparr>retryQueueShutDownFlag := x\<rparr>) = live s" "live (s\<lparr>tp_shutDownFlag := x\<rparr>) = live s"
  by (simp_all add: live_def acc_batches_def)

lemma map_cb_of [simp]:
  "map (\<lambda>cb. cb_of (CbSuccess cb r)) cbs = cbs" "map (\<lambda>cb. cb_of (CbFail cb r)) cbs = cbs"
  by (simp_all add: comp_def)

lemma acc_batches_timer [simp]: "acc_batches (s\<lparr>timer := t\<rparr>) = acc_batches s"
  by (simp add: acc_batches_def)

lemma getRetryBatch_mset:
  "retry_heap q \<Longrightarrow> getRetryBatch flag clock q = (bs, q') \<Longrightarrow> mset q = mset bs + mset q' \<and> retry_heap q'"
  using takeDue_correct [of q clock 0 bs q'] takeAll_correct [of q bs q']
  by (auto simp: getRetryBatch_def heap_upto_def split: if_splits)

lemma step_effect:
  assumes "step cfg ovf s s'" and "acc_wf s" and "retry_heap (retryQueue s)"
    and "\<And>topic cb d n. writer s = Some ((topic, cb, d), n) \<Longrightarrow> data_size d = Inr n"
  shows "effect cfg s s'"
  using assms(1)
proof cases
  case (caller_check d n topic cb)
  then show ?thesis by (intro effect.check)
next
  case (caller_commit topic cb d n now r s1)
  then show ?thesis by (intro effect.commit [OF _ _ caller_commit(3) caller_commit(1)]) auto
next
  case (timer_scan_round m now clock ms s1)
  with timer_round_frame [OF timer_scan_round(6) assms(2) timer_scan_round(5)] show ?thesis
    by (auto intro!: effect.move simp: live_def)
next
  case (timer_take clock bs s1)
  then show ?thesis
    using getRetryBatch_mset [OF assms(3), of "timer_shutDownFlag s" clock]
    by (auto intro!: effect.move simp: live_def acc_batches_def timer_take_retries_def split: prod.splits)
next
  case (timer_drain_open m)
  with timer_drain_frame [OF assms(2) timer_drain_open(4)] show ?thesis
    by (auto intro!: effect.move simp: live_def)
next
  case (timer_drain_take clock bs s1)
  then show ?thesis
    using getRetryBatch_mset [OF assms(3), of "timer_shutDownFlag s" clock]
    by (auto intro!: effect.move simp: live_def acc_batches_def timer_take_retries_def split: prod.splits)
next
  case (send_retry b err shut S t1 t2)
  then show ?thesis
    using sendToRetryQueue_ok [OF assms(3), of "retried ovf t1 t2 err b"]
    by (intro effect.retry [where b = b and ?t1.0 = t1 and ?t2.0 = t2 and err = err and ovf = ovf and
          M = "acc_batches s + mset (retryQueue s) + timer_holds (timer s) + pool_holds (pool s)
            + (\<Sum>x\<in>#S. sender_holds x)"])
      (simp_all add: live_def acc_batches_def send_failed_retry)
next
  case (pool_pop b s1)
  then show ?thesis
    by (auto intro!: effect.move simp: live_def acc_batches_def popTask_def split: list.splits)
next
  case (send_ok b S t)
  then show ?thesis
    by (intro effect.resolve [where b = b])
      (simp_all add: live_def acc_batches_def send_success_def release_def Let_def comp_def)
next
  case (send_give_up b err shut S t1 t2)
  then show ?thesis
    by (intro effect.resolve [where b = b])
      (simp_all add: live_def acc_batches_def send_failed_final executeFailedCallback_def
        release_def comp_def)
qed (auto intro!: effect.move simp: live_simps live_def acc_batches_def addTask_def
      popTask_def startSendTask_count_def startSendTask_slot_def closeSendTask_slot_def
      closeSendTask_count_def split: list.splits if_splits)

section \<open>The invariant\<close>

definition producer_inv :: "AsyncProducerClientConfig \<Rightarrow> producer \<Rightarrow> bool" where
  "producer_inv cfg s \<longleftrightarrow>
     acc_wf s \<and> retry_heap (retryQueue s) \<and> (\<forall>b \<in># live s. batch_ok b) \<and>
     producerLogGroupSize s = (\<Sum>b\<in>#live s. accountedSize b) \<and>
     producerLogGroupSize s \<le> TotalSizeLnBytes cfg \<and> in_int64 (producerLogGroupSize s) \<and>
     (case writer s of None \<Rightarrow> True
      | Some ((topic, cb, d), n) \<Rightarrow> data_size d = Inr n \<and> in_int64 (TotalSizeLnBytes cfg + n) \<and>
          producerLogGroupSize s + n \<le> TotalSizeLnBytes cfg)"

lemma producer_invD:
  assumes "producer_inv cfg s"
  shows "acc_wf s" and "retry_heap (retryQueue s)" and "\<And>b. b \<in># live s \<Longrightarrow> batch_ok b"
    and "producerLogGroupSize s = (\<Sum>b\<in>#live s. accountedSize b)"
    and "producerLogGroupSize s \<le> TotalSizeLnBytes cfg" and "in_int64 (producerLogGroupSize s)"
    and "\<And>topic cb d n. writer s = Some ((topic, cb, d), n) \<Longrightarrow>
      data_size d = Inr n \<and> in_int64 (TotalSizeLnBytes cfg + n) \<and>
      producerLogGroupSize s + n \<le> TotalSizeLnBytes cfg"
  using assms by (auto simp: producer_inv_def split: option.splits)

lemma live_charge:
  assumes "producer_inv cfg s" and "b \<in># live s"
  shows "0 \<le> accountedSize b" and "accountedSize b \<le> producerLogGroupSize s"
proof -
  have nonneg: "0 \<le> accountedSize x" if "x \<in># live s" for x
    using batch_okD(2) [OF producer_invD(3) [OF assms(1) that]] .
  then show "0 \<le> accountedSize b" using assms(2) by blast
  show "accountedSize b \<le> producerLogGroupSize s"
    using sum_mset_member_le [OF assms(2), of accountedSize] nonneg producer_invD(4) [OF assms(1)] by simp
qed

lemma quota_nonneg: "producer_inv cfg s \<Longrightarrow> 0 \<le> producerLogGroupSize s"
  using producer_invD(3) [of cfg s] batch_okD(2) by (simp add: producer_invD(4) sum_mset_nonneg)

lemma acc_batches_live: "b \<in># acc_batches s \<Longrightarrow> b \<in># live s"
  by (simp add: live_def)

subsection \<open>The structural part\<close>

lemma step_wf:
  assumes "step cfg ovf s s'" and "acc_wf s" and "retry_heap (retryQueue s)"
    and "\<And>topic cb d n. writer s = Some ((topic, cb, d), n) \<Longrightarrow> data_size d = Inr n"
  shows "acc_wf s' \<and> retry_heap (retryQueue s')"
  using assms(1)
proof cases
  case (caller_commit topic cb d n now r s1)
  note d = assms(4) [OF caller_commit(2)]
  have "acc_wf s1" by (rule acc_wf_commitAppend [OF assms(2) d caller_commit(3)])
  moreover obtain q m c where "s1 = s\<lparr>tp_queue := q, logTopicData := m, batchID := c,
      producerLogGroupSize := int64 (producerLogGroupSize s + n)\<rparr>"
    by (rule commitAppend_frame [OF d caller_commit(3)])
  ultimately show ?thesis using caller_commit(1) assms(3) by (simp add: acc_wf_def)
next
  case (timer_scan_round m now clock ms s1)
  with timer_round_frame [OF timer_scan_round(6) assms(2) timer_scan_round(5)] assms(3) show ?thesis
    by (auto simp: acc_wf_def)
next
  case (timer_take clock bs s1)
  then show ?thesis
    using getRetryBatch_mset [OF assms(3), of "timer_shutDownFlag s" clock] assms(2)
    by (auto simp: acc_wf_def timer_take_retries_def split: prod.splits)
next
  case (timer_drain_open m)
  with timer_drain_frame [OF assms(2) timer_drain_open(4)] assms(3) show ?thesis
    by (auto simp: acc_wf_def)
next
  case (timer_drain_take clock bs s1)
  then show ?thesis
    using getRetryBatch_mset [OF assms(3), of "timer_shutDownFlag s" clock] assms(2)
    by (auto simp: acc_wf_def timer_take_retries_def split: prod.splits)
next
  case (send_retry b err shut S t1 t2)
  then show ?thesis
    using sendToRetryQueue_ok [OF assms(3), of "retried ovf t1 t2 err b"] assms(2)
    by (simp add: acc_wf_def send_failed_retry)
qed (use assms(2,3) in \<open>auto simp: acc_wf_def addTask_def popTask_def startSendTask_count_def
      startSendTask_slot_def closeSendTask_slot_def closeSendTask_count_def send_success_def
      release_def Let_def send_failed_final executeFailedCallback_def split: list.splits if_splits\<close>)

subsection \<open>The accounting part\<close>

lemma commit_open_charge:
  assumes "producer_inv cfg s" and "writer s = Some ((topic, cb, d), n)"
    and "gm_get (logTopicData s) topic = Some b"
  shows "in_int64 (accountedSize b + n)"
proof -
  have b: "b \<in># live s" by (rule acc_batches_live [OF open_in_acc_batches [OF assms(3)]])
  note w = producer_invD(7) [OF assms(1,2)]
  have "0 \<le> n" using w data_size_nonneg by blast
  with live_charge [OF assms(1) b] w quota_nonneg [OF assms(1)] show ?thesis
    by (auto simp: in_int64_def)
qed

lemma commit_quota:
  assumes "producer_inv cfg s" and "writer s = Some ((topic, cb, d), n)"
  shows "int64 (producerLogGroupSize s + n) = producerLogGroupSize s + n"
    and "in_int64 (producerLogGroupSize s + n)"
proof -
  note w = producer_invD(7) [OF assms]
  have "0 \<le> n" using w data_size_nonneg by blast
  with w quota_nonneg [OF assms(1)] show "in_int64 (producerLogGroupSize s + n)"
    by (auto simp: in_int64_def)
  then show "int64 (producerLogGroupSize s + n) = producerLogGroupSize s + n" by simp
qed

lemma release_quota:
  assumes "producer_inv cfg s" and "b \<in># live s"
  shows "int64 (producerLogGroupSize s - accountedSize b) = producerLogGroupSize s - accountedSize b"
  using live_charge [OF assms] producer_invD(6) [OF assms(1)]
  by (intro int64_id) (auto simp: in_int64_def)

lemma batch_ok_commitAppend:
  assumes "data_size d = Inr n" and "valid_config cfg"
    and "\<And>b. b \<in># acc_batches s \<Longrightarrow> batch_ok b"
    and "\<And>b. gm_get (logTopicData s) topic = Some b \<Longrightarrow> in_int64 (accountedSize b + n)"
    and "commitAppend now cfg topic d cb n s = (r, s')" and "b \<in># acc_batches s'"
  shows "batch_ok b"
proof -
  have rest: "batch_ok b"
    if "b \<in># gm_values (gm_delete topic m) + mset q" "set m \<subseteq> set (logTopicData s)"
      "set q \<subseteq> set (tp_queue s)" for b m q
    using that assms(3) [of b] by (auto simp: acc_batches_def gm_values_def gm_delete_def)
  have opened: "batch_ok x" if "gm_get (logTopicData s) topic = Some x" for x
    using assms(3) open_in_acc_batches [OF that] by blast
  show ?thesis
    using assms(1)
  proof (cases rule: commitAppend_cases [where s = s and now = now and cfg = cfg and topic = topic and cb = cb])
    case (fresh b')
    with assms(5,6) rest [of b "logTopicData s" "tp_queue s"] batch_ok_fresh [OF assms(1) fresh(2) assms(2)]
    show ?thesis by (auto simp: acc_batches_def)
  next
    case (send b' t)
    with assms(5,6) rest [of b "logTopicData s" "tp_queue s"]
      batch_ok_append [OF opened assms(1) assms(4)] show ?thesis by (auto simp: acc_batches_def)
  next
    case (keep b' t)
    with assms(5,6) rest [of b "logTopicData s" "tp_queue s"]
      batch_ok_append [OF opened assms(1) assms(4)] show ?thesis by (auto simp: acc_batches_def)
  next
    case (replace b' t b'')
    with assms(5,6) rest [of b "gm_delete topic (logTopicData s)" "tp_queue s"]
      opened batch_ok_fresh [OF assms(1) replace(3) assms(2)]
    show ?thesis by (auto simp: acc_batches_def)
  qed
qed

lemma commit_live:
  assumes "data_size d = Inr n" and "commitAppend now cfg topic d cb n s = (r, s1)"
    and "s' = s1\<lparr>writer := None, accepted := accepted s1 @ [(topic, cb, d)]\<rparr>"
  obtains R where "live s = acc_batches s + R" and "live s' = acc_batches s1 + R"
    and "producerLogGroupSize s' = int64 (producerLogGroupSize s + n)"
    and "resolved s' = resolved s" and "cb_trace s' = cb_trace s"
    and "accepted s' = accepted s @ [(topic, cb, d)]"
proof -
  obtain q m c where s1: "s1 = s\<lparr>tp_queue := q, logTopicData := m, batchID := c,
      producerLogGroupSize := int64 (producerLogGroupSize s + n)\<rparr>"
    by (rule commitAppend_frame [OF assms(1,2)])
  let ?R = "mset (retryQueue s) + timer_holds (timer s) + pool_holds (pool s)
     + (\<Sum>x\<in>#senders s. sender_holds x)"
  have "acc_batches s' = acc_batches s1" by (simp add: assms(3) acc_batches_def)
  then have "live s = acc_batches s + ?R" "live s' = acc_batches s1 + ?R"
    using s1 assms(3) by (simp_all add: live_def)
  with that [of ?R] s1 assms(3) show thesis by simp
qed

lemma effect_inv:
  assumes "effect cfg s s'" and "producer_inv cfg s" and "valid_config cfg"
    and "acc_wf s'" and "retry_heap (retryQueue s')"
  shows "producer_inv cfg s'"
  using assms(1)
proof cases
  case move
  show ?thesis using assms(2,4,5) unfolding producer_inv_def move(1-3) by blast
next
  case (check topic cb d n)
  then have "in_int64 (producerLogGroupSize s + n)"
    using quota_nonneg [OF assms(2)] producer_invD(5) [OF assms(2)] data_size_nonneg
    by (fastforce simp: in_int64_def)
  moreover note producer_invD(6) [OF assms(2)]
  ultimately show ?thesis using check assms(2,4,5) by (auto simp: producer_inv_def live_simps)
next
  case (commit topic cb d n now r s1)
  note w = producer_invD(7) [OF assms(2) commit(1)]
  have d: "data_size d = Inr n" using w by blast
  obtain R where R: "live s = acc_batches s + R" "live s' = acc_batches s1 + R"
    "producerLogGroupSize s' = int64 (producerLogGroupSize s + n)"
    by (rule commit_live [OF d commit(3,4)])
  have "(\<Sum>b\<in>#acc_batches s1. accountedSize b) = (\<Sum>b\<in>#acc_batches s. accountedSize b) + n"
    using acct.sum_commitAppend [OF producer_invD(1) [OF assms(2)] d
        commit_open_charge [OF assms(2) commit(1)] commit(3)] d by simp
  moreover have "batch_ok b" if "b \<in># live s'" for b
    using that R batch_ok_commitAppend [OF d assms(3) _ commit_open_charge [OF assms(2) commit(1)] commit(3), of b]
      producer_invD(3) [OF assms(2)] by auto
  ultimately show ?thesis
    using R w commit(2) assms(4,5) commit_quota [OF assms(2) commit(1)] producer_invD(4) [OF assms(2)]
    by (simp add: producer_inv_def)
next
  case (retry b M ovf t1 t2 err shut)
  have "batch_ok b" using producer_invD(3) [OF assms(2)] retry by simp
  then have ok: "batch_ok (retried ovf t1 t2 err b)" by (rule batch_ok_retried [OF _ retry(3)])
  have "(\<Sum>b\<in>#live s'. accountedSize b) = (\<Sum>b\<in>#live s. accountedSize b)"
    and "\<forall>b\<in>#live s'. batch_ok b"
    using retry(1,2) ok producer_invD(3) [OF assms(2)] by auto
  then show ?thesis using assms(2,4,5) unfolding producer_inv_def retry(4,5) by (elim conjE, intro conjI) simp_all
next
  case (resolve b)
  have b: "b \<in># live s" using resolve by simp
  have "producerLogGroupSize s' = producerLogGroupSize s - accountedSize b"
    using release_quota [OF assms(2) b] resolve by simp
  with live_charge [OF assms(2) b] resolve assms(2,4,5) show ?thesis
    by (auto simp: producer_inv_def in_int64_def split: option.splits)
qed

lemma Start_inv: "valid_config cfg \<Longrightarrow> producer_inv cfg (Start hash)"
  by (simp add: producer_inv_def Start_def acc_wf_def NewRetryQueue_def heap_Init_def heap_upto_def
      live_def acc_batches_def in_int64_def valid_config_def)

lemma step_inv:
  assumes "step cfg ovf s s'" and "producer_inv cfg s" and "valid_config cfg"
  shows "producer_inv cfg s'" and "effect cfg s s'"
proof -
  have d: "data_size d = Inr n" if "writer s = Some ((topic, cb, d), n)" for topic cb d n
    using producer_invD(7) [OF assms(2) that] by blast
  show e: "effect cfg s s'"
    using step_effect [OF assms(1) producer_invD(1,2) [OF assms(2)]] d by blast
  show "producer_inv cfg s'"
    using effect_inv [OF e assms(2,3)] step_wf [OF assms(1) producer_invD(1,2) [OF assms(2)]] d by blast
qed

lemma reachable_inv: "reachable cfg ovf s \<Longrightarrow> valid_config cfg \<Longrightarrow> producer_inv cfg s"
  by (induction rule: reachable.induct) (auto intro: Start_inv step_inv)

section \<open>Conservation\<close>

text \<open>
  Every additive measure of the batches: what the admitted calls brought is what the live
  batches still hold plus what the resolved ones took with them.
\<close>

abbreviation calls_weight ::
    "(string \<Rightarrow> CallBack ptr \<Rightarrow> LogData \<Rightarrow> 'm :: comm_monoid_add) \<Rightarrow> call list \<Rightarrow> 'm" where
  "calls_weight w cs \<equiv> (\<Sum>(topic, cb, d)\<leftarrow>cs. w topic cb d)"

context batch_measure begin

lemma conserved_effect:
  assumes "effect cfg s s'" and "producer_inv cfg s"
    and "(\<Sum>b\<in>#live s. f b) + (\<Sum>b\<leftarrow>resolved s. f b) = calls_weight weight (accepted s)"
  shows "(\<Sum>b\<in>#live s'. f b) + (\<Sum>b\<leftarrow>resolved s'. f b) = calls_weight weight (accepted s')"
  using assms(1)
proof cases
  case (check topic cb d n)
  with assms(3) show ?thesis by (simp add: live_simps)
next
  case (commit topic cb d n now r s1)
  have d: "data_size d = Inr n" using producer_invD(7) [OF assms(2) commit(1)] by blast
  obtain R where R: "live s = acc_batches s + R" "live s' = acc_batches s1 + R"
    "resolved s' = resolved s" "accepted s' = accepted s @ [(topic, cb, d)]"
    by (rule commit_live [OF d commit(3,4)])
  have "(\<Sum>b\<in>#acc_batches s1. f b) = (\<Sum>b\<in>#acc_batches s. f b) + weight topic cb d"
    by (rule sum_commitAppend [OF producer_invD(1) [OF assms(2)] d
        commit_open_charge [OF assms(2) commit(1)] commit(3)])
  with R assms(3) [symmetric] show ?thesis by (simp add: ac_simps)
next
  case (retry b M ovf t1 t2 err shut)
  with assms(3) show ?thesis by (simp add: f_retried)
next
  case (resolve b)
  with assms(3) show ?thesis by (simp add: ac_simps)
qed (use assms(3) in simp)

lemma conserved:
  assumes "reachable cfg ovf s" and "valid_config cfg"
  shows "(\<Sum>b\<in>#live s. f b) + (\<Sum>b\<leftarrow>resolved s. f b) = calls_weight weight (accepted s)"
  using assms(1)
proof (induction rule: reachable.induct)
  case (reachable_Start hash)
  show ?case by (simp add: Start_def live_def acc_batches_def NewRetryQueue_def heap_Init_def)
next
  case (reachable_step s s')
  have "producer_inv cfg s" by (rule reachable_inv [OF reachable_step(1) assms(2)])
  with reachable_step step_inv(2) [OF reachable_step(2) _ assms(2)] show ?case
    by (blast intro: conserved_effect)
qed

end

text \<open>The callbacks that ran are those of the resolved batches, batch by batch, in order.\<close>

lemma trace_resolved:
  assumes "reachable cfg ovf s" and "valid_config cfg"
  shows "map cb_of (cb_trace s) = concat (map callBackList (resolved s))"
  using assms(1)
proof (induction rule: reachable.induct)
  case (reachable_Start hash)
  show ?case by (simp add: Start_def)
next
  case (reachable_step s s')
  have inv: "producer_inv cfg s" by (rule reachable_inv [OF reachable_step(1) assms(2)])
  show ?case
    using step_inv(2) [OF reachable_step(2) inv assms(2)]
  proof cases
    case (commit topic cb d n now r s1)
    then obtain R where "resolved s' = resolved s" "cb_trace s' = cb_trace s"
      using producer_invD(7) [OF inv commit(1)] commit_live by metis
    with reachable_step show ?thesis by simp
  qed (use reachable_step in simp_all)
qed

section \<open>Slots and counters\<close>

definition busy :: "sender \<Rightarrow> bool" where
  "busy x \<longleftrightarrow> x \<noteq> Closed"

definition slots_inv :: "AsyncProducerClientConfig \<Rightarrow> producer \<Rightarrow> bool" where
  "slots_inv cfg s \<longleftrightarrow>
     maxSendWorker s = size (filter_mset busy (senders s)) \<and>
     int (maxSendWorker s) \<le> MaxSendWorkerCount cfg \<and>
     taskCount s = int (size (senders s)) + (case pool s of P_counted b \<Rightarrow> 1 | _ \<Rightarrow> 0)"

lemma slots_inv_step:
  assumes "step cfg ovf s s'" and "slots_inv cfg s"
    and "\<And>topic cb d n. writer s = Some ((topic, cb, d), n) \<Longrightarrow> data_size d = Inr n"
    and "acc_wf s"
  shows "slots_inv cfg s'"
  using assms(1)
proof cases
  case (caller_commit topic cb d n now r s1)
  obtain q m c where "s1 = s\<lparr>tp_queue := q, logTopicData := m, batchID := c,
      producerLogGroupSize := int64 (producerLogGroupSize s + n)\<rparr>"
    by (rule commitAppend_frame [OF assms(3) [OF caller_commit(2)] caller_commit(3)])
  with caller_commit(1) assms(2) show ?thesis by (simp add: slots_inv_def)
next
  case (timer_scan_round m now clock ms s1)
  with timer_round_frame [OF timer_scan_round(6) assms(4) timer_scan_round(5)] assms(2)
  show ?thesis by (auto simp: slots_inv_def)
next
  case (timer_drain_open m)
  with timer_drain_frame [OF assms(4) timer_drain_open(4)] assms(2) show ?thesis
    by (auto simp: slots_inv_def)
qed (use assms(2) in \<open>auto simp: slots_inv_def busy_def addTask_def popTask_def
      timer_take_retries_def startSendTask_count_def startSendTask_slot_def closeSendTask_slot_def
      closeSendTask_count_def send_success_def release_def Let_def send_failed_final
      send_failed_retry executeFailedCallback_def
      split: list.splits if_splits pool_pc.splits prod.splits\<close>)

lemma reachable_slots:
  assumes "reachable cfg ovf s" and "valid_config cfg"
  shows "slots_inv cfg s"
  using assms(1)
proof (induction rule: reachable.induct)
  case (reachable_Start hash)
  show ?case using assms(2) by (simp add: slots_inv_def Start_def valid_config_def)
next
  case (reachable_step s s')
  note inv = reachable_inv [OF reachable_step(1) assms(2)]
  show ?case
    using slots_inv_step [OF reachable_step(2,3) _ producer_invD(1) [OF inv]] producer_invD(7) [OF inv]
    by blast
qed

end
