(* ===== verification/Producer_Props.thy ===== *)
theory Producer_Props
  imports Producer_Invariant
begin

text \<open>
  The properties of the running producer: the quota, exactly-once callbacks, no log lost,
  bounded concurrency, and what \<open>Close\<close> does not guarantee.
\<close>

section \<open>A reachable instance\<close>

lemma ex_commit:
  assumes "logTopicData s = []" and "data_size d = Inr n"
  obtains b where "commitAppend 0 cfg topic d cb n s = (Inr True, s\<lparr>batchID := next_batchID s,
      logTopicData := [(topic, b)], producerLogGroupSize := int64 (producerLogGroupSize s + n)\<rparr>)"
    and "attemptCount b = 0" and "maxRetryTimes b = Retries cfg" and "callBackList b = cb_list cb"
  using assms(2)
proof (cases rule: commitAppend_cases [where s = s and now = 0 and cfg = cfg and topic = topic and cb = cb])
  case (fresh b)
  with that [of b] assms(1) fresh_fields [OF assms(2) fresh(2)] show ?thesis
    by (simp add: gm_put_def gm_delete_def)
qed (use assms(1) in simp_all)

text \<open>One admitted call from a state in which nothing is open.\<close>

lemma ex_admit_batch:
  assumes "reachable ex_config 0 s" and "writer s = None" and "\<not> acc_shutDownFlag s"
    and "producerLogGroupSize s = 0" and "logTopicData s = []"
  obtains b c where "reachable ex_config 0 (s\<lparr>batchID := c, logTopicData := [(''t'', b)],
      producerLogGroupSize := 6, writer := None,
      accepted := accepted s @ [(''t'', Some 7, LogItem ex_log)]\<rparr>)"
    and "attemptCount b = 0" and "maxRetryTimes b = Retries ex_config" and "callBackList b = [7]"
proof -
  let ?w = "s\<lparr>writer := Some ((''t'', Some 7, LogItem ex_log), 6)\<rparr>"
  have "step ex_config 0 s ?w"
    using assms by (intro step.caller_check) (auto simp: in_int64_def)
  with assms(1) have w: "reachable ex_config 0 ?w" by (rule reachable_step)
  obtain b where c: "commitAppend 0 ex_config ''t'' (LogItem ex_log) (Some 7) 6 ?w = (Inr True,
      ?w\<lparr>batchID := next_batchID ?w, logTopicData := [(''t'', b)],
        producerLogGroupSize := int64 (producerLogGroupSize ?w + 6)\<rparr>)"
    and b: "attemptCount b = 0" "maxRetryTimes b = Retries ex_config" "callBackList b = [7]"
    using ex_commit [of ?w "LogItem ex_log" 6 ex_config "''t''" "Some 7"] assms(5) by auto
  from reachable_step [OF w step.caller_commit [OF _ c]] that [OF _ b] assms(4) show thesis
    by (simp add: in_int64_def)
qed

lemma ex_admit:
  assumes "reachable ex_config 0 s" and "writer s = None" and "\<not> acc_shutDownFlag s"
    and "producerLogGroupSize s = 0" and "logTopicData s = []"
  obtains b c where "reachable ex_config 0 (s\<lparr>batchID := c, logTopicData := [(''t'', b)],
      producerLogGroupSize := 6, writer := None,
      accepted := accepted s @ [(''t'', Some 7, LogItem ex_log)]\<rparr>)"
  using ex_admit_batch [OF assms] by blast

lemma ex_reachable:
  obtains s b where "reachable ex_config 0 s" and "accepted s = [(''t'', Some 7, LogItem ex_log)]"
    and "producerLogGroupSize s = 6" and "live s = {#b#}" and "resolved s = []" and "senders s = {#}"
    and "cb_trace s = []"
proof -
  obtain b c where "reachable ex_config 0 ((Start ''H'')\<lparr>batchID := c, logTopicData := [(''t'', b)],
      producerLogGroupSize := 6, writer := None,
      accepted := accepted (Start ''H'') @ [(''t'', Some 7, LogItem ex_log)]\<rparr>)"
    by (rule ex_admit [OF reachable_Start]) (simp_all add: Start_def)
  then show thesis
    by (rule that [of _ b]) (simp_all add: Start_def live_def acc_batches_def gm_values_def
        NewRetryQueue_def heap_Init_def)
qed

section \<open>The quota\<close>

text \<open>
  C1: the memory bound holds under every interleaving.  At every moment of every run the
  counter \<open>producerLogGroupSize\<close> is between 0 and the configured \<open>TotalSizeLnBytes\<close> and equals
  the charged size of exactly the logs that are still in the producer (waiting, queued, being
  sent or to be retried): no concurrent writer pushes it over, and nothing drifts.
\<close>

theorem producer_quota:
  assumes "reachable cfg ovf s" and "valid_config cfg"
  shows "0 \<le> producerLogGroupSize s \<and> producerLogGroupSize s \<le> TotalSizeLnBytes cfg \<and>
    producerLogGroupSize s = (\<Sum>b\<in>#live s. case GetLogListSize (batch_logs b) of Inr n \<Rightarrow> n | Inl e \<Rightarrow> 0)"
proof -
  note inv = reachable_inv [OF assms]
  have "accountedSize b = (case GetLogListSize (batch_logs b) of Inr n \<Rightarrow> n | Inl e \<Rightarrow> 0)"
    if "b \<in># live s" for b
    using batch_okD(1) [OF producer_invD(3) [OF inv that]] by simp
  then have "(\<Sum>b\<in>#live s. accountedSize b) =
      (\<Sum>b\<in>#live s. case GetLogListSize (batch_logs b) of Inr n \<Rightarrow> n | Inl e \<Rightarrow> 0)"
    by (intro arg_cong [where f = sum_mset] image_mset_cong)
  with quota_nonneg [OF inv] producer_invD(4,5) [OF inv] show ?thesis by simp
qed

theorem producer_quota_witness:
  "\<exists>s :: producer. accepted s = [(''t'', Some 7, LogItem ex_log)] \<and> producerLogGroupSize s = 6 \<and>
     producerLogGroupSize s \<le> TotalSizeLnBytes ex_config"
proof -
  obtain s b where "reachable ex_config 0 s" "accepted s = [(''t'', Some 7, LogItem ex_log)]"
    "producerLogGroupSize s = 6"
    by (rule ex_reachable)
  with producer_quota [of ex_config 0 s] show ?thesis by (intro exI [of _ s]) auto
qed

section \<open>Callbacks and logs\<close>

text \<open>
  C3: callbacks run exactly once.  In every reachable state the callbacks that have run are
  those of the resolved batches, one batch after the other, and together with the callbacks
  of the batches still in the producer they are exactly the callbacks of the admitted calls:
  none runs twice, none is dropped, none comes from a refused call.
\<close>

theorem callbacks_exactly_once:
  assumes "reachable cfg ovf s" and "valid_config cfg"
  shows "map cb_of (cb_trace s) = concat (map callBackList (resolved s)) \<and>
    mset (map cb_of (cb_trace s)) + (\<Sum>b\<in>#live s. mset (callBackList b)) =
      (\<Sum>(topic, cb, d)\<leftarrow>accepted s. mset (cb_list cb))"
proof -
  have m: "mset (concat (map callBackList bs)) = (\<Sum>b\<leftarrow>bs. mset (callBackList b))" for bs
    by (induction bs) simp_all
  show ?thesis
    unfolding trace_resolved [OF assms] m using cbs.conserved [OF assms] by (simp only: add.commute simp_thms)
qed

theorem callbacks_exactly_once_witness:
  "\<exists>s :: producer. accepted s = [(''t'', Some 7, LogItem ex_log)] \<and>
     (\<Sum>b\<in>#live s. mset (callBackList b)) = {#7#}"
proof -
  obtain s b where "reachable ex_config 0 s" "accepted s = [(''t'', Some 7, LogItem ex_log)]"
    "cb_trace s = []"
    by (rule ex_reachable)
  with callbacks_exactly_once [of ex_config 0 s] show ?thesis by auto
qed

text \<open>
  C2: no log is lost, invented or filed under another topic.  In every reachable state the
  logs of the batches in the producer and of the resolved batches are, topic by topic, exactly
  the logs of the admitted calls.
\<close>

theorem no_log_lost:
  assumes "reachable cfg ovf s" and "valid_config cfg"
  shows "(\<Sum>b\<in>#live s. image_mset (Pair (topicID b)) (mset (batch_logs b))) +
      (\<Sum>b\<leftarrow>resolved s. image_mset (Pair (topicID b)) (mset (batch_logs b))) =
    (\<Sum>(topic, cb, d)\<leftarrow>accepted s. image_mset (Pair topic) (mset (data_logs d)))"
  by (rule logs.conserved [OF assms])

theorem no_log_lost_witness:
  "\<exists>s :: producer. accepted s = [(''t'', Some 7, LogItem ex_log)] \<and>
     (\<Sum>b\<in>#live s. image_mset (Pair (topicID b)) (mset (batch_logs b))) = {#(''t'', ex_log)#}"
proof -
  obtain s b where "reachable ex_config 0 s" "accepted s = [(''t'', Some 7, LogItem ex_log)]"
    "resolved s = []"
    by (rule ex_reachable)
  with no_log_lost [of ex_config 0 s] show ?thesis by auto
qed

section \<open>Concurrency and attempts\<close>

text \<open>
  C27: at most \<open>MaxSendWorkerCount\<close> sends are in flight at any time, and \<open>taskCount\<close>, which
  \<open>Close\<close> waits on, counts exactly the sending goroutines and the task that waits for a slot.
\<close>

theorem send_concurrency:
  assumes "reachable cfg ovf s" and "valid_config cfg"
  shows "int (size (filter_mset (\<lambda>x. x \<noteq> Closed) (senders s))) \<le> MaxSendWorkerCount cfg \<and>
    maxSendWorker s = size (filter_mset (\<lambda>x. x \<noteq> Closed) (senders s)) \<and>
    taskCount s = int (size (senders s)) + (case pool s of P_counted b \<Rightarrow> 1 | _ \<Rightarrow> 0)"
  using reachable_slots [OF assms] by (simp add: slots_inv_def busy_def [abs_def])

theorem send_concurrency_witness:
  "\<exists>s :: producer. accepted s \<noteq> [] \<and> maxSendWorker s = 0 \<and> 0 \<le> MaxSendWorkerCount ex_config"
proof -
  obtain s b where "reachable ex_config 0 s" "accepted s = [(''t'', Some 7, LogItem ex_log)]"
    "senders s = {#}"
    by (rule ex_reachable)
  with send_concurrency [of ex_config 0 s] show ?thesis by (intro exI [of _ s]) auto
qed

section \<open>What Close does not guarantee\<close>

text \<open>
  Two runs of \<open>Close\<close> that do not depend on the logs: the timer's last pass over an empty
  producer right after the first signal, and the rest of the shutdown once the timer is done
  and nothing is queued or in flight.
\<close>

lemma timer_finishes_first:
  "reachable cfg ovf ((Start hash)\<lparr>timer_shutDownFlag := True, closer := C_sig1, timer := T_done\<rparr>)"
proof -
  let ?s = "(Start hash)\<lparr>timer_shutDownFlag := True, closer := C_sig1\<rparr>"
  have start: "retryQueue (Start hash) = []" "logTopicData (Start hash) = []"
    by (simp_all add: Start_def NewRetryQueue_def heap_Init_def)
  have "reachable cfg ovf ?s"
    by (rule reachable_step [OF reachable_Start step.close_timer]) (simp add: Start_def)
  from reachable_step [OF this step.timer_exit]
  have "reachable cfg ovf (?s\<lparr>timer := T_drain\<rparr>)" by (simp add: Start_def)
  from reachable_step [OF this step.timer_drain_open [where m = "[]"]]
  have "reachable cfg ovf (?s\<lparr>timer := T_drain_retry\<rparr>)"
    using start by (simp add: Start_def timer_drain_def)
  from reachable_step [OF this step.timer_drain_take [where bs = "[]"]]
  have "reachable cfg ovf (?s\<lparr>timer := T_drain_move []\<rparr>)"
    using start by (simp add: timer_take_retries_def getRetryBatch_def Start_def)
  from reachable_step [OF this step.timer_finish] show ?thesis by simp
qed

lemma idle_Close_returns:
  assumes "reachable cfg ovf s" and f: "closer s = C_sig1" "timer s = T_done" "pool s = P_loop"
    "tp_queue s = []" "taskCount s = 0"
  shows "reachable cfg ovf (s\<lparr>acc_shutDownFlag := True, retryQueueShutDownFlag := True,
    tp_shutDownFlag := True, pool := P_done, closer := C_nil\<rparr>)"
proof -
  let ?t = "s\<lparr>acc_shutDownFlag := True, retryQueueShutDownFlag := True, closer := C_pool\<rparr>"
  from reachable_step [OF assms(1) step.close_acc [OF f(1)]]
  have "reachable cfg ovf (s\<lparr>acc_shutDownFlag := True, closer := C_sig2\<rparr>)" .
  from reachable_step [OF this step.close_retry]
  have "reachable cfg ovf (s\<lparr>acc_shutDownFlag := True, retryQueueShutDownFlag := True, closer := C_timer\<rparr>)"
    by simp
  from reachable_step [OF this step.close_wait]
  have "reachable cfg ovf ?t" using f by simp
  from reachable_step [OF this step.pool_empty [where ?s1.0 = ?t]]
  have "reachable cfg ovf (?t\<lparr>pool := P_empty\<rparr>)" using f by (simp add: popTask_def)
  from reachable_step [OF this step.close_pool]
  have "reachable cfg ovf (?t\<lparr>pool := P_empty, tp_shutDownFlag := True, closer := C_poll\<rparr>)" by simp
  from reachable_step [OF this step.pool_break]
  have "reachable cfg ovf (?t\<lparr>tp_shutDownFlag := True, closer := C_poll, pool := P_done\<rparr>)" by simp
  from reachable_step [OF this step.close_zero]
  have "reachable cfg ovf (?t\<lparr>tp_shutDownFlag := True, pool := P_done, closer := C_zero\<rparr>)" using f by simp
  from reachable_step [OF this step.close_nil]
  show ?thesis using f by (simp add: hasTask_def)
qed

text \<open>
  C32: a clean shutdown can strand an accepted log.  The shutdown signal stops the timer
  before it stops the accumulator; a call admitted in between opens a batch after the timer's
  last pass.  The call returned no error, \<open>Close\<close> returned nil, every goroutine has ended,
  and the log's callback has not run and cannot run any more.
\<close>

theorem Close_can_strand_a_log:
  "\<exists>s. reachable ex_config 0 s \<and> closer s = C_nil \<and> timer s = T_done \<and> pool s = P_done \<and>
     senders s = {#} \<and> accepted s = [(''t'', Some 7, LogItem ex_log)] \<and> cb_trace s = [] \<and>
     live s \<noteq> {#}"
proof -
  let ?s = "(Start ''H'')\<lparr>timer_shutDownFlag := True, closer := C_sig1, timer := T_done\<rparr>"
  obtain b c where "reachable ex_config 0 (?s\<lparr>batchID := c, logTopicData := [(''t'', b)],
      producerLogGroupSize := 6, writer := None, accepted := [(''t'', Some 7, LogItem ex_log)]\<rparr>)"
    by (rule ex_admit [OF timer_finishes_first]) (simp_all add: Start_def)
  then have "reachable ex_config 0 (?s\<lparr>batchID := c, logTopicData := [(''t'', b)],
      producerLogGroupSize := 6, writer := None, accepted := [(''t'', Some 7, LogItem ex_log)],
      acc_shutDownFlag := True, retryQueueShutDownFlag := True, tp_shutDownFlag := True,
      pool := P_done, closer := C_nil\<rparr>)"
    by (rule idle_Close_returns) (simp_all add: Start_def)
  then show ?thesis
    by (intro exI conjI) (assumption, simp_all add: Start_def live_def acc_batches_def gm_values_def)
qed

end
