(* ===== verification/Producer_Close.thy ===== *)
theory Producer_Close
  imports Producer_Props
begin

text \<open>
  What \<open>Close\<close> (\<open>src/async_producer_client.go\<close>) promises when no call overlaps with it: the
  accumulator and the send queue are empty when it returns nil.  And what it does not: a send
  may still be running, and a batch may have gone to the retry queue after its last reader.
\<close>

section \<open>Shutdown without concurrent callers\<close>

inductive undisturbed :: "AsyncProducerClientConfig \<Rightarrow> int \<Rightarrow> producer \<Rightarrow> producer \<Rightarrow> bool"
  for cfg :: AsyncProducerClientConfig and ovf :: int and s0 :: producer where
  undisturbed_refl: "writer s0 = None \<Longrightarrow> undisturbed cfg ovf s0 s0"
| undisturbed_step: "undisturbed cfg ovf s0 s \<Longrightarrow> step cfg ovf s s' \<Longrightarrow> writer s' = None \<Longrightarrow>
    undisturbed cfg ovf s0 s'"

lemma undisturbed_writer: "undisturbed cfg ovf s0 s \<Longrightarrow> writer s = None"
  by (induction rule: undisturbed.induct) auto

lemma undisturbed_reachable: "undisturbed cfg ovf s0 s \<Longrightarrow> reachable cfg ovf s0 \<Longrightarrow> reachable cfg ovf s"
  by (induction rule: undisturbed.induct) (auto intro: reachable.reachable_step)

primrec final_pass :: "timer_pc \<Rightarrow> bool" where
  "final_pass T_loop = False"
| "final_pass T_retry = False"
| "final_pass (T_move bs) = False"
| "final_pass T_drain = False"
| "final_pass T_drain_retry = True"
| "final_pass (T_drain_move bs) = True"
| "final_pass T_done = True"

primrec timer_joined :: "closer_pc \<Rightarrow> bool" where
  "timer_joined C_run = False"
| "timer_joined C_sig1 = False"
| "timer_joined C_sig2 = False"
| "timer_joined C_timer = False"
| "timer_joined C_pool = True"
| "timer_joined C_poll = True"
| "timer_joined C_zero = True"
| "timer_joined C_nil = True"
| "timer_joined C_timeout = True"

text \<open>The timer leaves its loop only after \<open>Close\<close> has raised its flag.\<close>

definition timer_inv :: "producer \<Rightarrow> bool" where
  "timer_inv s \<longleftrightarrow> (timer_shutDownFlag s \<longleftrightarrow> closer s \<noteq> C_run) \<and>
     (timer s = T_drain \<or> final_pass (timer s) \<longrightarrow> timer_shutDownFlag s)"

text \<open>Once callers are quiet, nothing enters the accumulator and only the timer fills the queue.\<close>

definition closing_inv :: "producer \<Rightarrow> bool" where
  "closing_inv s \<longleftrightarrow> (final_pass (timer s) \<longrightarrow> logTopicData s = []) \<and>
     (timer_joined (closer s) \<longrightarrow> timer s = T_done) \<and> (closer s = C_nil \<longrightarrow> tp_queue s = [])"

lemmas step_unfold = addTask_def popTask_def hasTask_def timer_take_retries_def startSendTask_count_def
  startSendTask_slot_def closeSendTask_slot_def closeSendTask_count_def send_success_def release_def
  Let_def send_failed_final send_failed_retry executeFailedCallback_def timer_drain_moves move_open_def

lemma timer_inv_step:
  assumes "step cfg ovf s s'" and "timer_inv s" and "producer_inv cfg s"
  shows "timer_inv s'"
  using assms(1)
proof cases
  case (caller_commit topic cb d n now r s1)
  obtain q m c where "s1 = s\<lparr>tp_queue := q, logTopicData := m, batchID := c,
      producerLogGroupSize := int64 (producerLogGroupSize s + n)\<rparr>"
    using commitAppend_frame [OF _ caller_commit(3)] producer_invD(7) [OF assms(3) caller_commit(2)] by blast
  with caller_commit(1) assms(2) show ?thesis by (auto simp: timer_inv_def)
next
  case (timer_scan_round m now clock ms s1)
  with timer_round_frame [OF timer_scan_round(6) producer_invD(1) [OF assms(3)] timer_scan_round(5)] assms(2)
  show ?thesis by (auto simp: timer_inv_def)
qed (use assms(2) in \<open>auto simp: timer_inv_def step_unfold split: list.splits if_splits prod.splits\<close>)

lemma reachable_timer:
  assumes "reachable cfg ovf s" and "valid_config cfg"
  shows "timer_inv s"
  using assms(1)
proof (induction rule: reachable.induct)
  case (reachable_step s s')
  with timer_inv_step reachable_inv [OF reachable_step(1) assms(2)] show ?case by blast
qed (simp add: timer_inv_def Start_def)

lemma closing_inv_step:
  assumes "step cfg ovf s s'" and "closing_inv s" and "writer s = None" and "writer s' = None"
    and "producer_inv cfg s"
  shows "closing_inv s'"
  using assms(1)
proof cases
  case (timer_scan_round m now clock ms s1)
  with timer_round_frame [OF timer_scan_round(6) producer_invD(1) [OF assms(5)] timer_scan_round(5)] assms(2)
  show ?thesis by (auto simp: closing_inv_def)
qed (use assms(2-4) in \<open>auto simp: closing_inv_def step_unfold split: list.splits if_splits prod.splits\<close>)

lemma undisturbed_closing:
  assumes "undisturbed cfg ovf s0 s" and "reachable cfg ovf s0" and "valid_config cfg" and "closer s0 = C_run"
  shows "closing_inv s"
  using assms(1)
proof (induction rule: undisturbed.induct)
  case undisturbed_refl
  have "timer_inv s0" by (rule reachable_timer [OF assms(2,3)])
  with assms(4) show ?case by (auto simp: closing_inv_def timer_inv_def)
next
  case (undisturbed_step s s')
  have "producer_inv cfg s"
    by (rule reachable_inv [OF undisturbed_reachable [OF undisturbed_step(1) assms(2)] assms(3)])
  with undisturbed_step undisturbed_writer [OF undisturbed_step(1)] show ?case
    by (blast intro: closing_inv_step)
qed

lemma quiet_step_accepted:
  assumes "step cfg ovf s s'" and "writer s = None" and "producer_inv cfg s"
  shows "accepted s' = accepted s"
  using assms(1)
proof cases
  case (timer_scan_round m now clock ms s1)
  with timer_round_frame [OF timer_scan_round(6) producer_invD(1) [OF assms(3)] timer_scan_round(5)]
  show ?thesis by auto
qed (use assms(2) in \<open>auto simp: step_unfold split: list.splits if_splits prod.splits\<close>)

lemma undisturbed_accepted:
  assumes "undisturbed cfg ovf s0 s" and "reachable cfg ovf s0" and "valid_config cfg"
  shows "accepted s = accepted s0"
  using assms(1)
proof (induction rule: undisturbed.induct)
  case (undisturbed_step s s')
  have "producer_inv cfg s"
    by (rule reachable_inv [OF undisturbed_reachable [OF undisturbed_step(1) assms(2)] assms(3)])
  with quiet_step_accepted [OF undisturbed_step(2) undisturbed_writer [OF undisturbed_step(1)]]
    undisturbed_step(4) show ?case by simp
qed simp

section \<open>What Close guarantees\<close>

text \<open>What is left in the producer when the accumulator, the queue and the timer are empty.\<close>

definition in_flight :: "producer \<Rightarrow> ProducerBatch multiset" where
  "in_flight s = mset (retryQueue s) + pool_holds (pool s) + (\<Sum>x\<in>#senders s. sender_holds x)"

text \<open>
  C6: what a nil from \<open>Close\<close> means.  If no call overlaps with \<open>Close\<close>, then when it returns
  nil the accumulator, the timer and the send queue are empty, and every callback of every
  call ever admitted has run, except those of batches in flight: in the hands of the pool, in
  a sending goroutine or in the retry queue.
\<close>

theorem Close_nil_guarantees:
  assumes "reachable cfg ovf s0" and "valid_config cfg" and "closer s0 = C_run"
    and "undisturbed cfg ovf s0 s" and "closer s = C_nil"
  shows "logTopicData s = [] \<and> tp_queue s = [] \<and> timer s = T_done \<and> live s = in_flight s \<and>
    mset (map cb_of (cb_trace s)) + (\<Sum>b\<in>#in_flight s. mset (callBackList b)) =
      (\<Sum>(topic, cb, d)\<leftarrow>accepted s0. mset (cb_list cb))"
proof -
  have empty: "logTopicData s = []" "tp_queue s = []" "timer s = T_done"
    using undisturbed_closing [OF assms(4,1,2,3)] assms(5) by (auto simp: closing_inv_def)
  then have left: "live s = in_flight s" by (simp add: live_def in_flight_def acc_batches_def)
  have r: "reachable cfg ovf s" by (rule undisturbed_reachable [OF assms(4,1)])
  have "mset (concat (map callBackList bs)) = (\<Sum>b\<leftarrow>bs. mset (callBackList b))" for bs
    by (induction bs) simp_all
  then have "mset (map cb_of (cb_trace s)) = (\<Sum>b\<leftarrow>resolved s. mset (callBackList b))"
    by (simp only: trace_resolved [OF r assms(2)])
  with empty left cbs.conserved [OF r assms(2)] undisturbed_accepted [OF assms(4,1,2)] show ?thesis
    by (simp add: ac_simps)
qed

section \<open>Two shutdowns that lose a batch\<close>

lemma undisturbed_trans:
  "undisturbed cfg ovf s1 s2 \<Longrightarrow> undisturbed cfg ovf s0 s1 \<Longrightarrow> undisturbed cfg ovf s0 s2"
  by (induction rule: undisturbed.induct) (auto intro: undisturbed_step)

text \<open>
  Three stretches of a shutdown: the timer hands the open batch over, the pool starts a send,
  and the timer ends and \<open>Close\<close> reaches its polling loop.
\<close>

lemma run_drain_open:
  assumes "closer s = C_run" and "timer s = T_loop" and "writer s = None"
    and "logTopicData s = [(k, b)]" and "tp_queue s = []"
  shows "undisturbed cfg ovf s (s\<lparr>timer_shutDownFlag := True, closer := C_sig1, tp_queue := [b],
    logTopicData := [], timer := T_drain_retry\<rparr>)"
proof -
  let ?r = "undisturbed cfg ovf s" and ?s1 = "s\<lparr>timer_shutDownFlag := True, closer := C_sig1\<rparr>"
  have "?r ?s1" using undisturbed_step [OF undisturbed_refl step.close_timer] assms by simp
  from undisturbed_step [OF this step.timer_exit]
  have "?r (?s1\<lparr>timer := T_drain\<rparr>)" using assms by simp
  from undisturbed_step [OF this step.timer_drain_open [where m = "[(k, b)]"]]
  show ?thesis using assms by (simp add: timer_drain_moves move_open_def)
qed

lemma run_start_send:
  assumes "pool s = P_loop" and "tp_queue s = [b]" and "writer s = None"
    and "taskCount s = 0" and "maxSendWorker s = 0" and "senders s = {#}" and "0 < MaxSendWorkerCount cfg"
  shows "undisturbed cfg ovf s (s\<lparr>tp_queue := [], taskCount := 1, maxSendWorker := 1, pool := P_loop,
    senders := {#Sending b#}\<rparr>)"
proof -
  let ?r = "undisturbed cfg ovf s" and ?s1 = "s\<lparr>tp_queue := []\<rparr>"
  from undisturbed_step [OF undisturbed_refl step.pool_pop [where b = b and ?s1.0 = ?s1]]
  have "?r (?s1\<lparr>pool := P_hold b\<rparr>)" using assms by (simp add: popTask_def)
  from undisturbed_step [OF this step.pool_count [where b = b]]
  have "?r (?s1\<lparr>taskCount := 1, pool := P_counted b\<rparr>)"
    using assms by (simp add: startSendTask_count_def)
  from undisturbed_step [OF this step.pool_start [where b = b]]
  show ?thesis using assms by (simp add: startSendTask_slot_def)
qed

lemma run_to_poll:
  assumes "closer s = C_sig1" and "timer s = T_drain_retry" and "writer s = None" and "retryQueue s = []"
    and "timer_shutDownFlag s"
  shows "undisturbed cfg ovf s (s\<lparr>timer := T_done, acc_shutDownFlag := True,
    retryQueueShutDownFlag := True, tp_shutDownFlag := True, closer := C_poll\<rparr>)"
proof -
  let ?r = "undisturbed cfg ovf s"
  from undisturbed_step [OF undisturbed_refl step.timer_drain_take [where bs = "[]" and ?s1.0 = s]]
  have "?r (s\<lparr>timer := T_drain_move []\<rparr>)"
    using assms by (simp add: timer_take_retries_def getRetryBatch_def)
  from undisturbed_step [OF this step.timer_finish]
  have "?r (s\<lparr>timer := T_done\<rparr>)" using assms by simp
  from undisturbed_step [OF this step.close_acc]
  have "?r (s\<lparr>timer := T_done, acc_shutDownFlag := True, closer := C_sig2\<rparr>)" using assms by simp
  from undisturbed_step [OF this step.close_retry]
  have "?r (s\<lparr>timer := T_done, acc_shutDownFlag := True, retryQueueShutDownFlag := True, closer := C_timer\<rparr>)"
    using assms by simp
  from undisturbed_step [OF this step.close_wait]
  have "?r (s\<lparr>timer := T_done, acc_shutDownFlag := True, retryQueueShutDownFlag := True, closer := C_pool\<rparr>)"
    using assms by simp
  from undisturbed_step [OF this step.close_pool] show ?thesis using assms by simp
qed

text \<open>The start: one call was admitted and returned, and \<open>Close\<close> has not been called yet.\<close>

lemma ex_before_Close:
  obtains s b where "reachable ex_config 0 s" and "closer s = C_run" and "timer s = T_loop"
    and "writer s = None" and "logTopicData s = [(''t'', b)]" and "tp_queue s = []" and "pool s = P_loop"
    and "taskCount s = 0" and "maxSendWorker s = 0" and "senders s = {#}" and "retryQueue s = []"
    and "cb_trace s = []" and "\<not> retryQueueShutDownFlag s"
    and "attemptCount b = 0" and "maxRetryTimes b = Retries ex_config" and "callBackList b = [7]"
    and "accepted s = [(''t'', Some 7, LogItem ex_log)]"
proof -
  obtain b c where "reachable ex_config 0 ((Start ''H'')\<lparr>batchID := c, logTopicData := [(''t'', b)],
      producerLogGroupSize := 6, writer := None,
      accepted := accepted (Start ''H'') @ [(''t'', Some 7, LogItem ex_log)]\<rparr>)"
    "attemptCount b = 0" "maxRetryTimes b = Retries ex_config" "callBackList b = [7]"
    by (rule ex_admit_batch [OF reachable_Start]) (simp_all add: Start_def)
  then show thesis
    by (intro that [of _ b]) (assumption, simp_all add: Start_def NewRetryQueue_def heap_Init_def)
qed

lemma shutdown_exI:
  "reachable cfg ovf s0 \<Longrightarrow> closer s0 = C_run \<Longrightarrow> undisturbed cfg ovf s0 s \<Longrightarrow> P s \<Longrightarrow>
   \<exists>s0 s. reachable cfg ovf s0 \<and> closer s0 = C_run \<and> undisturbed cfg ovf s0 s \<and> P s"
  by blast

lemma ex_config_limits [simp]: "0 < MaxSendWorkerCount ex_config" "0 < Retries ex_config"
  by (simp_all add: ex_config_def GetDefaultAsyncProducerClientConfig_def)

text \<open>
  A shutdown in which the pool takes the last batch between the two reads of \<open>Close\<close>.
\<close>

lemma ex_returns_early:
  obtains s0 s b where "reachable ex_config 0 s0" and "closer s0 = C_run" and "undisturbed ex_config 0 s0 s"
    and "closer s = C_nil" and "taskCount s = 1" and "cb_trace s = []" and "senders s = {#Sending b#}"
    and "callBackList b = [7]" and "accepted s0 = [(''t'', Some 7, LogItem ex_log)]"
proof -
  obtain s b where r: "reachable ex_config 0 s" and f: "closer s = C_run" "timer s = T_loop"
    "writer s = None" "logTopicData s = [(''t'', b)]" "tp_queue s = []" "pool s = P_loop"
    "taskCount s = 0" "maxSendWorker s = 0" "senders s = {#}" "retryQueue s = []" "cb_trace s = []"
    and cb: "callBackList b = [7]" "accepted s = [(''t'', Some 7, LogItem ex_log)]"
    by (rule ex_before_Close)
  let ?r = "undisturbed ex_config 0 s"
  have "?r (s\<lparr>timer_shutDownFlag := True, closer := C_sig1, tp_queue := [b], logTopicData := [],
      timer := T_drain_retry\<rparr>)" (is "undisturbed _ _ _ ?s1")
    by (rule run_drain_open [OF f(1-5)])
  from undisturbed_trans [OF run_to_poll this]
  have "?r (?s1\<lparr>timer := T_done, acc_shutDownFlag := True, retryQueueShutDownFlag := True,
      tp_shutDownFlag := True, closer := C_poll\<rparr>)" (is "undisturbed _ _ _ ?s2") using f by simp
  from undisturbed_step [OF this step.close_zero]
  have "?r (?s2\<lparr>closer := C_zero\<rparr>)" (is "undisturbed _ _ _ ?s3") using f by simp
  from undisturbed_trans [OF run_start_send this]
  have "?r (?s3\<lparr>tp_queue := [], taskCount := 1, maxSendWorker := 1, pool := P_loop,
      senders := {#Sending b#}\<rparr>)" (is "undisturbed _ _ _ ?s4") using f by simp
  from undisturbed_step [OF this step.close_nil]
  have "?r (?s4\<lparr>closer := C_nil\<rparr>)" using f by (simp add: hasTask_def)
  then show thesis by (rule that [OF r f(1) _ _ _ _ _ cb(1) cb(2)]) (use f in simp_all)
qed

theorem Close_nil_guarantees_witness:
  "\<exists>s :: producer. closer s = C_nil \<and> logTopicData s = [] \<and> tp_queue s = [] \<and>
     (\<Sum>b\<in>#in_flight s. mset (callBackList b)) = {#7#}"
proof -
  obtain s0 s where "reachable ex_config 0 s0" "closer s0 = C_run" "undisturbed ex_config 0 s0 s"
    "closer s = C_nil" "cb_trace s = []" "accepted s0 = [(''t'', Some 7, LogItem ex_log)]"
    by (rule ex_returns_early)
  with Close_nil_guarantees [of ex_config 0 s0 s] show ?thesis by (intro exI [of _ s]) auto
qed

text \<open>
  \<open>Close\<close> can return nil although a send is still running: it reads \<open>taskCount\<close> and the
  queue one after the other, and the pool can take the last batch out of the queue and start
  its send in between.  No call overlaps with the shutdown.
\<close>

theorem Close_returns_during_send:
  "\<exists>s0 s. reachable ex_config 0 s0 \<and> closer s0 = C_run \<and> undisturbed ex_config 0 s0 s \<and>
     closer s = C_nil \<and> taskCount s = 1 \<and> cb_trace s = [] \<and>
     (\<exists>b. senders s = {#Sending b#} \<and> callBackList b = [7])"
  by (rule ex_returns_early) blast

text \<open>
  \<open>Close\<close> can return nil and leave a batch in the retry queue for ever.  A failing send
  reads the shutdown flag of the retry queue before \<open>Close\<close> sets it and puts its batch there
  after the timer's final pass.  Every goroutine has ended, the callback has not run and
  cannot run any more, and no call overlapped with the shutdown.
\<close>

theorem Close_strands_a_retry:
  "\<exists>s0 s. reachable ex_config 0 s0 \<and> closer s0 = C_run \<and> undisturbed ex_config 0 s0 s \<and>
     closer s = C_nil \<and> timer s = T_done \<and> pool s = P_done \<and> senders s = {#} \<and> cb_trace s = [] \<and>
     (\<exists>b. mset (retryQueue s) = {#b#} \<and> callBackList b = [7])"
proof -
  obtain s b where r: "reachable ex_config 0 s" and f: "closer s = C_run" "timer s = T_loop"
    "writer s = None" "logTopicData s = [(''t'', b)]" "tp_queue s = []" "pool s = P_loop"
    "taskCount s = 0" "maxSendWorker s = 0" "senders s = {#}" "retryQueue s = []" "cb_trace s = []"
    "\<not> retryQueueShutDownFlag s"
    and b: "attemptCount b = 0" "maxRetryTimes b = Retries ex_config" "callBackList b = [7]"
    by (rule ex_before_Close)
  let ?r = "undisturbed ex_config 0 s" and ?e = "ex_err 500"
  let ?b = "retried 0 0 0 ?e b"
  have w: "will_retry False ?e b" using b by (simp add: will_retry_def permanent_def ex_err_def)
  obtain q where q: "sendToRetryQueue (Some ?b) [] = q" "mset q = {#?b#}"
    using sendToRetryQueue_ok [of "[]" ?b] by (auto simp: heap_upto_def)
  have "?r (s\<lparr>timer_shutDownFlag := True, closer := C_sig1, tp_queue := [b], logTopicData := [],
      timer := T_drain_retry\<rparr>)" (is "undisturbed _ _ _ ?s1")
    by (rule run_drain_open [OF f(1-5)])
  from undisturbed_trans [OF run_start_send this]
  have "?r (?s1\<lparr>tp_queue := [], taskCount := 1, maxSendWorker := 1, pool := P_loop,
      senders := {#Sending b#}\<rparr>)" (is "undisturbed _ _ _ ?s2") using f by simp
  from undisturbed_step [OF this step.send_err [where b = b and S = "{#}" and err = ?e]]
  have "?r (?s2\<lparr>senders := {#Failed b ?e False#}\<rparr>)" (is "undisturbed _ _ _ ?s3") using f by simp
  from undisturbed_trans [OF run_to_poll this]
  have "?r (?s3\<lparr>timer := T_done, acc_shutDownFlag := True, retryQueueShutDownFlag := True,
      tp_shutDownFlag := True, closer := C_poll\<rparr>)" (is "undisturbed _ _ _ ?s4") using f by simp
  from undisturbed_step [OF this step.send_retry [where b = b and S = "{#}" and err = ?e and ?t1.0 = 0
        and ?t2.0 = 0 and shut = False, OF _ w]]
  have "?r (?s4\<lparr>retryQueue := q, senders := {#Closing#}\<rparr>)" (is "undisturbed _ _ _ ?s5")
    using f q(1) by (simp add: send_failed_retry [OF w])
  from undisturbed_step [OF this step.sender_slot [where S = "{#}"]]
  have "?r (?s5\<lparr>maxSendWorker := 0, senders := {#Closed#}\<rparr>)" (is "undisturbed _ _ _ ?s6")
    by (simp add: closeSendTask_slot_def f)
  from undisturbed_step [OF this step.sender_count [where S = "{#}"]]
  have "?r (?s6\<lparr>taskCount := 0, senders := {#}\<rparr>)" (is "undisturbed _ _ _ ?s7")
    by (simp add: closeSendTask_count_def f)
  from undisturbed_step [OF this step.pool_empty [where ?s1.0 = ?s7]]
  have "?r (?s7\<lparr>pool := P_empty\<rparr>)" (is "undisturbed _ _ _ ?s8") by (simp add: popTask_def f)
  from undisturbed_step [OF this step.pool_break]
  have "?r (?s8\<lparr>pool := P_done\<rparr>)" (is "undisturbed _ _ _ ?s9") by (simp add: f)
  from undisturbed_step [OF this step.close_zero]
  have "?r (?s9\<lparr>closer := C_zero\<rparr>)" (is "undisturbed _ _ _ ?s10") by (simp add: f)
  from undisturbed_step [OF this step.close_nil]
  have "?r (?s10\<lparr>closer := C_nil\<rparr>)" by (simp add: hasTask_def f)
  then show ?thesis by (rule shutdown_exI [OF r f(1)]) (use q b f in simp)
qed

end
