(* ===== verification/Producer_Spec.thy ===== *)
theory Producer_Spec
  imports Producer_Props
begin

text \<open>
  The contract of the asynchronous producer as an abstract machine: a store of bounded size
  into which calls are admitted and from which the logs of one topic leave together, running
  their callbacks.  It has no batches, queues, timers, retries or goroutines; the running
  producer is shown to implement it step by step.
\<close>

section \<open>The abstract machine\<close>

record store =
  pending_logs :: "(string \<times> Log ptr) multiset"
  pending_cbs :: "CallBack multiset"
  in_use :: int
  ran :: "CallBack list"

definition empty_store :: store where
  "empty_store = \<lparr>pending_logs = {#}, pending_cbs = {#}, in_use = 0, ran = []\<rparr>"

text \<open>
  \<open>admit\<close> takes a call with all its logs and its callback, never past the capacity;
  \<open>discharge\<close> lets some logs of one topic go, gives back exactly their size, and runs
  callbacks that have not run yet.
\<close>

inductive spec_step :: "int \<Rightarrow> store \<Rightarrow> store \<Rightarrow> bool" for cap :: int where
  admit: "data_size d = Inr n \<Longrightarrow> in_use a + n \<le> cap \<Longrightarrow>
    a' = a\<lparr>pending_logs := pending_logs a + image_mset (Pair topic) (mset (data_logs d)),
      pending_cbs := pending_cbs a + mset (cb_list cb), in_use := in_use a + n\<rparr> \<Longrightarrow>
    spec_step cap a a'"
| discharge: "pending_logs a = pending_logs a' + image_mset (Pair topic) (mset ls) \<Longrightarrow>
    pending_cbs a = pending_cbs a' + mset cs \<Longrightarrow> GetLogListSize ls = Inr n \<Longrightarrow>
    in_use a' = in_use a - n \<Longrightarrow> ran a' = ran a @ cs \<Longrightarrow> spec_step cap a a'"

inductive_cases spec_stepE: "spec_step cap a a'"

text \<open>What the machine guarantees by itself: the capacity, and no callback that runs twice.\<close>

lemma spec_step_capacity: "spec_step cap a a' \<Longrightarrow> in_use a \<le> cap \<Longrightarrow> in_use a' \<le> cap"
  by (erule spec_stepE) (auto dest: GetLogListSize_nonneg)

lemma spec_step_ran: "spec_step cap a a' \<Longrightarrow> \<exists>cs. ran a' = ran a @ cs \<and> mset cs \<subseteq># pending_cbs a"
  by (erule spec_stepE) auto

section \<open>The producer implements it\<close>

definition producer_abs :: "producer \<Rightarrow> store" where
  "producer_abs s =
     \<lparr>pending_logs = (\<Sum>b\<in>#live s. image_mset (Pair (topicID b)) (mset (batch_logs b))),
      pending_cbs = (\<Sum>b\<in>#live s. mset (callBackList b)),
      in_use = producerLogGroupSize s, ran = map cb_of (cb_trace s)\<rparr>"

context batch_measure begin

lemma sum_commit:
  assumes "producer_inv cfg s" and "writer s = Some ((topic, cb, d), n)"
    and "commitAppend now cfg topic d cb n s = (r, s1)"
    and "s' = s1\<lparr>writer := None, accepted := accepted s1 @ [(topic, cb, d)]\<rparr>"
  shows "(\<Sum>b\<in>#live s'. f b) = (\<Sum>b\<in>#live s. f b) + weight topic cb d"
proof -
  have d: "data_size d = Inr n" using producer_invD(7) [OF assms(1,2)] by blast
  obtain R where "live s = acc_batches s + R" "live s' = acc_batches s1 + R"
    by (rule commit_live [OF d assms(3,4)])
  with sum_commitAppend [OF producer_invD(1) [OF assms(1)] d commit_open_charge [OF assms(1,2)] assms(3)]
  show ?thesis by (simp add: ac_simps)
qed

end

lemma effect_simulates:
  assumes "effect cfg s s'" and "producer_inv cfg s"
  shows "producer_abs s' = producer_abs s \<or> spec_step (TotalSizeLnBytes cfg) (producer_abs s) (producer_abs s')"
  using assms(1)
proof cases
  case (check topic cb d n)
  then show ?thesis by (simp add: producer_abs_def live_simps)
next
  case (commit topic cb d n now r s1)
  note w = producer_invD(7) [OF assms(2) commit(1)]
  obtain R where "producerLogGroupSize s' = producerLogGroupSize s + n" "cb_trace s' = cb_trace s"
    using commit_live [OF _ commit(3,4)] w commit_quota(1) [OF assms(2) commit(1)] by metis
  then show ?thesis
    using w cbs.sum_commit [OF assms(2) commit(1,3,4)] logs.sum_commit [OF assms(2) commit(1,3,4)]
    by (intro disjI2 spec_step.admit [where d = d and n = n and topic = topic and cb = cb]) (simp_all add: producer_abs_def)
next
  case (retry b M ovf t1 t2 err shut)
  then show ?thesis
    by (simp add: producer_abs_def cbs.f_retried logs.f_retried)
next
  case (resolve b)
  have b: "b \<in># live s" using resolve by simp
  show ?thesis
    using resolve release_quota [OF assms(2) b] batch_okD(1) [OF producer_invD(3) [OF assms(2) b]]
    by (intro disjI2 spec_step.discharge [where topic = "topicID b" and ls = "batch_logs b" and cs = "callBackList b" and n = "accountedSize b"])
      (simp_all add: producer_abs_def ac_simps)
qed (simp add: producer_abs_def)

lemma Start_abs: "producer_abs (Start hash) = empty_store"
  by (simp add: producer_abs_def empty_store_def Start_def live_def acc_batches_def NewRetryQueue_def
      heap_Init_def)

interpretation prod: simulation "\<lambda>s. valid_config cfg \<and> (\<exists>hash. s = Start hash)" "step cfg ovf"
    "\<lambda>s. valid_config cfg \<and> producer_inv cfg s" producer_abs "\<lambda>a. a = empty_store"
    "spec_step (TotalSizeLnBytes cfg)"
proof unfold_locales
  fix s s'
  assume "valid_config cfg \<and> producer_inv cfg s" "step cfg ovf s s'"
  then show "producer_abs s' = producer_abs s \<or>
      spec_step (TotalSizeLnBytes cfg) (producer_abs s) (producer_abs s')"
    using step_inv(2) effect_simulates by blast
qed (auto intro: Start_inv step_inv(1) simp: Start_abs)

lemma reachable_run: "reachable cfg ovf s \<Longrightarrow> \<exists>hash. (step cfg ovf)\<^sup>*\<^sup>* (Start hash) s"
  by (induction rule: reachable.induct) (auto intro: rtranclp.rtrancl_into_rtrancl)

text \<open>
  C5: the asynchronous producer refines the abstract store.  Whatever its goroutines do, every
  state it reaches is, seen through \<open>producer_abs\<close>, one that the store reaches from empty, and
  every step from there is invisible or a step of the store: a call admitted with all its logs
  within \<open>TotalSizeLnBytes\<close>, or logs of one topic that leave with their size given back and
  their callbacks run.
\<close>

theorem producer_refines_store:
  assumes "reachable cfg ovf s" and "valid_config cfg"
  shows "(spec_step (TotalSizeLnBytes cfg))\<^sup>*\<^sup>* empty_store (producer_abs s) \<and>
    (\<forall>s'. step cfg ovf s s' \<longrightarrow> producer_abs s' = producer_abs s \<or>
       spec_step (TotalSizeLnBytes cfg) (producer_abs s) (producer_abs s'))"
proof -
  obtain hash where run: "(step cfg ovf)\<^sup>*\<^sup>* (Start hash) s" using reachable_run [OF assms(1)] by blast
  have inv: "valid_config cfg \<and> producer_inv cfg s" using reachable_inv [OF assms] assms(2) by blast
  show ?thesis
    using prod.reach_abs [OF _ run] prod.step_abs [OF inv] assms(2) by blast
qed

theorem producer_refines_store_witness:
  "\<exists>s :: producer. accepted s = [(''t'', Some 7, LogItem ex_log)] \<and>
     (spec_step (TotalSizeLnBytes ex_config))\<^sup>*\<^sup>* empty_store (producer_abs s) \<and>
     in_use (producer_abs s) = 6"
proof -
  obtain s b where "reachable ex_config 0 s" "accepted s = [(''t'', Some 7, LogItem ex_log)]"
    "producerLogGroupSize s = 6"
    by (rule ex_reachable)
  with producer_refines_store [of ex_config 0 s] show ?thesis
    by (intro exI [of _ s]) (auto simp: producer_abs_def)
qed

end
