(* ===== verification/Package_Ids.thy ===== *)
theory Package_Ids
  imports Producer_Props
begin

text \<open>
  Package ids: every batch the producer ever makes has its own.  The id is the producer's hash
  and a counter in hexadecimal (\<open>generatePackageId\<close>); the text determines the counter, and the
  counter moves with every batch that is opened.
\<close>

section \<open>The text determines the counter\<close>

definition hex_val :: "char \<Rightarrow> nat" where
  "hex_val c = (if (of_char c :: nat) < 58 then of_char c - 48 else of_char c - 55)"

definition read_hex :: "string \<Rightarrow> nat" where
  "read_hex s = foldl (\<lambda>a c. a * 16 + hex_val c) 0 s"

lemma hex_val_table:
  "map (\<lambda>c. hex_val (ToUpper_char c)) ''0123456789abcdef'' = [0, 1, 2, 3, 4, 5, 6, 7, 8, 9, 10, 11, 12, 13, 14, 15]"
  by (simp add: hex_val_def ToUpper_char_def Let_def)

lemma hex_val_digit: "d < 16 \<Longrightarrow> hex_val (ToUpper_char (hex_digit d)) = d"
proof -
  assume d: "d < 16"
  have "[0, 1, 2, 3, 4, 5, 6, 7, 8, 9, 10, 11, 12, 13, 14, 15] = [0..<16]" by (simp add: upt_rec)
  with d show ?thesis
    using arg_cong [OF hex_val_table, of "\<lambda>xs. xs ! d"] by (simp add: hex_digit_def del: list.map)
qed

lemma read_hex_digits: "read_hex (map ToUpper_char (hex_digits n)) = n"
proof (induction n rule: hex_digits.induct)
  case (1 n)
  then show ?case
    by (subst hex_digits.simps) (simp add: read_hex_def hex_val_digit)
qed

lemma read_hex_zeros: "read_hex (map ToUpper_char (replicate k (CHR ''0'') @ s)) = read_hex (map ToUpper_char s)"
proof (induction k)
  case (Suc k)
  have "hex_val (ToUpper_char (CHR ''0'')) = 0" by (simp add: hex_val_def ToUpper_char_def)
  with Suc show ?case by (simp add: read_hex_def)
qed simp

lemma package_id_inj: "package_id h m = package_id h n \<Longrightarrow> m = n"
  unfolding package_id_def ToUpper_def pad_left_def
  by (metis map_append read_hex_digits read_hex_zeros same_append_eq)

section \<open>The ids handed out\<close>

text \<open>What an admitted call does to the ids: none, or one more, the next of the counter.\<close>

lemma commitAppend_ids:
  assumes "acc_wf s" and "data_size d = Inr n" and "commitAppend now cfg topic d cb n s = (r, s')"
  shows "producerHash s' = producerHash s \<and>
    (batchID s' = batchID s \<and> image_mset packageID (acc_batches s') = image_mset packageID (acc_batches s) \<or>
     batchID s' = next_batchID s \<and>
       image_mset packageID (acc_batches s') = add_mset (next_pid s) (image_mset packageID (acc_batches s)))"
  using assms(2)
proof (cases rule: commitAppend_cases [where s = s and now = now and cfg = cfg and topic = topic and cb = cb])
  case (fresh b)
  with assms fresh_fields(7) [OF assms(2) fresh(2)] show ?thesis
    by (auto simp: acc_batches_def gm_delete_absent)
next
  case (send b t)
  with assms gm_values_delete [OF acc_wfD(1) [OF assms(1)] send(1)] show ?thesis
    by (auto simp: acc_batches_def)
next
  case (keep b t)
  with assms gm_values_delete [OF acc_wfD(1) [OF assms(1)] keep(1)] show ?thesis
    by (auto simp: acc_batches_def)
next
  case (replace b t b')
  have "gm_delete topic (gm_delete topic (logTopicData s)) = gm_delete topic (logTopicData s)"
    by (simp add: gm_delete_absent)
  with replace assms gm_values_delete [OF acc_wfD(1) [OF assms(1)] replace(1)]
    fresh_fields(7) [OF assms(2) replace(3)] show ?thesis
    by (auto simp: acc_batches_def)
qed

definition all_ids :: "producer \<Rightarrow> string multiset" where
  "all_ids s = image_mset packageID (live s) + mset (map packageID (resolved s))"

lemma effect_ids:
  assumes "effect cfg s s'" and "producer_inv cfg s"
  shows "all_ids s' = all_ids s \<or>
    all_ids s' = add_mset (next_pid s) (all_ids s) \<and> length (accepted s') = Suc (length (accepted s))"
  using assms(1)
proof cases
  case (commit topic cb d n now r s1)
  have d: "data_size d = Inr n" using producer_invD(7) [OF assms(2) commit(1)] by blast
  obtain R where "live s = acc_batches s + R" "live s' = acc_batches s1 + R" "resolved s' = resolved s"
    "accepted s' = accepted s @ [(topic, cb, d)]"
    by (rule commit_live [OF d commit(3,4)])
  with commitAppend_ids [OF producer_invD(1) [OF assms(2)] d commit(3)] show ?thesis
    by (auto simp: all_ids_def)
next
  case (retry b M ovf t1 t2 err shut)
  have "packageID (retried ovf t1 t2 err b) = packageID b"
    by (simp add: scheduleRetry_def addErrorMessageToBatchAttempt_def Let_def)
  with retry show ?thesis by (simp add: all_ids_def)
qed (simp_all add: all_ids_def live_simps)

text \<open>The counter and the hash move only when a call commits.\<close>

lemma step_counter:
  assumes "step cfg ovf s s'" and "producer_inv cfg s"
  shows "producerHash s' = producerHash s \<and>
    (batchID s' = batchID s \<and> all_ids s' = all_ids s \<and> length (accepted s) \<le> length (accepted s') \<or>
     batchID s' = next_batchID s \<and> all_ids s' = add_mset (next_pid s) (all_ids s) \<and>
       length (accepted s') = Suc (length (accepted s)))"
proof (cases "\<exists>topic cb d n now r s1. writer s = Some ((topic, cb, d), n) \<and>
    commitAppend now cfg topic d cb n s = (r, s1) \<and>
    s' = s1\<lparr>writer := None, accepted := accepted s1 @ [(topic, cb, d)]\<rparr>")
  case True
  then obtain topic cb d n now r s1 where c: "writer s = Some ((topic, cb, d), n)"
    "commitAppend now cfg topic d cb n s = (r, s1)"
    "s' = s1\<lparr>writer := None, accepted := accepted s1 @ [(topic, cb, d)]\<rparr>" by blast
  have d: "data_size d = Inr n" using producer_invD(7) [OF assms(2) c(1)] by blast
  obtain R where "live s = acc_batches s + R" "live s' = acc_batches s1 + R" "resolved s' = resolved s"
    "accepted s' = accepted s @ [(topic, cb, d)]"
    by (rule commit_live [OF d c(2,3)])
  with commitAppend_ids [OF producer_invD(1) [OF assms(2)] d c(2)] c(3) show ?thesis
    by (auto simp: all_ids_def)
next
  case False
  have keep: "batchID s' = batchID s \<and> producerHash s' = producerHash s \<and> accepted s' = accepted s"
    using assms(1)
  proof cases
    case (caller_commit topic cb d n now r s1)
    with False show ?thesis by blast
  next
    case (timer_scan_round m now clock ms s1)
    with timer_round_frame [OF timer_scan_round(6) producer_invD(1) [OF assms(2)] timer_scan_round(5)]
    show ?thesis by auto
  next
    case (timer_drain_open m)
    with timer_drain_frame [OF producer_invD(1) [OF assms(2)] timer_drain_open(4)] show ?thesis by auto
  qed (auto simp: addTask_def popTask_def timer_take_retries_def startSendTask_count_def
      startSendTask_slot_def closeSendTask_slot_def closeSendTask_count_def send_success_def release_def
      Let_def send_failed_final send_failed_retry executeFailedCallback_def
      split: list.splits if_splits prod.splits)
  moreover have "all_ids s' = all_ids s"
  proof -
    have "effect cfg s s'"
      using step_effect [OF assms(1) producer_invD(1,2) [OF assms(2)]] producer_invD(7) [OF assms(2)] by blast
    from effect_ids [OF this assms(2)] keep show ?thesis by simp
  qed
  ultimately show ?thesis by simp
qed

section \<open>Every batch has its own id\<close>

definition ids_inv :: "producer \<Rightarrow> bool" where
  "ids_inv s \<longleftrightarrow> 0 \<le> batchID s \<and> batchID s \<le> int (length (accepted s)) \<and>
     (\<exists>ns. distinct ns \<and> (\<forall>n\<in>set ns. int n \<le> batchID s) \<and>
       all_ids s = mset (map (package_id (producerHash s)) ns))"

lemma ids_inv_step:
  assumes "step cfg ovf s s'" and "producer_inv cfg s" and "ids_inv s"
    and "int (length (accepted s')) < 9223372036854775807"
  shows "ids_inv s'"
proof -
  obtain ns where ns: "distinct ns" "\<forall>n\<in>set ns. int n \<le> batchID s"
    "all_ids s = mset (map (package_id (producerHash s)) ns)"
    and c: "0 \<le> batchID s" "batchID s \<le> int (length (accepted s))"
    using assms(3) by (auto simp: ids_inv_def)
  from step_counter [OF assms(1,2)] show ?thesis
  proof (elim conjE disjE)
    assume "producerHash s' = producerHash s" "batchID s' = batchID s" "all_ids s' = all_ids s"
      "length (accepted s) \<le> length (accepted s')"
    with ns c show ?thesis by (auto simp: ids_inv_def)
  next
    assume s': "producerHash s' = producerHash s" "batchID s' = next_batchID s"
      "all_ids s' = add_mset (next_pid s) (all_ids s)" "length (accepted s') = Suc (length (accepted s))"
    have lt: "batchID s < 9223372036854775807" using c(2) assms(4) s'(4) by linarith
    then have next_ids: "next_batchID s = batchID s + 1" "next_pid s = package_id (producerHash s) (nat (batchID s + 1))"
      using c(1) by (simp_all add: generatePackageId_def Let_def in_int64_def)
    let ?ns = "nat (batchID s + 1) # ns"
    have "nat (batchID s + 1) \<notin> set ns"
      using c(1) ns(2) [rule_format, of "nat (batchID s + 1)"] by auto
    then have "distinct ?ns" using ns(1) by simp
    moreover have "\<forall>n\<in>set ?ns. int n \<le> batchID s + 1" using ns(2) c(1) by auto
    ultimately have "distinct ?ns" "\<forall>n\<in>set ?ns. int n \<le> batchID s + 1" by blast+
    with s' next_ids ns(3) c show ?thesis
      by (auto simp: ids_inv_def intro!: exI [of _ ?ns])
  qed
qed

lemma reachable_ids:
  assumes "reachable cfg ovf s" and "valid_config cfg" and "int (length (accepted s)) < 9223372036854775807"
  shows "ids_inv s"
  using assms(1,3)
proof (induction rule: reachable.induct)
  case (reachable_Start hash)
  show ?case
    by (auto simp: ids_inv_def all_ids_def Start_def live_def acc_batches_def NewRetryQueue_def heap_Init_def
        intro!: exI [of _ "[]"])
next
  case (reachable_step s s')
  note inv = reachable_inv [OF reachable_step(1) assms(2)]
  have "length (accepted s) \<le> length (accepted s')" using step_counter [OF reachable_step(2) inv] by auto
  with reachable_step ids_inv_step [OF reachable_step(2) inv] show ?case by simp
qed

text \<open>
  C4: package ids are unique.  As long as fewer than \<open>2 ^ 63 - 1\<close> calls have been admitted, no
  two of all the batches that are in the producer or have been resolved carry the same id,
  under every interleaving.
\<close>

theorem package_ids_unique:
  assumes "reachable cfg ovf s" and "valid_config cfg" and "int (length (accepted s)) < 9223372036854775807"
  shows "count (image_mset packageID (live s) + mset (map packageID (resolved s))) pid \<le> 1"
proof -
  obtain ns where ns: "distinct ns" "all_ids s = mset (map (package_id (producerHash s)) ns)"
    using reachable_ids [OF assms] by (auto simp: ids_inv_def)
  have "distinct (map (package_id (producerHash s)) ns)"
    using ns(1) by (auto simp: distinct_map inj_on_def intro: package_id_inj)
  then show ?thesis
    unfolding all_ids_def [symmetric] ns(2) by (simp add: distinct_count_atmost_1)
qed

theorem package_ids_unique_witness:
  "\<exists>(s :: producer) b. live s = {#b#} \<and> count (image_mset packageID (live s)) (packageID b) = 1"
proof -
  obtain s b where "reachable ex_config 0 s" "accepted s = [(''t'', Some 7, LogItem ex_log)]"
    "live s = {#b#}" "resolved s = []"
    by (rule ex_reachable)
  with package_ids_unique [of ex_config 0 s "packageID b"] show ?thesis
    by (intro exI [of _ s] exI [of _ b]) simp
qed

end
