(* ===== verification/Go_Text.thy ===== *)
theory Go_Text
  imports Utils
begin

text \<open>
  The functions of \<^verbatim>\<open>strings\<close> and \<^verbatim>\<open>strconv\<close> that the SDK uses on identifiers:
  splitting at colons, prefixes, and reading decimal numbers, with the round trip against
  \<open>decimal\<close>, the \<open>%d\<close> of \<^verbatim>\<open>fmt\<close>.
\<close>

section \<open>Letter case\<close>

definition ToLower_char :: "char \<Rightarrow> char" where
  "ToLower_char c = (let n = of_char c :: nat in if 65 \<le> n \<and> n \<le> 90 then char_of (n + 32) else c)"

definition ToLower :: "string \<Rightarrow> string" where
  "ToLower = map ToLower_char"

section \<open>Splitting and prefixes\<close>

fun split_at :: "char \<Rightarrow> string \<Rightarrow> string list" where
  "split_at d [] = [[]]"
| "split_at d (c # s) =
     (if c = d then [] # split_at d s
      else case split_at d s of [] \<Rightarrow> [[c]] | w # ws \<Rightarrow> (c # w) # ws)"

definition HasPrefix :: "string \<Rightarrow> string \<Rightarrow> bool" where
  "HasPrefix s p \<longleftrightarrow> take (length p) s = p"

definition TrimPrefix :: "string \<Rightarrow> string \<Rightarrow> string" where
  "TrimPrefix s p = (if HasPrefix s p then drop (length p) s else s)"

lemma HasPrefix_iff: "HasPrefix s p \<longleftrightarrow> (\<exists>r. s = p @ r)"
  by (metis HasPrefix_def append_eq_conv_conj append_take_drop_id)

lemma TrimPrefix_append [simp]: "TrimPrefix (p @ r) p = r"
  by (simp add: TrimPrefix_def HasPrefix_def)

lemma split_at_nonempty [simp]: "split_at d s \<noteq> []"
  by (induction s) (auto split: list.splits)

lemma split_at_absent: "d \<notin> set s \<Longrightarrow> split_at d s = [s]"
  by (induction s) auto

lemma split_at_append: "split_at d (s @ d # r) = split_at d s @ split_at d r"
  by (induction s) (auto split: list.splits)

lemma length_split_at: "length (split_at d s) = Suc (count_list s d)"
  by (induction s) (auto split: list.splits)

section \<open>Decimal numbers\<close>

definition is_digit :: "char \<Rightarrow> bool" where
  "is_digit c \<longleftrightarrow> 48 \<le> (of_char c :: nat) \<and> (of_char c :: nat) \<le> 57"

definition digits_val :: "string \<Rightarrow> nat" where
  "digits_val ds = foldl (\<lambda>a c. a * 10 + (of_char c - 48)) 0 ds"

text \<open>\<open>strconv.Atoi\<close> and \<open>strconv.ParseUint (s, 10, 64)\<close>; \<open>None\<close> is an error.\<close>

definition ParseUint :: "string \<Rightarrow> nat option" where
  "ParseUint s = (if s = [] \<or> \<not> list_all is_digit s then None
     else if digits_val s < 18446744073709551616 then Some (digits_val s) else None)"

definition Atoi :: "string \<Rightarrow> int option" where
  "Atoi s =
     (let (neg, ds) = (case s of
            [] \<Rightarrow> (False, [])
          | c # r \<Rightarrow> if c = CHR ''-'' then (True, r) else if c = CHR ''+'' then (False, r) else (False, s))
      in if ds = [] \<or> \<not> list_all is_digit ds then None
         else let v = (if neg then - int (digits_val ds) else int (digits_val ds))
              in if in_int64 v then Some v else None)"

lemma is_digit_dec_digit [simp]: "d < 10 \<Longrightarrow> is_digit (dec_digit d)"
  by (simp add: is_digit_def dec_digit_def)

lemma digits_val_snoc [simp]: "digits_val (ds @ [c]) = digits_val ds * 10 + (of_char c - 48)"
  by (simp add: digits_val_def)

lemma dec_digits_read: "digits_val (dec_digits n) = n \<and> list_all is_digit (dec_digits n) \<and> dec_digits n \<noteq> []"
proof (induction n rule: dec_digits.induct)
  case (1 n)
  show ?case
  proof (cases "n < 10")
    case True
    then show ?thesis by (simp add: dec_digits.simps [of n] digits_val_def dec_digit_def is_digit_def)
  next
    case False
    with 1 show ?thesis
      by (simp add: dec_digits.simps [of n]) (simp add: dec_digit_def)
  qed
qed

lemma not_digit_sign: "\<not> is_digit (CHR ''-'')" "\<not> is_digit (CHR ''+'')" "\<not> is_digit (CHR '':'')"
  by (simp_all add: is_digit_def)

lemma dec_digits_unsigned:
  obtains c r where "dec_digits n = c # r" "c \<noteq> CHR ''-''" "c \<noteq> CHR ''+''"
  using dec_digits_read [of n] not_digit_sign by (cases "dec_digits n") auto

lemma Atoi_decimal:
  assumes "in_int64 i" shows "Atoi (decimal i) = Some i"
proof (cases "i < 0")
  case True
  then show ?thesis
    using dec_digits_read [of "nat (- i)"] assms by (simp add: Atoi_def decimal_def)
next
  case False
  obtain c r where "dec_digits (nat i) = c # r" "c \<noteq> CHR ''-''" "c \<noteq> CHR ''+''"
    by (rule dec_digits_unsigned)
  then show ?thesis
    using dec_digits_read [of "nat i"] assms False by (auto simp: Atoi_def decimal_def)
qed

lemma decimal_inj: "decimal i = decimal j \<Longrightarrow> i = j"
proof -
  have sign: "(hd (decimal k) = CHR ''-'') = (k < 0)" for k
    using dec_digits_read [of "nat k"] not_digit_sign by (cases "dec_digits (nat k)") (auto simp: decimal_def)
  assume eq: "decimal i = decimal j"
  then have "(i < 0) = (j < 0)" using sign [of i] sign [of j] by simp
  moreover have "dec_digits m = dec_digits n \<Longrightarrow> m = n" for m n by (metis dec_digits_read)
  ultimately show ?thesis using eq by (force simp: decimal_def split: if_splits)
qed

lemma colon_not_in_decimal: "CHR '':'' \<notin> set (decimal i)"
proof -
  have "CHR '':'' \<notin> set (dec_digits n)" for n
    using dec_digits_read [of n] not_digit_sign(3) by (auto simp: list_all_iff)
  then show ?thesis by (simp add: decimal_def)
qed

end
