(* ===== verification/Signature.thy ===== *)
theory Signature
  imports Go_Text "HOL-Library.List_Lexorder" "HOL-Library.Char_ord"
begin

text \<open>
  The request signatures: \<^verbatim>\<open>signature.go\<close> for the log endpoints and
  \<^verbatim>\<open>tc3_signature.go\<close> for the cloud API.  The hash functions and the calendar date are
  arguments; what is modelled is the canonical text that is hashed, and the header built.
\<close>

section \<open>\<^verbatim>\<open>net/url\<close>\<close>

text \<open>\<open>url.Values\<close> is a Go map from a key to the list of its values.\<close>

type_synonym url_values = "(string, string list) gomap"

definition values_Add :: "string \<Rightarrow> string \<Rightarrow> url_values \<Rightarrow> url_values" where
  "values_Add k v m = gm_put k ((case gm_get m k of None \<Rightarrow> [] | Some vs \<Rightarrow> vs) @ [v]) m"

definition unreserved :: "char \<Rightarrow> bool" where
  "unreserved c = (let n = of_char c :: nat in
     (65 \<le> n \<and> n \<le> 90) \<or> (97 \<le> n \<and> n \<le> 122) \<or> (48 \<le> n \<and> n \<le> 57) \<or> c \<in> set ''-_.~'')"

definition hex_upper :: "nat \<Rightarrow> char" where
  "hex_upper d = (if d < 10 then char_of (48 + d) else char_of (55 + d))"

definition QueryEscape :: "string \<Rightarrow> string" where
  "QueryEscape s = concat (map (\<lambda>c.
     if unreserved c then [c]
     else if c = CHR '' '' then ''+''
     else let n = of_char c :: nat in [CHR ''%'', hex_upper (n div 16), hex_upper (n mod 16)]) s)"

fun join :: "string \<Rightarrow> string list \<Rightarrow> string" where
  "join sep [] = ''''"
| "join sep [w] = w"
| "join sep (w # ws) = w @ sep @ join sep ws"

text \<open>\<open>Values.Encode\<close> sorts the keys.\<close>

definition values_Encode :: "url_values \<Rightarrow> string" where
  "values_Encode m = join ''&'' (concat (map (\<lambda>k.
     case gm_get m k of
       None \<Rightarrow> []
     | Some vs \<Rightarrow> map (\<lambda>v. QueryEscape k @ ''='' @ QueryEscape v) vs) (sort (map fst m))))"

section \<open>\<^verbatim>\<open>signature.go\<close>\<close>

text \<open>The hashes, as lower-case hexadecimal: \<open>sha1 msg\<close> and \<open>hmac key msg\<close>.\<close>

record Sha1 =
  calSha1sum :: "string \<Rightarrow> string"
  calSha1HMACDigest :: "string \<Rightarrow> string \<Rightarrow> string"

text \<open>An empty key makes \<open>lowerKey[0]\<close> panic; \<open>signature\<close> below checks for it.\<close>

definition checkHeaderKey :: "string \<Rightarrow> bool" where
  "checkHeaderKey key = (let lowerKey = ToLower key in
     lowerKey = ''content-type'' \<or> lowerKey = ''content-md5'' \<or> lowerKey = ''host'' \<or>
     (lowerKey \<noteq> [] \<and> lowerKey ! 0 = CHR ''x''))"

text \<open>Every pair of a key and one of its values, in the order of the two nested loops.\<close>

definition entries :: "url_values \<Rightarrow> (string \<times> string) list" where
  "entries m = concat (map (\<lambda>(k, vs). map (\<lambda>v. (k, v)) vs) m)"

definition getURLEncode :: "url_values \<Rightarrow> string \<times> string list" where
  "getURLEncode v =
     (let lowerURL = fold (\<lambda>(k, x). values_Add (ToLower k) x) (entries v) [];
          lowerList = map (\<lambda>(k, x). ToLower k) (entries v)
      in (values_Encode lowerURL, sort lowerList))"

definition signed_headers :: "url_values \<Rightarrow> url_values" where
  "signed_headers headers =
     fold (\<lambda>(k, x) hv. if checkHeaderKey k then values_Add k x hv else hv) (entries headers) []"

text \<open>\<open>t1\<close> and \<open>t2\<close> are the two readings of the clock, in seconds.\<close>

definition signature ::
    "Sha1 \<Rightarrow> int \<Rightarrow> int \<Rightarrow> string \<Rightarrow> string \<Rightarrow> string \<Rightarrow> string \<Rightarrow> url_values \<Rightarrow> url_values \<Rightarrow> int \<Rightarrow> string outcome" where
  "signature h t1 t2 secretID secretKey method path params headers expire =
     (if (\<exists>(k, x)\<in>set (entries headers). k = []) then Inl (Panic ''index out of range [0] with length 0'')
      else
        let (formatHeaders, signedHeaderList) = getURLEncode (signed_headers headers);
            (formatParameters, signedParameterList) = getURLEncode params;
            formatString = ToLower method @ ''\<newline>'' @ path @ ''\<newline>'' @ formatParameters @ ''\<newline>'' @
              formatHeaders @ ''\<newline>'';
            signTime = decimal (int64 (t1 - 60)) @ '';'' @ decimal (int64 (t2 + expire));
            stringToSign = ''sha1\<newline>'' @ signTime @ ''\<newline>'' @ calSha1sum h formatString @ ''\<newline>'';
            signKey = calSha1HMACDigest h secretKey signTime;
            sig = calSha1HMACDigest h signKey stringToSign
        in Inr (join ''&'' [''q-sign-algorithm=sha1'', ''q-ak='' @ secretID, ''q-sign-time='' @ signTime,
             ''q-key-time='' @ signTime, ''q-header-list='' @ join '';'' signedHeaderList,
             ''q-url-param-list='' @ join '';'' signedParameterList, ''q-signature='' @ sig]))"

section \<open>\<^verbatim>\<open>tc3_signature.go\<close>\<close>

text \<open>
  The hash in hexadecimal, the keyed hash in raw bytes and in hexadecimal, and the UTC date of
  a timestamp as \<open>2006-01-02\<close>.
\<close>

record Sha256 =
  sha256Hex :: "byte list \<Rightarrow> string"
  hmacSHA256 :: "byte list \<Rightarrow> string \<Rightarrow> byte list"
  hmacSHA256Hex :: "byte list \<Rightarrow> string \<Rightarrow> string"
  utc_date :: "int \<Rightarrow> string"

definition text_bytes :: "string \<Rightarrow> byte list" where
  "text_bytes s = map of_char s"

definition getTC3SignatureKey :: "Sha256 \<Rightarrow> string \<Rightarrow> string \<Rightarrow> string \<Rightarrow> byte list" where
  "getTC3SignatureKey h secretKey date service =
     (let kDate = hmacSHA256 h (text_bytes (''TC3'' @ secretKey)) date;
          kService = hmacSHA256 h kDate service
      in hmacSHA256 h kService ''tc3_request'')"

definition is_space :: "char \<Rightarrow> bool" where
  "is_space c = (let n = of_char c :: nat in n = 32 \<or> (9 \<le> n \<and> n \<le> 13))"

text \<open>\<open>strings.TrimSpace\<close> on ASCII text.\<close>

definition TrimSpace :: "string \<Rightarrow> string" where
  "TrimSpace s = rev (dropWhile is_space (rev (dropWhile is_space s)))"

text \<open>Only the content type and the host are signed; a later header of the same name wins.\<close>

definition tc3_headers :: "(string, string) gomap \<Rightarrow> (string, string) gomap" where
  "tc3_headers headers = fold (\<lambda>(k, v) m.
     let lk = ToLower k in
     if lk = ''content-type'' \<or> lk = ''host'' then gm_put lk (TrimSpace v) m else m) headers []"

definition SignatureWithTC3 ::
    "Sha256 \<Rightarrow> string \<Rightarrow> string \<Rightarrow> string \<Rightarrow> string \<Rightarrow> string \<Rightarrow> string
     \<Rightarrow> (string, string) gomap \<Rightarrow> byte list \<Rightarrow> int \<Rightarrow> string" where
  "SignatureWithTC3 h secretID secretKey service method path queryString headers payload timestamp =
     (let lowerHeaders = tc3_headers headers;
          signedHeaders = sort (map fst lowerHeaders);
          canonicalHeaders = concat (map (\<lambda>k. k @ '':'' @
            (case gm_get lowerHeaders k of None \<Rightarrow> '''' | Some v \<Rightarrow> v) @ ''\<newline>'') signedHeaders);
          sh = join '';'' signedHeaders;
          canonicalRequest = method @ ''\<newline>'' @ path @ ''\<newline>'' @ queryString @ ''\<newline>'' @
            canonicalHeaders @ ''\<newline>'' @ sh @ ''\<newline>'' @ sha256Hex h payload;
          date = utc_date h timestamp;
          credentialScope = date @ ''/'' @ service @ ''/tc3_request'';
          stringToSign = ''TC3-HMAC-SHA256\<newline>'' @ decimal timestamp @ ''\<newline>'' @ credentialScope @ ''\<newline>'' @
            sha256Hex h (text_bytes canonicalRequest);
          sig = hmacSHA256Hex h (getTC3SignatureKey h secretKey date service) stringToSign
      in ''TC3-HMAC-SHA256 Credential='' @ secretID @ ''/'' @ credentialScope @ '', SignedHeaders='' @ sh @
         '', Signature='' @ sig)"

end
