(* ===== verification/Yun_Api.thy ===== *)
theory Yun_Api
  imports Signature
begin

text \<open>
  \<^verbatim>\<open>yunapi_log_client.go\<close>: the cloud API calls of the consumer.  The HTTP transport, the
  JSON coder and the hash functions of the signature are arguments; what is modelled is which
  request is sent, how often it is retried, and which answer the caller gets.
\<close>

section \<open>API data\<close>

record APIError =
  Api_Code :: string
  Api_Message :: string

record PartitionInfo =
  pi_TopicID :: string
  pi_Partitions :: "int list"

record PartitionOffset =
  po_PartitionID :: int
  po_Offset :: int

record TopicPartitionOffsetsInfo =
  tpo_TopicID :: string
  tpo_PartitionOffsets :: "PartitionOffset list"

record ConsumerGroupEntity =
  cge_ConsumerGroup :: string
  cge_Timeout :: int
  cge_Topics :: "string list"

record CreateConsumerGroupRequest =
  ccq_ConsumerGroup :: string
  ccq_Timeout :: int
  ccq_Topics :: "string list"
  ccq_LogsetId :: string

record ListConsumerGroupRequest =
  lcq_LogsetId :: string
  lcq_Topics :: "string list"

record UpdateConsumerGroupRequest =
  ucq_LogsetId :: string
  ucq_ConsumerGroup :: string
  ucq_Topics :: "string list"
  ucq_Timeout :: "int ptr"

record DeleteConsumerGroupRequest =
  dcq_LogsetId :: string
  dcq_ConsumerGroup :: string

record GetOffsetsRequest =
  goq_ConsumerGroup :: string
  goq_TopicId :: string
  goq_PartitionId :: string
  goq_LogsetId :: string
  goq_From :: string

record UpdateOffsetsRequest =
  uoq_TopicPartitionOffsetsInfo :: "TopicPartitionOffsetsInfo list"
  uoq_ConsumerGroup :: string
  uoq_Consumer :: string
  uoq_LogsetId :: string

record HeartbeatRequest =
  hbq_ConsumerGroup :: string
  hbq_Consumer :: string
  hbq_LogsetId :: string
  hbq_TopicPartitionsInfo :: "PartitionInfo list"
  hbq_PartitionStrategy :: int

datatype ApiRequest =
    CreateReq CreateConsumerGroupRequest
  | ListReq ListConsumerGroupRequest
  | UpdateReq UpdateConsumerGroupRequest
  | DeleteReq DeleteConsumerGroupRequest
  | GetOffsetsReq GetOffsetsRequest
  | UpdateOffsetsReq UpdateOffsetsRequest
  | HeartbeatReq HeartbeatRequest

text \<open>
  The answers of the seven calls: the fields of the \<open>Response\<close> object each of them has.
\<close>

record CreateConsumerGroupResponse =
  ccr_RequestId :: string
  ccr_Error :: "APIError ptr"
  ccr_ConsumerGroup :: string

record ListConsumerGroupResponse =
  lcr_ConsumerGroupsInfo :: "ConsumerGroupEntity list"
  lcr_RequestId :: string
  lcr_Error :: "APIError ptr"

record UpdateConsumerGroupResponse =
  ucr_RequestId :: string
  ucr_Error :: "APIError ptr"

record DeleteConsumerGroupResponse =
  dcr_RequestId :: string
  dcr_Error :: "APIError ptr"

record ConsumerGroupGetOffsetsResponse =
  gor_ConsumerGroup :: string
  gor_TopicPartitionOffsetsInfo :: "TopicPartitionOffsetsInfo list"
  gor_RequestId :: string
  gor_Error :: "APIError ptr"

record ConsumerGroupUpdateOffsetsResponse =
  uor_RequestId :: string
  uor_Error :: "APIError ptr"

record ConsumerGroupHeartBeatResponse =
  hbr_ConsumerGroup :: string
  hbr_TopicPartitionsInfo :: "PartitionInfo list"
  hbr_RequestId :: string
  hbr_Error :: "APIError ptr"

text \<open>\<open>json.Unmarshal\<close> into a zero value of each of these types.\<close>

record ApiDecoders =
  json_Create :: "byte list \<Rightarrow> CreateConsumerGroupResponse outcome"
  json_List :: "byte list \<Rightarrow> ListConsumerGroupResponse outcome"
  json_Update :: "byte list \<Rightarrow> UpdateConsumerGroupResponse outcome"
  json_Delete :: "byte list \<Rightarrow> DeleteConsumerGroupResponse outcome"
  json_GetOffsets :: "byte list \<Rightarrow> ConsumerGroupGetOffsetsResponse outcome"
  json_UpdateOffsets :: "byte list \<Rightarrow> ConsumerGroupUpdateOffsetsResponse outcome"
  json_Heartbeat :: "byte list \<Rightarrow> ConsumerGroupHeartBeatResponse outcome"

section \<open>Requests and retries\<close>

record YunApiLogClient =
  yc_host :: string
  yc_token :: string
  yc_region :: string
  yc_secretId :: string
  yc_secretKey :: string

record HttpRequest =
  rq_method :: string
  rq_url :: string
  rq_headers :: "(string, string) gomap"
  rq_body :: "byte list"

text \<open>What one round trip gives: a transport error, an error reading the body, or a response.\<close>

datatype http_result = NetworkError string | ReadError string | HttpResponse int "byte list"

text \<open>The environment of the calls.\<close>

record ApiEnv =
  env_net :: "HttpRequest \<Rightarrow> nat \<Rightarrow> http_result"
  env_new_request :: "string \<Rightarrow> string \<Rightarrow> string ptr"
  env_sha256 :: Sha256
  env_api_error :: "byte list \<Rightarrow> APIError ptr"
  env_marshal :: "ApiRequest \<Rightarrow> byte list"
  env_unmarshal :: ApiDecoders

definition retryable_code :: "string \<Rightarrow> bool" where
  "retryable_code code \<longleftrightarrow> code = ''InternalError'' \<or> code = ''Timeout'' \<or> code = ''SpeedQuotaExceed''"

definition maxRetries :: nat where
  "maxRetries = 10"

text \<open>
  The retry loop from attempt \<open>i\<close> on, with the number of requests sent.  A server error or a
  retryable code on the last attempt is not retried, and its body is then returned.
\<close>

function request_loop ::
    "(nat \<Rightarrow> http_result) \<Rightarrow> (byte list \<Rightarrow> APIError ptr) \<Rightarrow> nat \<Rightarrow> byte list outcome \<times> nat" where
  "request_loop net apiErr i =
     (case net i of
        NetworkError e \<Rightarrow>
          if i + 1 < maxRetries then request_loop net apiErr (i + 1) else (Inl (Errorf e), i + 1)
      | ReadError e \<Rightarrow>
          if i + 1 < maxRetries then request_loop net apiErr (i + 1) else (Inl (Errorf e), i + 1)
      | HttpResponse status body \<Rightarrow>
          if 500 \<le> status then
            if i + 1 < maxRetries then request_loop net apiErr (i + 1) else (Inr body, i + 1)
          else if 400 \<le> status then
            (case apiErr body of
               Some err \<Rightarrow>
                 if retryable_code (Api_Code err) \<and> i + 1 < maxRetries
                 then request_loop net apiErr (i + 1) else (Inr body, i + 1)
             | None \<Rightarrow> (Inr body, i + 1))
          else (Inr body, i + 1))"
  by auto

termination request_loop
  by (relation "measure (\<lambda>(net, apiErr, i). maxRetries - i)") auto

declare request_loop.simps [simp del]

definition request_headers ::
    "ApiEnv \<Rightarrow> YunApiLogClient \<Rightarrow> (string, string) gomap \<Rightarrow> int \<Rightarrow> string \<Rightarrow> string
     \<Rightarrow> (string, string) gomap" where
  "request_headers env c headers ts action region =
     (let h = gm_put ''Host'' (yc_host c) (gm_put ''X-TC-Language'' ''zh-CN''
                (gm_put ''X-TC-Region'' region (gm_put ''X-TC-Action'' action
                  (gm_put ''X-TC-Timestamp'' (decimal ts) headers))));
          h = (if yc_token c \<noteq> '''' then gm_put ''X-Cls-Token'' (yc_token c) h else h)
      in case gm_get h ''Content-Type'' of
           Some _ \<Rightarrow> h
         | None \<Rightarrow> gm_put ''Content-Type'' ''application/json'' h)"

definition DoRequest ::
    "ApiEnv \<Rightarrow> int \<Rightarrow> YunApiLogClient \<Rightarrow> string \<Rightarrow> string \<Rightarrow> (string, string) gomap
     \<Rightarrow> (string, string) gomap \<Rightarrow> byte list \<Rightarrow> string \<Rightarrow> string \<Rightarrow> string \<Rightarrow> byte list outcome" where
  "DoRequest env ts c method resource params headers body region action service =
     (let service' = (if service = '''' then ''cls'' else service);
          region' = (if region = '''' then yc_region c else region);
          url = ''https://'' @ yc_host c @ resource;
          url' = (if 0 < length params
                  then url @ ''?'' @ values_Encode (map (\<lambda>(k, v). (k, [v])) params) else url);
          h = request_headers env c headers ts action region';
          auth = SignatureWithTC3 (env_sha256 env) (yc_secretId c) (yc_secretKey c) service' method
            resource '''' h body ts
      in case env_new_request env method url' of
           Some e \<Rightarrow> Inl (Errorf e)
         | None \<Rightarrow>
             let req = \<lparr>rq_method = method, rq_url = url',
                        rq_headers = gm_put ''Authorization'' auth h, rq_body = body\<rparr>
             in fst (request_loop (env_net env req) (env_api_error env) 0))"

definition api_headers :: "YunApiLogClient \<Rightarrow> (string, string) gomap" where
  "api_headers c = [(''Host'', yc_host c), (''Content-Type'', ''application/json''),
     (''X-TC-Version'', ''2020-10-16'')]"

text \<open>
  The common body of the calls: marshal, \<open>DoRequest\<close>, unmarshal into the call's own
  response type.
\<close>

definition api_call ::
    "ApiEnv \<Rightarrow> (ApiDecoders \<Rightarrow> byte list \<Rightarrow> 'r outcome) \<Rightarrow> int \<Rightarrow> YunApiLogClient \<Rightarrow> string \<Rightarrow> ApiRequest
     \<Rightarrow> 'r outcome" where
  "api_call env resp ts c action req =
     (case DoRequest env ts c ''POST'' ''/'' [] (api_headers c) (env_marshal env req)
             (yc_region c) action ''cls'' of
        Inl e \<Rightarrow> Inl e
      | Inr body \<Rightarrow> resp (env_unmarshal env) body)"

definition api_CreateConsumerGroup ::
    "ApiEnv \<Rightarrow> int \<Rightarrow> YunApiLogClient \<Rightarrow> string \<Rightarrow> string \<Rightarrow> int \<Rightarrow> string list \<Rightarrow> CreateConsumerGroupResponse outcome" where
  "api_CreateConsumerGroup env ts c logsetId consumerGroup timeout topics =
     api_call env json_Create ts c ''CreateConsumerGroup'' (CreateReq \<lparr>ccq_ConsumerGroup = consumerGroup,
       ccq_Timeout = timeout, ccq_Topics = topics, ccq_LogsetId = logsetId\<rparr>)"

definition api_ListConsumerGroup ::
    "ApiEnv \<Rightarrow> int \<Rightarrow> YunApiLogClient \<Rightarrow> string \<Rightarrow> string list \<Rightarrow> ListConsumerGroupResponse outcome" where
  "api_ListConsumerGroup env ts c logsetId topics =
     api_call env json_List ts c ''DescribeConsumerGroups''
       (ListReq \<lparr>lcq_LogsetId = logsetId, lcq_Topics = topics\<rparr>)"

definition api_UpdateConsumerGroup ::
    "ApiEnv \<Rightarrow> int \<Rightarrow> YunApiLogClient \<Rightarrow> string \<Rightarrow> string \<Rightarrow> string list \<Rightarrow> int ptr \<Rightarrow> UpdateConsumerGroupResponse outcome" where
  "api_UpdateConsumerGroup env ts c logsetId consumerGroup topics timeout =
     api_call env json_Update ts c ''ModifyConsumerGroup'' (UpdateReq \<lparr>ucq_LogsetId = logsetId,
       ucq_ConsumerGroup = consumerGroup, ucq_Topics = topics, ucq_Timeout = timeout\<rparr>)"

definition api_DeleteConsumerGroup ::
    "ApiEnv \<Rightarrow> int \<Rightarrow> YunApiLogClient \<Rightarrow> string \<Rightarrow> string \<Rightarrow> DeleteConsumerGroupResponse outcome" where
  "api_DeleteConsumerGroup env ts c logsetId consumerGroup =
     api_call env json_Delete ts c ''DeleteConsumerGroup''
       (DeleteReq \<lparr>dcq_LogsetId = logsetId, dcq_ConsumerGroup = consumerGroup\<rparr>)"

definition api_GetOffsets ::
    "ApiEnv \<Rightarrow> int \<Rightarrow> YunApiLogClient \<Rightarrow> string \<Rightarrow> string \<Rightarrow> string \<Rightarrow> int \<Rightarrow> string \<Rightarrow> ConsumerGroupGetOffsetsResponse outcome" where
  "api_GetOffsets env ts c logsetId consumerGroup topicId partitionId position =
     api_call env json_GetOffsets ts c ''DescribeConsumerOffsets'' (GetOffsetsReq \<lparr>goq_ConsumerGroup = consumerGroup,
       goq_TopicId = topicId, goq_PartitionId = decimal partitionId,
       goq_LogsetId = logsetId, goq_From = position\<rparr>)"

definition api_UpdateOffsets ::
    "ApiEnv \<Rightarrow> int \<Rightarrow> YunApiLogClient \<Rightarrow> string \<Rightarrow> string \<Rightarrow> string \<Rightarrow> TopicPartitionOffsetsInfo list
     \<Rightarrow> ConsumerGroupUpdateOffsetsResponse outcome" where
  "api_UpdateOffsets env ts c logsetId consumerGroup consumer offsets =
     api_call env json_UpdateOffsets ts c ''CommitConsumerOffsets'' (UpdateOffsetsReq
       \<lparr>uoq_TopicPartitionOffsetsInfo = offsets, uoq_ConsumerGroup = consumerGroup,
        uoq_Consumer = consumer, uoq_LogsetId = logsetId\<rparr>)"

definition api_Heartbeat ::
    "ApiEnv \<Rightarrow> int \<Rightarrow> YunApiLogClient \<Rightarrow> string \<Rightarrow> string \<Rightarrow> string \<Rightarrow> PartitionInfo list
     \<Rightarrow> ConsumerGroupHeartBeatResponse outcome" where
  "api_Heartbeat env ts c logsetId consumerGroup consumer partitions =
     api_call env json_Heartbeat ts c ''SendConsumerHeartbeat'' (HeartbeatReq
       \<lparr>hbq_ConsumerGroup = consumerGroup, hbq_Consumer = consumer, hbq_LogsetId = logsetId,
        hbq_TopicPartitionsInfo = partitions, hbq_PartitionStrategy = 2\<rparr>)"

section \<open>The retry loop\<close>

text \<open>Which outcomes of an attempt are retried, and what an attempt gives when it is the last.\<close>

definition retried_result :: "(byte list \<Rightarrow> APIError ptr) \<Rightarrow> http_result \<Rightarrow> bool" where
  "retried_result apiErr r = (case r of
       NetworkError e \<Rightarrow> True
     | ReadError e \<Rightarrow> True
     | HttpResponse status body \<Rightarrow> 500 \<le> status \<or>
         400 \<le> status \<and> (case apiErr body of None \<Rightarrow> False | Some err \<Rightarrow> retryable_code (Api_Code err)))"

definition answer :: "http_result \<Rightarrow> byte list outcome" where
  "answer r = (case r of
       NetworkError e \<Rightarrow> Inl (Errorf e)
     | ReadError e \<Rightarrow> Inl (Errorf e)
     | HttpResponse status body \<Rightarrow> Inr body)"

lemma request_loop_unfold:
  "request_loop net apiErr i =
     (if retried_result apiErr (net i) \<and> i + 1 < maxRetries then request_loop net apiErr (i + 1)
      else (answer (net i), i + 1))"
  by (subst request_loop.simps)
    (auto simp: retried_result_def answer_def split: http_result.splits option.splits)

lemma request_loop_find:
  assumes "i + n = 9"
  shows "request_loop net apiErr i =
    (case find (\<lambda>j. \<not> retried_result apiErr (net j)) [i..<9] of
       Some j \<Rightarrow> (answer (net j), j + 1)
     | None \<Rightarrow> (answer (net 9), 10))"
  using assms
proof (induction n arbitrary: i)
  case 0
  then have "i = 9" by simp
  then show ?case by (subst request_loop_unfold) (simp add: maxRetries_def)
next
  case (Suc n)
  have up: "[i..<9] = i # [Suc i..<9]" using Suc.prems by (intro upt_conv_Cons) simp
  show ?case
  proof (cases "retried_result apiErr (net i)")
    case True
    then have "request_loop net apiErr i = request_loop net apiErr (Suc i)"
      using Suc.prems by (simp add: request_loop_unfold [of net apiErr i] maxRetries_def)
    with True Suc.IH [of "Suc i"] Suc.prems show ?thesis by (simp only: up find.simps) simp
  next
    case False
    then have "request_loop net apiErr i = (answer (net i), i + 1)"
      by (simp add: request_loop_unfold [of net apiErr i])
    with False show ?thesis by (simp only: up find.simps) simp
  qed
qed

text \<open>
  A cloud API call sends its request at most ten times and answers with the first result
  that is not worth a retry (a response below 500 whose error code, if it is a client error,
  is not one of the three transient ones), or else with the tenth result.
\<close>

theorem request_loop_first_final:
  "request_loop net apiErr 0 =
    (case find (\<lambda>j. \<not> retried_result apiErr (net j)) [0..<9] of
       Some j \<Rightarrow> (answer (net j), j + 1)
     | None \<Rightarrow> (answer (net 9), 10)) \<and>
   1 \<le> snd (request_loop net apiErr 0) \<and> snd (request_loop net apiErr 0) \<le> 10"
proof -
  note f = request_loop_find [of 0 9 net apiErr]
  have "snd (request_loop net apiErr 0) \<le> 10"
    unfolding f [simplified] by (auto simp: find_Some_iff split: option.splits)
  moreover have "1 \<le> snd (request_loop net apiErr 0)"
    unfolding f [simplified] by (auto split: option.splits)
  ultimately show ?thesis using f by simp
qed

text \<open>
  A server that stays down is reported as success.  When all ten attempts are answered
  with a 5xx status, \<open>DoRequest\<close> returns the body of the last one without an error, so a
  caller such as \<open>UpdateOffsets\<close> decodes the error page as its response.
\<close>

theorem DoRequest_server_error_swallowed:
  assumes "\<And>req i. \<exists>status. env_net env req i = HttpResponse status page \<and> 500 \<le> status"
    and "\<And>m u. env_new_request env m u = None"
  shows "DoRequest env ts c method resource [] headers body region action service = Inr page"
proof -
  have "retried_result (env_api_error env) (env_net env req i)" for req i
    using assms(1) [of req i] by (auto simp: retried_result_def)
  then have "find (\<lambda>j. \<not> retried_result (env_api_error env) (env_net env req j)) [0..<9] = None" for req
    by (simp add: find_None_iff)
  then have "fst (request_loop (env_net env req) (env_api_error env) 0) = answer (env_net env req 9)" for req
    using request_loop_find [of 0 9 "env_net env req" "env_api_error env"] by simp
  moreover have "answer (env_net env req 9) = Inr page" for req
    using assms(1) [of req 9] by (auto simp: answer_def)
  ultimately show ?thesis using assms(2) by (simp add: DoRequest_def Let_def)
qed

definition ex_sha256 :: Sha256 where
  "ex_sha256 = \<lparr>sha256Hex = (\<lambda>b. decimal (int (length b))), hmacSHA256 = (\<lambda>k m. k @ text_bytes m),
     hmacSHA256Hex = (\<lambda>k m. m), utc_date = (\<lambda>t. decimal t)\<rparr>"

definition bad_json :: "byte list \<Rightarrow> 'r outcome" where
  "bad_json b = Inl (Errorf ''bad json'')"

definition ex_env_down :: ApiEnv where
  "ex_env_down = \<lparr>env_net = (\<lambda>req i. HttpResponse 503 [123, 125]), env_new_request = (\<lambda>m u. None),
     env_sha256 = ex_sha256,
     env_api_error = (\<lambda>b. None), env_marshal = (\<lambda>r. []),
     env_unmarshal = \<lparr>json_Create = bad_json, json_List = bad_json, json_Update = bad_json, json_Delete = bad_json,
       json_GetOffsets = bad_json, json_UpdateOffsets = bad_json, json_Heartbeat = bad_json\<rparr>\<rparr>"

definition ex_client :: YunApiLogClient where
  "ex_client = \<lparr>yc_host = ''cls.tencentcloudapi.com'', yc_token = '''', yc_region = ''ap-beijing'',
     yc_secretId = ''id'', yc_secretKey = ''key''\<rparr>"

theorem DoRequest_server_error_swallowed_witness:
  "DoRequest ex_env_down 0 ex_client ''POST'' ''/'' [] [] [] '''' ''CommitConsumerOffsets'' ''cls''
   = Inr [123, 125]"
  by (rule DoRequest_server_error_swallowed) (simp_all add: ex_env_down_def)

end
