(* ===== verification/Consumer_Client.thy ===== *)
theory Consumer_Client
  imports Yun_Api
begin

text \<open>
  \<^verbatim>\<open>consumer/consumer_client.go\<close>: the consumer group operations on top of the cloud API
  calls, with the checks of the error field each of them makes.
\<close>

record ConsumerClient =
  cc_YunApi :: YunApiLogClient
  cc_LogsetID :: string
  cc_TopicIDs :: "string list"
  cc_ConsumerGroup :: string
  cc_Consumer :: string
  cc_Region :: string

text \<open>\<open>strings.Contains\<close>.\<close>

fun Contains :: "string \<Rightarrow> string \<Rightarrow> bool" where
  "Contains [] sub \<longleftrightarrow> sub = []"
| "Contains (c # s) sub \<longleftrightarrow> take (length sub) (c # s) = sub \<or> Contains s sub"

lemma Contains_iff: "Contains s sub \<longleftrightarrow> (\<exists>p q. s = p @ sub @ q)"
proof (induction s)
  case (Cons c s)
  have "take (length sub) (c # s) = sub \<longleftrightarrow> (\<exists>q. c # s = sub @ q)"
    by (metis append_eq_conv_conj append_take_drop_id)
  moreover have "(\<exists>p q. c # s = p @ sub @ q) \<longleftrightarrow> (\<exists>q. c # s = sub @ q) \<or> (\<exists>p q. s = p @ sub @ q)"
    by (metis append_Cons append_Nil list.inject neq_Nil_conv)
  ultimately show ?case using Cons by simp
qed simp

text \<open>\<open>fmt.Errorf\<close> with a prefix and a wrapped error.\<close>

fun wrap_error :: "string \<Rightarrow> failure \<Rightarrow> failure" where
  "wrap_error p (Errorf m) = Errorf (p @ m)"
| "wrap_error p (Panic m) = Panic m"

definition api_error :: "string \<Rightarrow> APIError \<Rightarrow> failure" where
  "api_error p e = Errorf (p @ Api_Code e @ '' - '' @ Api_Message e)"

definition CreateConsumerGroup :: "ApiEnv \<Rightarrow> int \<Rightarrow> ConsumerClient \<Rightarrow> int \<Rightarrow> CreateConsumerGroupResponse outcome" where
  "CreateConsumerGroup env ts c timeout =
     (case api_CreateConsumerGroup env ts (cc_YunApi c) (cc_LogsetID c) (cc_ConsumerGroup c)
             timeout (cc_TopicIDs c) of
        Inl e \<Rightarrow> Inl (wrap_error ''error occur when create consumer group: '' e)
      | Inr res \<Rightarrow>
          (case ccr_Error res of
             None \<Rightarrow> Inr res
           | Some e \<Rightarrow>
               if Contains (Api_Message e) ''consumer group already exists'' then
                 (case api_UpdateConsumerGroup env ts (cc_YunApi c) (cc_LogsetID c)
                         (cc_ConsumerGroup c) (cc_TopicIDs c) (Some timeout) of
                    Inl ue \<Rightarrow> Inl (wrap_error ''error occur when update consumer group: '' ue)
                  | Inr ures \<Rightarrow>
                      (case ucr_Error ures of
                         Some ue \<Rightarrow> Inl (api_error ''error occur when update consumer group: '' ue)
                       | None \<Rightarrow> Inr (res\<lparr>ccr_Error := None\<rparr>)))
               else Inl (api_error ''CreateConsumerGroup API error: '' e)))"

fun find_group :: "string \<Rightarrow> ConsumerGroupEntity list \<Rightarrow> ConsumerGroupEntity ptr" where
  "find_group name [] = None"
| "find_group name (g # gs) = (if cge_ConsumerGroup g = name then Some g else find_group name gs)"

definition ListConsumerGroup :: "ApiEnv \<Rightarrow> int \<Rightarrow> ConsumerClient \<Rightarrow> ConsumerGroupEntity ptr outcome" where
  "ListConsumerGroup env ts c =
     (case api_ListConsumerGroup env ts (cc_YunApi c) (cc_LogsetID c) (cc_TopicIDs c) of
        Inl e \<Rightarrow> Inl e
      | Inr res \<Rightarrow> Inr (find_group (cc_ConsumerGroup c) (lcr_ConsumerGroupsInfo res)))"

text \<open>A call that answers only an error: \<open>None\<close> is nil.\<close>

definition DeleteConsumerGroup :: "ApiEnv \<Rightarrow> int \<Rightarrow> ConsumerClient \<Rightarrow> failure ptr" where
  "DeleteConsumerGroup env ts c =
     (case api_DeleteConsumerGroup env ts (cc_YunApi c) (cc_LogsetID c) (cc_ConsumerGroup c) of
        Inl e \<Rightarrow> Some e
      | Inr res \<Rightarrow> (case dcr_Error res of
            None \<Rightarrow> None
          | Some e \<Rightarrow> Some (api_error ''DeleteConsumerGroup API error: '' e)))"

text \<open>\<open>None\<close> is false; \<open>Some ps\<close> is true with \<open>*response\<close> set to \<open>ps\<close>.\<close>

definition Heartbeat :: "ApiEnv \<Rightarrow> int \<Rightarrow> ConsumerClient \<Rightarrow> PartitionInfo list \<Rightarrow> PartitionInfo list option" where
  "Heartbeat env ts c partitions =
     (case api_Heartbeat env ts (cc_YunApi c) (cc_LogsetID c) (cc_ConsumerGroup c) (cc_Consumer c)
             partitions of
        Inl e \<Rightarrow> None
      | Inr res \<Rightarrow> (case hbr_Error res of
            None \<Rightarrow> Some (hbr_TopicPartitionsInfo res)
          | Some e \<Rightarrow> None))"

definition UpdateOffsets :: "ApiEnv \<Rightarrow> int \<Rightarrow> ConsumerClient \<Rightarrow> TopicPartitionOffsetsInfo list \<Rightarrow> failure ptr" where
  "UpdateOffsets env ts c offsets =
     (case api_UpdateOffsets env ts (cc_YunApi c) (cc_LogsetID c) (cc_ConsumerGroup c) (cc_Consumer c)
             offsets of
        Inl e \<Rightarrow> Some e
      | Inr res \<Rightarrow> (case uor_Error res of
            None \<Rightarrow> None
          | Some e \<Rightarrow> Some (api_error ''UpdateOffsets API error: '' e)))"

definition GetOffsets ::
    "ApiEnv \<Rightarrow> int \<Rightarrow> ConsumerClient \<Rightarrow> string \<Rightarrow> int \<Rightarrow> string
     \<Rightarrow> TopicPartitionOffsetsInfo list outcome" where
  "GetOffsets env ts c topicID partitionID position =
     (case api_GetOffsets env ts (cc_YunApi c) (cc_LogsetID c) (cc_ConsumerGroup c) topicID
             partitionID position of
        Inl e \<Rightarrow> Inl e
      | Inr res \<Rightarrow>
          if length (gor_TopicPartitionOffsetsInfo res) = 0 then Inl (Errorf ''fail to get offsets'')
          else Inr (gor_TopicPartitionOffsetsInfo res))"

fun find_partition :: "int \<Rightarrow> PartitionOffset list \<Rightarrow> int option" where
  "find_partition p [] = None"
| "find_partition p (x # xs) = (if po_PartitionID x = p then Some (po_Offset x) else find_partition p xs)"

fun find_topic_offset :: "string \<Rightarrow> int \<Rightarrow> TopicPartitionOffsetsInfo list \<Rightarrow> int outcome" where
  "find_topic_offset t p [] = Inl (Errorf (''topic '' @ t @ '' not found''))"
| "find_topic_offset t p (x # xs) =
     (if tpo_TopicID x = t then
        (case find_partition p (tpo_PartitionOffsets x) of
           Some off \<Rightarrow> Inr off
         | None \<Rightarrow> Inl (Errorf (''partition '' @ decimal p @ '' not found in topic '' @ t)))
      else find_topic_offset t p xs)"

definition GetPartitionOffsets ::
    "ApiEnv \<Rightarrow> int \<Rightarrow> ConsumerClient \<Rightarrow> string \<Rightarrow> int \<Rightarrow> string \<Rightarrow> int outcome" where
  "GetPartitionOffsets env ts c topicID partitionID position =
     (if topicID = '''' \<or> partitionID < 0 then Inl (Errorf ''topicID or partitionID is invalid'')
      else case api_GetOffsets env ts (cc_YunApi c) (cc_LogsetID c) (cc_ConsumerGroup c) topicID
                  partitionID position of
             Inl e \<Rightarrow> Inl e
           | Inr res \<Rightarrow> find_topic_offset topicID partitionID (gor_TopicPartitionOffsetsInfo res))"

section \<open>Properties\<close>

text \<open>The offset table an answer stands for: the first entry of a topic, then of a partition.\<close>

definition offset_table :: "TopicPartitionOffsetsInfo list \<Rightarrow> string \<Rightarrow> int \<Rightarrow> int option" where
  "offset_table ts t p =
     (case map_of (map (\<lambda>x. (tpo_TopicID x, tpo_PartitionOffsets x)) ts) t of
        None \<Rightarrow> None
      | Some ps \<Rightarrow> map_of (map (\<lambda>x. (po_PartitionID x, po_Offset x)) ps) p)"

lemma find_partition_map_of: "find_partition p ps = map_of (map (\<lambda>x. (po_PartitionID x, po_Offset x)) ps) p"
  by (induction ps) auto

lemma find_topic_offset_Inr: "find_topic_offset t p ts = Inr off \<longleftrightarrow> offset_table ts t p = Some off"
  by (induction ts) (auto simp: offset_table_def find_partition_map_of split: option.splits)

text \<open>
  A partition's offset is found exactly when the answer of the service has it: the
  lookup is that of the table the answer stands for, and every other case (bad arguments, a
  failed call, an unknown topic or partition) is an error, never an offset.
\<close>

theorem GetPartitionOffsets_lookup:
  "GetPartitionOffsets env ts c topicID partitionID position = Inr off \<longleftrightarrow>
    topicID \<noteq> '''' \<and> 0 \<le> partitionID \<and>
    (\<exists>res. api_GetOffsets env ts (cc_YunApi c) (cc_LogsetID c) (cc_ConsumerGroup c) topicID
        partitionID position = Inr res \<and>
      offset_table (gor_TopicPartitionOffsetsInfo res) topicID partitionID = Some off)"
  by (auto simp: GetPartitionOffsets_def find_topic_offset_Inr split: sum.splits)

text \<open>The service has the group with the consumer's topics and timeout.\<close>

definition group_ready :: "ApiEnv \<Rightarrow> int \<Rightarrow> ConsumerClient \<Rightarrow> int \<Rightarrow> bool" where
  "group_ready env ts c timeout \<longleftrightarrow>
    (\<exists>res. api_CreateConsumerGroup env ts (cc_YunApi c) (cc_LogsetID c) (cc_ConsumerGroup c) timeout
        (cc_TopicIDs c) = Inr res \<and>
      (ccr_Error res = None \<or>
       (\<exists>e ures p q. ccr_Error res = Some e \<and> Api_Message e = p @ ''consumer group already exists'' @ q \<and>
          api_UpdateConsumerGroup env ts (cc_YunApi c) (cc_LogsetID c) (cc_ConsumerGroup c)
            (cc_TopicIDs c) (Some timeout) = Inr ures \<and> ucr_Error ures = None)))"

text \<open>
  Creating a consumer group is an upsert.  The call succeeds exactly when the service
  created the group, or reported that it already exists and then accepted the update of its
  topics and timeout; the response handed to the caller carries no error in either case.
\<close>

theorem CreateConsumerGroup_upsert:
  "case CreateConsumerGroup env ts c timeout of
     Inr r \<Rightarrow> ccr_Error r = None \<and>
       group_ready env ts c timeout
   | Inl e \<Rightarrow> \<not> group_ready env ts c timeout"
  unfolding group_ready_def
  by (auto simp: CreateConsumerGroup_def Contains_iff split: sum.splits option.splits)

end
