(* ===== verification/Offset_Tracker.thy ===== *)
theory Offset_Tracker
  imports Consumer_Client Go_Text
begin

text \<open>
  \<^verbatim>\<open>consumer/offset_tracker.go\<close> and the offset part of \<^verbatim>\<open>consumer/processor.go\<close>:
  the offset a partition has reached (\<open>ot_offset\<close>), the one to commit next (\<open>tempOffset\<close>)
  and the one the service has (\<open>lastPersistentOffset\<close>).  The commit call is the argument
  \<open>upd\<close>; every operation also answers the commit requests it sent, each with a mark
  whether the service accepted it.
\<close>

record OffsetTracker =
  ot_consumerName :: string
  ot_topicID :: string
  ot_partitionID :: int
  lastCheckTime :: int
  ot_offset :: int
  tempOffset :: int
  lastPersistentOffset :: int
  defaultFlushOffsetInterval :: int

type_synonym commit = "TopicPartitionOffsetsInfo list"

type_synonym commit_log = "(commit \<times> bool) list"

type_synonym commit_call = "commit \<Rightarrow> failure ptr"

definition NewOffsetTracker :: "string \<Rightarrow> string \<Rightarrow> int \<Rightarrow> OffsetTracker" where
  "NewOffsetTracker consumerName topicID partitionID =
     \<lparr>ot_consumerName = consumerName, ot_topicID = topicID, ot_partitionID = partitionID,
      lastCheckTime = 0, ot_offset = -1, tempOffset = -1, lastPersistentOffset = -1,
      defaultFlushOffsetInterval = 60\<rparr>"

definition SetOffset :: "int \<Rightarrow> OffsetTracker \<Rightarrow> OffsetTracker" where
  "SetOffset off t = t\<lparr>ot_offset := off\<rparr>"

definition GetOffset :: "OffsetTracker \<Rightarrow> int" where
  "GetOffset t = ot_offset t"

definition SetMemoryOffset :: "int \<Rightarrow> OffsetTracker \<Rightarrow> OffsetTracker" where
  "SetMemoryOffset off t = t\<lparr>tempOffset := off\<rparr>"

definition SetPersistentOffset :: "int \<Rightarrow> OffsetTracker \<Rightarrow> OffsetTracker" where
  "SetPersistentOffset off t = t\<lparr>lastPersistentOffset := off\<rparr>"

definition GetTempOffset :: "OffsetTracker \<Rightarrow> int" where
  "GetTempOffset t = tempOffset t"

definition GetLastPersistentOffset :: "OffsetTracker \<Rightarrow> int" where
  "GetLastPersistentOffset t = lastPersistentOffset t"

definition GetLastCheckTime :: "OffsetTracker \<Rightarrow> int" where
  "GetLastCheckTime t = lastCheckTime t"

definition GenerateOffsets :: "OffsetTracker \<Rightarrow> int \<Rightarrow> commit" where
  "GenerateOffsets t off =
     [\<lparr>tpo_TopicID = ot_topicID t,
       tpo_PartitionOffsets = [\<lparr>po_PartitionID = ot_partitionID t, po_Offset = off\<rparr>]\<rparr>]"

definition FlushOffset ::
    "commit_call \<Rightarrow> bool \<Rightarrow> OffsetTracker \<Rightarrow> failure ptr \<times> commit_log \<times> OffsetTracker" where
  "FlushOffset upd force t =
     (let flushOffset = (if tempOffset t = -1 then ot_offset t else tempOffset t) in
      if flushOffset = -1 then (None, [], t)
      else if flushOffset \<noteq> lastPersistentOffset t \<or> force then
        let offsets = GenerateOffsets t flushOffset in
        case upd offsets of
          Some e \<Rightarrow>
            (Some (wrap_error (''Failed to persistent the offset to outside system, '' @
               ot_consumerName t @ '', '' @ decimal (ot_partitionID t) @ '', '' @
               decimal flushOffset @ '': '') e), [(offsets, False)], t)
        | None \<Rightarrow> (None, [(offsets, True)],
            t\<lparr>tempOffset := flushOffset, lastPersistentOffset := flushOffset\<rparr>)
      else (None, [], t))"

text \<open>The variadic \<open>offset\<close> is a list; its first element counts.\<close>

definition SaveOffset ::
    "commit_call \<Rightarrow> bool \<Rightarrow> int list \<Rightarrow> OffsetTracker \<Rightarrow> failure ptr \<times> commit_log \<times> OffsetTracker" where
  "SaveOffset upd persistent offset t =
     (let t' = (if 0 < length offset then t\<lparr>tempOffset := offset ! 0\<rparr>
                else t\<lparr>tempOffset := ot_offset t\<rparr>)
      in if persistent then FlushOffset upd False t' else (None, [], t'))"

text \<open>\<open>now\<close> is \<open>time.Now ().Unix ()\<close>; the flush error is only printed.\<close>

definition FlushCheck ::
    "commit_call \<Rightarrow> int \<Rightarrow> OffsetTracker \<Rightarrow> commit_log \<times> OffsetTracker" where
  "FlushCheck upd now t =
     (if int64 (lastCheckTime t + defaultFlushOffsetInterval t) < now
      then let (err, reqs, t') = FlushOffset upd False t in (reqs, t'\<lparr>lastCheckTime := now\<rparr>)
      else ([], t))"

section \<open>The processor's offset commits\<close>

record ProcessorBase =
  pb_TopicID :: string
  pb_PartitionID :: int
  pb_LastCheckTime :: int
  pb_OffsetTimeout :: int

definition NewProcessorBase :: "int \<Rightarrow> ProcessorBase" where
  "NewProcessorBase now =
     \<lparr>pb_TopicID = '''', pb_PartitionID = -1, pb_LastCheckTime = now, pb_OffsetTimeout = 3\<rparr>"

definition Processor_SaveOffset ::
    "commit_call \<Rightarrow> int \<Rightarrow> bool \<Rightarrow> ProcessorBase \<Rightarrow> OffsetTracker
     \<Rightarrow> commit_log \<times> ProcessorBase \<times> OffsetTracker" where
  "Processor_SaveOffset upd now force p t =
     (if force \<or> pb_OffsetTimeout p < int64 (now - pb_LastCheckTime p)
      then let (err, reqs, t') = SaveOffset upd True [] t
           in (reqs, p\<lparr>pb_LastCheckTime := now\<rparr>, t')
      else let (err, reqs, t') = SaveOffset upd False [] t in (reqs, p, t'))"

definition Processor_Initialize :: "string \<Rightarrow> ProcessorBase \<Rightarrow> ProcessorBase" where
  "Processor_Initialize topicID p = p\<lparr>pb_TopicID := topicID\<rparr>"

definition Processor_Shutdown ::
    "commit_call \<Rightarrow> int \<Rightarrow> ProcessorBase \<Rightarrow> OffsetTracker \<Rightarrow> commit_log \<times> ProcessorBase \<times> OffsetTracker" where
  "Processor_Shutdown upd now p t = Processor_SaveOffset upd now True p t"

text \<open>What the user's function returned: the boolean false, or anything else.\<close>

datatype user_result = RetFalse | RetOther

datatype TaskResult = NewTaskResult | UserValue

definition Adaptor_Process ::
    "commit_call \<Rightarrow> int \<Rightarrow> (string \<Rightarrow> int \<Rightarrow> Log ptr list \<Rightarrow> user_result) \<Rightarrow> Log ptr list
     \<Rightarrow> ProcessorBase \<Rightarrow> OffsetTracker \<Rightarrow> TaskResult \<times> commit_log \<times> ProcessorBase \<times> OffsetTracker" where
  "Adaptor_Process upd now func logs p t =
     (case func (pb_TopicID p) (pb_PartitionID p) logs of
        RetFalse \<Rightarrow> (NewTaskResult, [], p, t)
      | RetOther \<Rightarrow> let (reqs, p', t') = Processor_SaveOffset upd now False p t
                    in (UserValue, reqs, p', t'))"

section \<open>What the service knows\<close>

text \<open>
  The offset of the tracker's partition on the service, after a list of commits of which
  those marked were accepted.
\<close>

definition commit_offset :: "commit \<Rightarrow> int option" where
  "commit_offset c = (case c of [x] \<Rightarrow> (case tpo_PartitionOffsets x of [p] \<Rightarrow> Some (po_Offset p) | _ \<Rightarrow> None) | _ \<Rightarrow> None)"

definition service_after :: "commit_log \<Rightarrow> int \<Rightarrow> int" where
  "service_after reqs svc = fold (\<lambda>(r, ok) v. if ok then
     (case commit_offset r of Some off \<Rightarrow> off | None \<Rightarrow> v) else v) reqs svc"

lemma service_after_append [simp]:
  "service_after (xs @ ys) svc = service_after ys (service_after xs svc)"
  by (simp add: service_after_def)

lemma service_after_Nil [simp]: "service_after [] svc = svc"
  by (simp add: service_after_def)

lemma service_after_GenerateOffsets [simp]:
  "service_after [(GenerateOffsets t off, ok)] svc = (if ok then off else svc)"
  by (simp add: service_after_def GenerateOffsets_def commit_offset_def)

text \<open>The tracker's idea of what is committed is right, or it has none.\<close>

definition synced :: "OffsetTracker \<Rightarrow> int \<Rightarrow> bool" where
  "synced t svc \<longleftrightarrow> lastPersistentOffset t = -1 \<or> lastPersistentOffset t = svc"

definition flush_target :: "OffsetTracker \<Rightarrow> int" where
  "flush_target t = (if tempOffset t = -1 then ot_offset t else tempOffset t)"

lemma FlushOffset_cases:
  "FlushOffset upd force t =
    (if flush_target t = -1 \<or> (flush_target t = lastPersistentOffset t \<and> \<not> force) then (None, [], t)
     else case upd (GenerateOffsets t (flush_target t)) of
       Some e \<Rightarrow> (Some (wrap_error (''Failed to persistent the offset to outside system, '' @
               ot_consumerName t @ '', '' @ decimal (ot_partitionID t) @ '', '' @
               decimal (flush_target t) @ '': '') e), [(GenerateOffsets t (flush_target t), False)], t)
     | None \<Rightarrow> (None, [(GenerateOffsets t (flush_target t), True)],
           t\<lparr>tempOffset := flush_target t, lastPersistentOffset := flush_target t\<rparr>))"
  by (auto simp: FlushOffset_def flush_target_def Let_def split: option.splits)

lemma FlushOffset_synced:
  assumes "synced t svc" and "FlushOffset upd force t = (err, reqs, t')"
  shows "synced t' (service_after reqs svc)"
    and "err = None \<Longrightarrow> flush_target t \<noteq> -1 \<Longrightarrow> service_after reqs svc = flush_target t \<and>
      lastPersistentOffset t' = flush_target t"
    and "err \<noteq> None \<Longrightarrow> t' = t \<and> service_after reqs svc = svc"
    and "ot_offset t' = ot_offset t"
  using assms by (auto simp: FlushOffset_cases synced_def split: if_splits option.splits)

lemma FlushOffset_none:
  "FlushOffset upd force t = (err, reqs, t') \<Longrightarrow> flush_target t = -1 \<Longrightarrow> reqs = [] \<and> t' = t \<and> err = None"
  by (simp add: FlushOffset_cases)

text \<open>A second flush right after a successful one sends nothing.\<close>

lemma FlushOffset_quiet:
  assumes "FlushOffset upd force t = (None, reqs, t')"
  shows "FlushOffset upd False t' = (None, [], t')"
proof (cases "flush_target t = -1 \<or> (flush_target t = lastPersistentOffset t \<and> \<not> force)")
  case True
  then have "t' = t" using assms by (auto simp: FlushOffset_cases)
  with True show ?thesis by (auto simp: FlushOffset_cases [of upd False])
next
  case False
  then have "t' = t\<lparr>tempOffset := flush_target t, lastPersistentOffset := flush_target t\<rparr>"
    using assms unfolding FlushOffset_cases by (auto split: option.splits)
  then have "flush_target t' = lastPersistentOffset t'" by (auto simp: flush_target_def)
  then show ?thesis by (simp add: FlushOffset_cases [of upd False])
qed

lemma SaveOffset_synced:
  assumes "synced t svc" and "SaveOffset upd persistent offs t = (err, reqs, t')"
  shows "synced t' (service_after reqs svc)" and "ot_offset t' = ot_offset t"
proof -
  let ?u = "t\<lparr>tempOffset := if offs = [] then ot_offset t else offs ! 0\<rparr>"
  have save: "(if persistent then FlushOffset upd False ?u else (None, [], ?u)) = (err, reqs, t')"
    using assms(2) by (simp add: SaveOffset_def Let_def split: if_splits)
  have u: "synced ?u svc" using assms(1) by (simp add: synced_def)
  show "synced t' (service_after reqs svc)" "ot_offset t' = ot_offset t"
    using save u FlushOffset_synced(1,4) [OF u, of upd False err reqs t']
    by (auto split: if_splits)
qed

text \<open>
  A commit that returns no error has taken effect.  Whatever the tracker did before, if
  its idea of the committed offset was right it stays right; and when \<open>FlushOffset\<close> answers
  nil although there is an offset to flush, the service has exactly that offset afterwards,
  also when the call was skipped because nothing had changed.  An error leaves the tracker
  untouched, so the same offset is tried again; a second flush right after a successful one
  sends nothing.
\<close>

theorem FlushOffset_effective:
  assumes "synced t svc" and "FlushOffset upd force t = (err, reqs, t')"
  shows "synced t' (service_after reqs svc) \<and>
    (if err = None
     then service_after reqs svc = (if flush_target t = -1 then svc else flush_target t) \<and>
          FlushOffset upd False t' = (None, [], t')
     else t' = t \<and> service_after reqs svc = svc \<and> length reqs = 1)"
proof -
  have again: "FlushOffset upd False t' = (None, [], t')"
    and stay: "flush_target t = -1 \<Longrightarrow> service_after reqs svc = svc" if "err = None"
    using assms(2) that FlushOffset_quiet [of upd force t reqs t'] FlushOffset_none [OF assms(2)] by auto
  have one: "length reqs = 1" if "err \<noteq> None"
    using assms(2) that by (auto simp: FlushOffset_cases split: if_splits option.splits)
  show ?thesis
    using FlushOffset_synced [OF assms] again stay one by auto
qed

definition ex_tracker :: OffsetTracker where
  "ex_tracker = SetPersistentOffset 5 (SetMemoryOffset 9 (NewOffsetTracker ''c'' ''t'' 0))"

theorem FlushOffset_effective_witness:
  "service_after (fst (snd (FlushOffset (\<lambda>r. None) False ex_tracker))) 5 = 9"
proof -
  have "synced ex_tracker 5"
    by (simp add: ex_tracker_def synced_def SetPersistentOffset_def)
  moreover obtain err reqs t' where f: "FlushOffset (\<lambda>r. None) False ex_tracker = (err, reqs, t')"
    by (metis prod_cases3)
  ultimately have "(if err = None then service_after reqs 5 =
      (if flush_target ex_tracker = -1 then 5 else flush_target ex_tracker) else True)"
    using FlushOffset_effective [of ex_tracker 5 "\<lambda>r. None" False err reqs t'] by (auto split: if_splits)
  moreover have "flush_target ex_tracker = 9" "err = None"
    using f by (auto simp: flush_target_def ex_tracker_def SetPersistentOffset_def SetMemoryOffset_def
        FlushOffset_def Let_def split: if_splits)
  ultimately show ?thesis using f by simp
qed

end
