(* ===== verification/Partition_Worker.thy ===== *)
theory Partition_Worker
  imports Offset_Tracker
begin

text \<open>
  \<^verbatim>\<open>consumer/partition_worker.go\<close>: the serial loop that pulls one partition, hands the
  logs to the processor and moves the offsets.  The service, the clock and the shutdown flag
  (which other goroutines set) are arguments of each pass; the user's processor is a pair of
  functions on its own state.  \<open>pw_commits\<close> is a history of the commit requests sent.
\<close>

section \<open>State and environment\<close>

record PullLogResponse =
  NextOffset :: int
  LogGroups :: "LogGroup ptr list"

definition GetLogGroups :: "PullLogResponse \<Rightarrow> LogGroup ptr list" where
  "GetLogGroups r = LogGroups r"

definition GetNextOffset :: "PullLogResponse \<Rightarrow> int" where
  "GetNextOffset r = NextOffset r"

record PullRequest =
  pr_topicID :: string
  pr_partitionID :: int
  pr_size :: int
  pr_startTime :: "int ptr"
  pr_offset :: int
  pr_endTime :: "int ptr"
  pr_query :: string

record 'p PartitionConsumerWorker =
  pw_TopicID :: string
  pw_PartitionID :: int
  pw_ConsumerName :: string
  pw_OffsetStartTime :: string
  pw_OffsetEndTime :: string
  pw_StartTime :: int
  pw_EndTime :: int
  pw_Query :: string
  pw_MaxFetchLogGroupSize :: int
  NextFetchOffset :: int
  pw_shutdown :: bool
  pw_running :: bool
  reachEnd :: bool
  Initialized :: bool
  LastFetchTime :: int
  LastFetchCount :: int
  LastEmptyFlushTime :: int
  LogList :: "Log ptr list"
  pw_closed :: bool
  TotalLogsConsumed :: int
  TotalLogGroupsConsumed :: int
  tracker :: OffsetTracker
  pw_processor :: 'p
  pw_commits :: "commit_log"

definition NewPartitionConsumerWorker ::
    "string \<Rightarrow> int \<Rightarrow> string \<Rightarrow> 'p \<Rightarrow> string \<Rightarrow> int \<Rightarrow> string \<Rightarrow> int \<Rightarrow> int \<Rightarrow> string
     \<Rightarrow> 'p PartitionConsumerWorker" where
  "NewPartitionConsumerWorker topicID partitionID consumerName processor offsetStartTime
       maxFetchLogGroupSize offsetEndTime startTime endTime query =
     \<lparr>pw_TopicID = topicID, pw_PartitionID = partitionID, pw_ConsumerName = consumerName,
      pw_OffsetStartTime = offsetStartTime, pw_OffsetEndTime = offsetEndTime,
      pw_StartTime = startTime, pw_EndTime = endTime, pw_Query = query,
      pw_MaxFetchLogGroupSize = maxFetchLogGroupSize, NextFetchOffset = -1,
      pw_shutdown = False, pw_running = False, reachEnd = False, Initialized = False,
      LastFetchTime = 0, LastFetchCount = 0, LastEmptyFlushTime = 0, LogList = [],
      pw_closed = False, TotalLogsConsumed = 0, TotalLogGroupsConsumed = 0,
      tracker = NewOffsetTracker consumerName topicID partitionID,
      pw_processor = processor, pw_commits = []\<rparr>"

text \<open>The processor's operations.  Returning an error and panicking are both \<open>Some\<close>.\<close>

type_synonym 'p process_op =
  "Log ptr list \<Rightarrow> 'p \<Rightarrow> OffsetTracker \<Rightarrow> failure ptr \<times> commit_log \<times> 'p \<times> OffsetTracker"

type_synonym 'p shutdown_op = "'p \<Rightarrow> OffsetTracker \<Rightarrow> commit_log \<times> 'p \<times> OffsetTracker"

text \<open>
  What one pass of the loop meets.  A pull answers a response or an error text; a panic inside
  it is not an answer, it ends the program (the theory on pulling says when it happens).
\<close>

record pass =
  ps_shutdown :: "nat \<Rightarrow> bool"
  ps_now_ns :: int
  ps_now :: int
  ps_pull :: "nat \<Rightarrow> PullRequest \<Rightarrow> string + PullLogResponse"
  ps_ends :: "TopicPartitionOffsetsInfo list outcome"
  ps_upd :: commit_call

section \<open>Accessors\<close>

text \<open>
  The state shared with the statistics is read and written under \<open>statsLock\<close> or atomically;
  a single worker's passes do not overlap, so here these are plain reads and updates.
\<close>

definition setReachEnd :: "bool \<Rightarrow> 'p PartitionConsumerWorker \<Rightarrow> 'p PartitionConsumerWorker" where
  [simp]: "setReachEnd reached pw = pw\<lparr>reachEnd := reached\<rparr>"

definition getNextFetchOffset :: "'p PartitionConsumerWorker \<Rightarrow> int" where
  [simp]: "getNextFetchOffset pw = NextFetchOffset pw"

definition setNextFetchOffset :: "int \<Rightarrow> 'p PartitionConsumerWorker \<Rightarrow> 'p PartitionConsumerWorker" where
  [simp]: "setNextFetchOffset off pw = pw\<lparr>NextFetchOffset := off\<rparr>"

definition getFetchStats :: "'p PartitionConsumerWorker \<Rightarrow> int \<times> int" where
  [simp]: "getFetchStats pw = (LastFetchTime pw, LastFetchCount pw)"

definition setLastFetchTime :: "int \<Rightarrow> 'p PartitionConsumerWorker \<Rightarrow> 'p PartitionConsumerWorker" where
  [simp]: "setLastFetchTime ts pw = pw\<lparr>LastFetchTime := ts\<rparr>"

definition setLastFetchCount :: "int \<Rightarrow> 'p PartitionConsumerWorker \<Rightarrow> 'p PartitionConsumerWorker" where
  [simp]: "setLastFetchCount n pw = pw\<lparr>LastFetchCount := n\<rparr>"

definition getLastEmptyFlushTime :: "'p PartitionConsumerWorker \<Rightarrow> int" where
  [simp]: "getLastEmptyFlushTime pw = LastEmptyFlushTime pw"

definition setLastEmptyFlushTime :: "int \<Rightarrow> 'p PartitionConsumerWorker \<Rightarrow> 'p PartitionConsumerWorker" where
  [simp]: "setLastEmptyFlushTime ts pw = pw\<lparr>LastEmptyFlushTime := ts\<rparr>"

definition addConsumedStats :: "int \<Rightarrow> int \<Rightarrow> 'p PartitionConsumerWorker \<Rightarrow> 'p PartitionConsumerWorker" where
  [simp]: "addConsumedStats logs logGroups pw =
     pw\<lparr>TotalLogsConsumed := int64 (TotalLogsConsumed pw + logs),
        TotalLogGroupsConsumed := int64 (TotalLogGroupsConsumed pw + logGroups)\<rparr>"

section \<open>Initialization\<close>

text \<open>\<open>start\<close> and \<open>begin\<close> are the answers of \<open>GetPartitionOffsets\<close> at the two positions.\<close>

definition pw_initialize ::
    "int outcome \<Rightarrow> int outcome \<Rightarrow> (int \<Rightarrow> string \<Rightarrow> 'p \<Rightarrow> 'p) \<Rightarrow> 'p PartitionConsumerWorker
     \<Rightarrow> 'p PartitionConsumerWorker" where
  "pw_initialize start atBegin init pw =
     (let pw1 = pw\<lparr>pw_processor := init (pw_PartitionID pw) (pw_TopicID pw) (pw_processor pw)\<rparr>;
          valid = (\<lambda>r. case r of Inl e \<Rightarrow> None | Inr off \<Rightarrow> if 0 \<le> off then Some off else None);
          pw2 = (case valid start of
              Some off \<Rightarrow> (setNextFetchOffset off pw1)\<lparr>
                  tracker := SetPersistentOffset off (SetMemoryOffset off (tracker pw1))\<rparr>
            | None \<Rightarrow>
                (case valid atBegin of
                   Some off \<Rightarrow> setNextFetchOffset off pw1
                 | None \<Rightarrow> setNextFetchOffset 0 pw1))
      in pw2\<lparr>Initialized := True\<rparr>)"

section \<open>Fetching\<close>

definition minIntervalMs :: "int \<Rightarrow> int" where
  "minIntervalMs lastFetchCount =
     (if lastFetchCount < 100 then 500 else if lastFetchCount < 500 then 200
      else if lastFetchCount < 1000 then 50 else 0)"

definition pull_request ::
    "'p PartitionConsumerWorker \<Rightarrow> int ptr \<Rightarrow> int ptr \<Rightarrow> int \<Rightarrow> PullRequest" where
  "pull_request pw startTime endTime off =
     \<lparr>pr_topicID = pw_TopicID pw, pr_partitionID = pw_PartitionID pw,
      pr_size = pw_MaxFetchLogGroupSize pw, pr_startTime = startTime, pr_offset = off,
      pr_endTime = endTime, pr_query = pw_Query pw\<rparr>"

text \<open>The offset the recovery from an invalid offset goes to, if the service gives one.\<close>

definition end_offset :: "TopicPartitionOffsetsInfo list outcome \<Rightarrow> int option" where
  "end_offset r = (case r of
       Inr (x # xs) \<Rightarrow> (case tpo_PartitionOffsets x of p # ps \<Rightarrow> Some (po_Offset p) | [] \<Rightarrow> None)
     | _ \<Rightarrow> None)"

text \<open>
  The retry loop: \<open>n\<close> attempts left, attempt \<open>i\<close> next, pulling at \<open>off\<close>.  The answer is the
  response, if one was obtained, and the number of pulls made.
\<close>

fun fetch_loop ::
    "pass \<Rightarrow> int ptr \<Rightarrow> int ptr \<Rightarrow> nat \<Rightarrow> nat \<Rightarrow> int \<Rightarrow> 'p PartitionConsumerWorker
     \<Rightarrow> PullLogResponse option \<times> 'p PartitionConsumerWorker" where
  "fetch_loop ps st en 0 i off pw = (None, pw)"
| "fetch_loop ps st en (Suc n) i off pw =
     (if ps_shutdown ps (Suc i) then (None, pw)
      else case ps_pull ps i (pull_request pw st en off) of
        Inr resp \<Rightarrow> (Some resp, pw)
      | Inl e \<Rightarrow>
          (case (if i = 0 \<and> Contains (ToLower e) ''invalidoffset''
                 then end_offset (ps_ends ps) else None) of
             Some off' \<Rightarrow> fetch_loop ps st en n (Suc i) off' (setNextFetchOffset off' pw)
           | None \<Rightarrow> if i = 2 then (None, pw) else fetch_loop ps st en n (Suc i) off pw))"

text \<open>What a response does to the offsets.\<close>

definition accept_response :: "PullLogResponse \<Rightarrow> 'p PartitionConsumerWorker \<Rightarrow> 'p PartitionConsumerWorker" where
  "accept_response resp pw =
     (if 0 < GetNextOffset resp
      then let pw1 = setNextFetchOffset (GetNextOffset resp) pw
           in setReachEnd False (pw1\<lparr>tracker := SetOffset (GetNextOffset resp) (tracker pw1)\<rparr>)
      else setReachEnd True pw)"

text \<open>The flush every 30 seconds while nothing arrives.\<close>

definition idle_flush ::
    "pass \<Rightarrow> LogGroup ptr list \<Rightarrow> 'p PartitionConsumerWorker \<Rightarrow> 'p PartitionConsumerWorker" where
  "idle_flush ps logGroups pw =
     (if length logGroups = 0 then
        (if getLastEmptyFlushTime pw = 0 then setLastEmptyFlushTime (ps_now ps) pw
         else if 30 \<le> int64 (ps_now ps - getLastEmptyFlushTime pw) then
           let (err, reqs, t) = FlushOffset (ps_upd ps) False (tracker pw)
           in setLastEmptyFlushTime (ps_now ps) (pw\<lparr>tracker := t, pw_commits := pw_commits pw @ reqs\<rparr>)
         else pw)
      else setLastEmptyFlushTime 0 pw)"

definition fetchData ::
    "pass \<Rightarrow> 'p PartitionConsumerWorker \<Rightarrow> LogGroup ptr list \<times> 'p PartitionConsumerWorker" where
  "fetchData ps pw =
     (let now = go_quot (ps_now_ns ps) 1000000;
          (lastFetchTime, lastFetchCount) = getFetchStats pw;
          interval = minIntervalMs lastFetchCount in
      if ps_shutdown ps 0 then ([], pw)
      else if 0 < interval \<and> int64 (now - lastFetchTime) < interval then ([], pw)
      else
        let off = getNextFetchOffset pw;
            pw1 = setLastFetchTime now pw;
            timed = (0 < pw_StartTime pw \<or> 0 < pw_EndTime pw)
        in if timed \<and> pw_EndTime pw < pw_StartTime pw \<and> 0 < pw_EndTime pw then ([], pw1)
           else case fetch_loop ps (if timed then Some (pw_StartTime pw) else None)
                       (if timed then Some (pw_EndTime pw) else None) 3 0 off pw1 of
             (None, pw2) \<Rightarrow> ([], pw2)
           | (Some resp, pw2) \<Rightarrow>
               let logGroups = GetLogGroups resp;
                   pw3 = idle_flush ps logGroups (accept_response resp pw2)
               in (logGroups, setLastFetchCount (int (length logGroups)) pw3))"

text \<open>The same pass with the accessors read out, the form the proofs unfold.\<close>

lemma fetchData_unfold:
  "fetchData ps pw =
     (let now = go_quot (ps_now_ns ps) 1000000;
          interval = minIntervalMs (LastFetchCount pw) in
      if ps_shutdown ps 0 then ([], pw)
      else if 0 < interval \<and> int64 (now - LastFetchTime pw) < interval then ([], pw)
      else
        let off = NextFetchOffset pw;
            pw1 = pw\<lparr>LastFetchTime := now\<rparr>;
            timed = (0 < pw_StartTime pw \<or> 0 < pw_EndTime pw)
        in if timed \<and> pw_EndTime pw < pw_StartTime pw \<and> 0 < pw_EndTime pw then ([], pw1)
           else case fetch_loop ps (if timed then Some (pw_StartTime pw) else None)
                       (if timed then Some (pw_EndTime pw) else None) 3 0 off pw1 of
             (None, pw2) \<Rightarrow> ([], pw2)
           | (Some resp, pw2) \<Rightarrow>
               (GetLogGroups resp, idle_flush ps (GetLogGroups resp) (accept_response resp pw2)
                  \<lparr>LastFetchCount := int (length (GetLogGroups resp))\<rparr>))"
  unfolding fetchData_def Let_def getFetchStats_def getNextFetchOffset_def setLastFetchTime_def
    setLastFetchCount_def prod.case by (rule refl)

section \<open>Processing\<close>

text \<open>
  A nil log group panics in the counting loop; the deferred \<open>recover\<close> swallows it.  The
  processor's error or panic is logged and otherwise ignored.
\<close>

definition processData ::
    "bool \<Rightarrow> 'p process_op \<Rightarrow> LogGroup ptr list \<Rightarrow> 'p PartitionConsumerWorker
     \<Rightarrow> 'p PartitionConsumerWorker" where
  "processData shutdown process logGroups pw =
     (if shutdown \<or> length logGroups = 0 then pw
      else if None \<in> set logGroups then pw
      else
        let logs = concat (map (\<lambda>g. GetLogs g) logGroups);
            pw1 = (addConsumedStats (int (length logs)) (int (length logGroups)) pw)\<lparr>LogList := logs\<rparr>;
            (err, reqs, p, t) = process logs (pw_processor pw1) (tracker pw1)
        in pw1\<lparr>pw_processor := p, tracker := t, pw_commits := pw_commits pw1 @ reqs\<rparr>)"

definition pw_close ::
    "commit_call \<Rightarrow> 'p shutdown_op \<Rightarrow> 'p PartitionConsumerWorker \<Rightarrow> 'p PartitionConsumerWorker" where
  "pw_close upd shut pw =
     (let pw1 = pw\<lparr>pw_shutdown := True\<rparr> in
      if pw_closed pw1 then pw1
      else
        let (err, reqs, t) = FlushOffset upd True (tracker pw1);
            (reqs', p, t') = shut (pw_processor pw1) t
        in pw1\<lparr>pw_closed := True, tracker := t', pw_processor := p,
               pw_commits := pw_commits pw1 @ reqs @ reqs'\<rparr>)"

section \<open>The loop\<close>

text \<open>
  One pass: fetch, process, periodic flush.  \<open>ps_shutdown ps 4\<close> is the flag as
  \<open>processData\<close> reads it.
\<close>

definition consume_pass ::
    "'p process_op \<Rightarrow> pass \<Rightarrow> 'p PartitionConsumerWorker \<Rightarrow> 'p PartitionConsumerWorker" where
  "consume_pass process ps pw =
     (let (logGroups, pw1) = fetchData ps pw;
          pw2 = (if 0 < length logGroups then processData (ps_shutdown ps 4) process logGroups pw1 else pw1);
          (reqs, t) = FlushCheck (ps_upd ps) (ps_now ps) (tracker pw2)
      in pw2\<lparr>tracker := t, pw_commits := pw_commits pw2 @ reqs\<rparr>)"

text \<open>
  \<open>ConsumeWithContext\<close>: \<open>passes\<close> are the passes made before the context is cancelled or the
  worker is shut down (the end of the list); then the worker closes.  What the processor does
  may depend on the pass (its clock and its commit call).  A call on a worker that
  is shut down or already running does nothing; the first call only initializes.
\<close>

definition ConsumeWithContext ::
    "int outcome \<Rightarrow> int outcome \<Rightarrow> (int \<Rightarrow> string \<Rightarrow> 'p \<Rightarrow> 'p) \<Rightarrow> (pass \<Rightarrow> 'p process_op) \<Rightarrow> 'p shutdown_op
     \<Rightarrow> commit_call \<Rightarrow> pass list \<Rightarrow> 'p PartitionConsumerWorker \<Rightarrow> 'p PartitionConsumerWorker" where
  "ConsumeWithContext start atBegin init process shut upd passes pw =
     (if pw_shutdown pw \<or> pw_running pw then pw
      else if \<not> Initialized pw
      then (pw_initialize start atBegin init (pw\<lparr>pw_running := True\<rparr>))\<lparr>pw_running := False\<rparr>
      else (pw_close upd shut (fold (\<lambda>ps. consume_pass (process ps) ps) passes (pw\<lparr>pw_running := True\<rparr>)))
             \<lparr>pw_running := False\<rparr>)"

definition pw_ShutDown ::
    "commit_call \<Rightarrow> 'p shutdown_op \<Rightarrow> 'p PartitionConsumerWorker \<Rightarrow> 'p PartitionConsumerWorker" where
  "pw_ShutDown upd shut pw = pw_close upd shut pw"

definition pw_IsShutdown :: "'p PartitionConsumerWorker \<Rightarrow> bool" where
  "pw_IsShutdown pw = pw_shutdown pw"

definition IsReachEnd :: "'p PartitionConsumerWorker \<Rightarrow> bool" where
  "IsReachEnd pw = reachEnd pw"

end
