(* ===== verification/Consumer_Progress.thy ===== *)
theory Consumer_Progress
  imports Partition_Worker
begin

text \<open>
  The properties of the partition loop: which logs reach the processor, what the tracker knows
  of the service, and what the loop does not guarantee when the processor fails or the worker
  is shut down in the middle of a pass.
\<close>

section \<open>One fetch\<close>

text \<open>The pulls of a pass read a fixed partition, or fail in a way other than a bad offset.\<close>

definition transient :: "string \<Rightarrow> bool" where
  "transient e \<longleftrightarrow> \<not> Contains (ToLower e) ''invalidoffset''"

definition reads :: "(int \<Rightarrow> PullLogResponse) \<Rightarrow> pass \<Rightarrow> bool" where
  "reads serve ps \<longleftrightarrow> (\<forall>i req. ps_pull ps i req = Inr (serve (pr_offset req)) \<or>
     (\<exists>e. ps_pull ps i req = Inl e \<and> transient e))"

lemma fetch_loop_reads:
  assumes "reads serve ps"
  shows "fetch_loop ps st en n i off pw = (None, pw) \<or>
    fetch_loop ps st en n i off pw = (Some (serve off), pw)"
proof (induction n arbitrary: i)
  case (Suc n)
  have "ps_pull ps i (pull_request pw st en off) = Inr (serve off) \<or>
      (\<exists>e. ps_pull ps i (pull_request pw st en off) = Inl e \<and> transient e)"
    using assms by (force simp: reads_def pull_request_def)
  with Suc.IH [of "Suc i"] show ?case by (auto simp: transient_def)
qed simp

definition advance :: "(int \<Rightarrow> PullLogResponse) \<Rightarrow> int \<Rightarrow> int" where
  "advance serve off = (if 0 < NextOffset (serve off) then NextOffset (serve off) else off)"

lemma idle_flush_fields [simp]:
  "NextFetchOffset (idle_flush ps gs pw) = NextFetchOffset pw"
  "pw_processor (idle_flush ps gs pw) = pw_processor pw"
  by (auto simp: idle_flush_def split: prod.splits)

lemma fetchData_reads:
  assumes "reads serve ps" and "fetchData ps pw = (gs, pw')"
  shows "pw_processor pw' = pw_processor pw \<and>
    (gs = [] \<and> NextFetchOffset pw' = NextFetchOffset pw \<or>
     gs = LogGroups (serve (NextFetchOffset pw)) \<and>
       NextFetchOffset pw' = advance serve (NextFetchOffset pw))"
proof -
  let ?pw = "pw\<lparr>LastFetchTime := go_quot (ps_now_ns ps) 1000000\<rparr>"
  define timed where "timed = (0 < pw_StartTime pw \<or> 0 < pw_EndTime pw)"
  let ?loop = "fetch_loop ps (if timed then Some (pw_StartTime pw) else None)
      (if timed then Some (pw_EndTime pw) else None) 3 0 (NextFetchOffset pw) ?pw"
  consider "?loop = (None, ?pw)" | "?loop = (Some (serve (NextFetchOffset pw)), ?pw)"
    using fetch_loop_reads [OF assms(1)] by blast
  then show ?thesis
    using assms(2) unfolding fetchData_unfold Let_def timed_def [symmetric]
    by cases (auto simp: accept_response_def GetNextOffset_def GetLogGroups_def advance_def
        split: if_splits)
qed

section \<open>Everything pulled is processed once, in order\<close>

definition record_logs :: "Log ptr list process_op" where
  "record_logs logs p t = (None, [], p @ logs, t)"

definition logs_of :: "PullLogResponse \<Rightarrow> Log ptr list" where
  "logs_of r = concat (map GetLogs (LogGroups r))"

fun offset_chain :: "(int \<Rightarrow> PullLogResponse) \<Rightarrow> int \<Rightarrow> nat \<Rightarrow> int" where
  "offset_chain serve off 0 = off"
| "offset_chain serve off (Suc k) = offset_chain serve (advance serve off) k"

definition chain_logs :: "(int \<Rightarrow> PullLogResponse) \<Rightarrow> int \<Rightarrow> nat \<Rightarrow> Log ptr list" where
  "chain_logs serve off k = concat (map (\<lambda>j. logs_of (serve (offset_chain serve off j))) [0..<k])"

lemma chain_logs_Suc:
  "chain_logs serve off (Suc k) = logs_of (serve off) @ chain_logs serve (advance serve off) k"
  by (simp add: chain_logs_def upt_conv_Cons map_Suc_upt [symmetric] comp_def del: upt_Suc)

lemma consume_pass_steps:
  assumes "fetchData ps pw = (gs, pw1)"
    and "pw2 = (if 0 < length gs then processData (ps_shutdown ps 4) process gs pw1 else pw1)"
  shows "consume_pass process ps pw =
    pw2\<lparr>tracker := snd (FlushCheck (ps_upd ps) (ps_now ps) (tracker pw2)),
        pw_commits := pw_commits pw2 @ fst (FlushCheck (ps_upd ps) (ps_now ps) (tracker pw2))\<rparr>"
  using assms by (simp add: consume_pass_def Let_def split_beta)

lemma consume_pass_records:
  assumes "reads serve ps" and "\<not> ps_shutdown ps 4" and "None \<notin> set (LogGroups (serve (NextFetchOffset pw)))"
    and "consume_pass record_logs ps pw = pw'"
  shows "pw_processor pw' = pw_processor pw \<and> NextFetchOffset pw' = NextFetchOffset pw \<or>
    pw_processor pw' = pw_processor pw @ logs_of (serve (NextFetchOffset pw)) \<and>
      NextFetchOffset pw' = advance serve (NextFetchOffset pw)"
proof -
  obtain gs pw1 where f: "fetchData ps pw = (gs, pw1)" by force
  note fr = fetchData_reads [OF assms(1) f]
  define pw2 where "pw2 = (if 0 < length gs then processData (ps_shutdown ps 4) record_logs gs pw1 else pw1)"
  have "pw' = pw2\<lparr>tracker := snd (FlushCheck (ps_upd ps) (ps_now ps) (tracker pw2)),
      pw_commits := pw_commits pw2 @ fst (FlushCheck (ps_upd ps) (ps_now ps) (tracker pw2))\<rparr>"
    using assms(4) consume_pass_steps [OF f pw2_def] by simp
  moreover have "pw_processor pw2 = pw_processor pw1 @ (if gs = [] then [] else concat (map GetLogs gs))"
    if "None \<notin> set gs" "NextFetchOffset pw2 = NextFetchOffset pw1"
    using that assms(2) by (auto simp: pw2_def processData_def record_logs_def Let_def)
  moreover have "NextFetchOffset pw2 = NextFetchOffset pw1"
    by (auto simp: pw2_def processData_def record_logs_def Let_def)
  moreover have "(if gs = [] then [] else concat (map GetLogs gs)) = concat (map GetLogs gs)" by simp
  ultimately show ?thesis
    using fr assms(3) by (elim conjE disjE) (simp_all add: logs_of_def)
qed

text \<open>
  The partition is consumed without gaps and without repetitions.  Over any number of
  passes, with pulls that may fail, throttling, and any clock, what the processor has been
  given is exactly what the partition serves along the chain of offsets from the start: every
  pull continues at the next offset of the last one that succeeded, a failed pull is tried
  again at the same offset, and the logs arrive in order.
\<close>

theorem consumption_gapless:
  assumes "\<forall>ps\<in>set passes. reads serve ps \<and> \<not> ps_shutdown ps 4"
    and "\<forall>off. None \<notin> set (LogGroups (serve off))"
  shows "\<exists>k\<le>length passes.
    pw_processor (fold (consume_pass record_logs) passes pw) =
      pw_processor pw @ chain_logs serve (NextFetchOffset pw) k \<and>
    NextFetchOffset (fold (consume_pass record_logs) passes pw) =
      offset_chain serve (NextFetchOffset pw) k"
  using assms(1)
proof (induction passes arbitrary: pw)
  case Nil
  show ?case by (auto simp: chain_logs_def)
next
  case (Cons ps passes)
  let ?pw = "consume_pass record_logs ps pw"
  obtain k where k: "k \<le> length passes"
    "pw_processor (fold (consume_pass record_logs) passes ?pw) =
       pw_processor ?pw @ chain_logs serve (NextFetchOffset ?pw) k"
    "NextFetchOffset (fold (consume_pass record_logs) passes ?pw) =
       offset_chain serve (NextFetchOffset ?pw) k"
    using Cons by fastforce
  consider "pw_processor ?pw = pw_processor pw" "NextFetchOffset ?pw = NextFetchOffset pw"
    | "pw_processor ?pw = pw_processor pw @ logs_of (serve (NextFetchOffset pw))"
      "NextFetchOffset ?pw = advance serve (NextFetchOffset pw)"
    using consume_pass_records [OF _ _ _ refl, of serve ps pw] Cons.prems assms(2) by auto
  then show ?case
  proof cases
    case 1
    with k show ?thesis by (intro exI [of _ k]) simp
  next
    case 2
    with k show ?thesis by (intro exI [of _ "Suc k"]) (simp add: chain_logs_Suc)
  qed
qed

section \<open>The processor cannot hold the offset back\<close>

text \<open>Everything a fetch depends on.\<close>

definition fetch_view where
  "fetch_view pw = (NextFetchOffset pw, LastFetchTime pw, LastFetchCount pw, LastEmptyFlushTime pw,
     (pw_TopicID pw, pw_PartitionID pw, pw_StartTime pw, pw_EndTime pw, pw_Query pw,
      pw_MaxFetchLogGroupSize pw))"

lemma fetch_loop_view:
  fixes a :: "'p PartitionConsumerWorker" and b :: "'q PartitionConsumerWorker"
  assumes "fetch_view a = fetch_view b"
  shows "fst (fetch_loop ps st en n i off a) = fst (fetch_loop ps st en n i off b) \<and>
    fetch_view (snd (fetch_loop ps st en n i off a)) = fetch_view (snd (fetch_loop ps st en n i off b))"
  using assms
proof (induction n arbitrary: i off a b)
  case (Suc n)
  have req: "pull_request a st en off = pull_request b st en off"
    using Suc.prems by (simp add: fetch_view_def pull_request_def)
  have upd: "fetch_view (a\<lparr>NextFetchOffset := x\<rparr>) = fetch_view (b\<lparr>NextFetchOffset := x\<rparr>)" for x
    using Suc.prems by (simp add: fetch_view_def)
  note same = Suc.IH [OF Suc.prems, of "Suc i" off]
  show ?case
  proof (cases "ps_pull ps i (pull_request b st en off)")
    case (Inr r)
    with Suc.prems show ?thesis by (simp add: req)
  next
    case (Inl e)
    define dest where "dest = (if i = 0 \<and> Contains (ToLower e) ''invalidoffset''
        then end_offset (ps_ends ps) else None)"
    show ?thesis
    proof (cases dest)
      case None
      with Inl same Suc.prems show ?thesis by (simp add: req dest_def [symmetric])
    next
      case (Some off')
      with Inl Suc.IH [OF upd [of off'], of "Suc i" off'] Suc.prems show ?thesis
        by (simp add: req dest_def [symmetric])
    qed
  qed
qed simp

lemma idle_flush_view:
  "fetch_view a = fetch_view b \<Longrightarrow> fetch_view (idle_flush ps gs a) = fetch_view (idle_flush ps gs b)"
  by (auto simp: fetch_view_def idle_flush_def split: prod.splits)

lemma accept_response_view:
  "fetch_view a = fetch_view b \<Longrightarrow> fetch_view (accept_response r a) = fetch_view (accept_response r b)"
  by (auto simp: fetch_view_def accept_response_def)

lemma fetchData_view:
  fixes a :: "'p PartitionConsumerWorker" and b :: "'q PartitionConsumerWorker"
  assumes "fetch_view a = fetch_view b"
  shows "fst (fetchData ps a) = fst (fetchData ps b) \<and>
    fetch_view (snd (fetchData ps a)) = fetch_view (snd (fetchData ps b))"
proof -
  define timed where "timed = (0 < pw_StartTime b \<or> 0 < pw_EndTime b)"
  define now where "now = go_quot (ps_now_ns ps) 1000000"
  let ?loop = "\<lambda>pw. fetch_loop ps (if timed then Some (pw_StartTime b) else None)
      (if timed then Some (pw_EndTime b) else None) 3 0 (NextFetchOffset b) pw"
  have fields: "LastFetchCount a = LastFetchCount b" "LastFetchTime a = LastFetchTime b"
    "NextFetchOffset a = NextFetchOffset b" "pw_StartTime a = pw_StartTime b" "pw_EndTime a = pw_EndTime b"
    using assms by (simp_all add: fetch_view_def)
  have started: "fetch_view (a\<lparr>LastFetchTime := now\<rparr>) = fetch_view (b\<lparr>LastFetchTime := now\<rparr>)"
    using assms by (simp add: fetch_view_def)
  obtain ra ua rb ub where la: "?loop (a\<lparr>LastFetchTime := now\<rparr>) = (ra, ua)"
    and lb: "?loop (b\<lparr>LastFetchTime := now\<rparr>) = (rb, ub)" by force
  have l: "ra = rb" "fetch_view ua = fetch_view ub"
    using fetch_loop_view [OF started, of ps "if timed then Some (pw_StartTime b) else None"
        "if timed then Some (pw_EndTime b) else None" 3 0 "NextFetchOffset b"] la lb by simp_all
  have finished: "fetch_view ((idle_flush ps gs (accept_response r ua))\<lparr>LastFetchCount := c\<rparr>) =
      fetch_view ((idle_flush ps gs (accept_response r ub))\<lparr>LastFetchCount := c\<rparr>)" for gs r c
    using idle_flush_view [OF accept_response_view [OF l(2)], of ps gs r] by (simp add: fetch_view_def)
  show ?thesis
    unfolding fetchData_unfold Let_def fields timed_def [symmetric] now_def [symmetric] la lb l(1)
    using assms started l(2) finished by (auto split: option.splits)
qed

lemma processData_view: "fetch_view (processData sd process gs pw) = fetch_view pw"
  by (auto simp: processData_def fetch_view_def Let_def split: prod.splits)

lemma commit_fields_view: "fetch_view (pw\<lparr>tracker := t, pw_commits := c\<rparr>) = fetch_view pw"
  by (simp add: fetch_view_def)

lemma consume_pass_view:
  fixes a :: "'p PartitionConsumerWorker" and b :: "'q PartitionConsumerWorker"
  assumes "fetch_view a = fetch_view b"
  shows "fetch_view (consume_pass f ps a) = fetch_view (consume_pass g ps b)"
proof -
  obtain gs a1 b1 where "fetchData ps a = (gs, a1)" "fetchData ps b = (gs, b1)" "fetch_view a1 = fetch_view b1"
    using fetchData_view [OF assms, of ps] by (metis prod.collapse)
  then show ?thesis
    by (simp add: consume_pass_def Let_def split_beta commit_fields_view processData_view)
qed

text \<open>
  What the processor returns has no influence on what is pulled.  For any two
  processors, which may look at the clock and at the answers of the service, over any passes, the offset of the next pull is the same: neither an error nor
  \<open>tracker.SetOffset\<close> inside \<open>Process\<close> makes the worker read a batch again.
\<close>

theorem processor_cannot_hold_offset:
  fixes a :: "'p PartitionConsumerWorker" and b :: "'q PartitionConsumerWorker"
  assumes "fetch_view a = fetch_view b"
  shows "NextFetchOffset (fold (\<lambda>ps. consume_pass (f ps) ps) passes a) =
    NextFetchOffset (fold (\<lambda>ps. consume_pass (g ps) ps) passes b)"
proof -
  have "fetch_view (fold (\<lambda>ps. consume_pass (f ps) ps) passes a) =
      fetch_view (fold (\<lambda>ps. consume_pass (g ps) ps) passes b)"
    using assms
  proof (induction passes arbitrary: a b)
    case (Cons ps passes)
    from consume_pass_view [OF Cons.prems] Cons.IH show ?case by simp
  qed simp
  then show ?thesis by (simp add: fetch_view_def)
qed

section \<open>Progress\<close>

text \<open>
  C34: a pass gets through whenever it can.  If the throttling interval has passed, the time
  window is not inverted, no shutdown is requested and one of the three attempts at the pull
  succeeds, then the processor is given everything the partition serves at the current offset
  and the worker moves on.
\<close>

theorem consume_pass_progress:
  assumes reads: "reads serve ps" and up: "\<forall>i. \<not> ps_shutdown ps i"
    and due: "minIntervalMs (LastFetchCount pw) \<le>
      int64 (go_quot (ps_now_ns ps) 1000000 - LastFetchTime pw)"
    and window: "pw_StartTime pw \<le> pw_EndTime pw \<or> pw_EndTime pw \<le> 0"
    and ok: "j < 3" "\<forall>req. ps_pull ps j req = Inr (serve (pr_offset req))"
    and groups: "None \<notin> set (LogGroups (serve (NextFetchOffset pw)))"
  shows "pw_processor (consume_pass record_logs ps pw) =
      pw_processor pw @ logs_of (serve (NextFetchOffset pw)) \<and>
    NextFetchOffset (consume_pass record_logs ps pw) = advance serve (NextFetchOffset pw)"
proof -
  let ?off = "NextFetchOffset pw"
  have attempt: "fetch_loop ps st en n i ?off w = (Some (serve ?off), w)"
    if "i \<le> j" "j < i + n" "i + n = 3" for st en n i and w :: "Log ptr list PartitionConsumerWorker"
    using that
  proof (induction n arbitrary: i)
    case (Suc n)
    have pull: "ps_pull ps i (pull_request w st en ?off) = Inr (serve ?off) \<or>
        (\<exists>e. ps_pull ps i (pull_request w st en ?off) = Inl e \<and> transient e)"
      using reads [unfolded reads_def, rule_format, of i "pull_request w st en ?off"]
      by (simp add: pull_request_def)
    show ?case
    proof (cases "ps_pull ps i (pull_request w st en ?off)")
      case (Inr r)
      with pull have "r = serve ?off" by simp
      with Inr up show ?thesis by simp
    next
      case (Inl e)
      with pull have "transient e" by simp
      moreover have "i \<noteq> j" using Inl ok(2) by auto
      ultimately show ?thesis
        using Inl up Suc.IH [of "Suc i"] Suc.prems by (auto simp: transient_def)
    qed
  qed simp
  note first = attempt [of 0 3]
  obtain gs pw1 where f: "fetchData ps pw = (gs, pw1)" by force
  have inverted: "\<not> (pw_EndTime pw < pw_StartTime pw \<and> 0 < pw_EndTime pw)" using window by auto
  have "gs = LogGroups (serve ?off) \<and> NextFetchOffset pw1 = advance serve ?off \<and>
      pw_processor pw1 = pw_processor pw"
    using f up due ok(1) inverted unfolding fetchData_unfold Let_def
    by (auto simp: first accept_response_def GetNextOffset_def GetLogGroups_def advance_def split: if_splits)
  then show ?thesis
    using up groups f
    by (auto simp: consume_pass_def processData_def record_logs_def logs_of_def Let_def split_beta)
qed

section \<open>A partition with two log groups\<close>

definition ex_entry :: "64 word \<Rightarrow> Log ptr" where
  "ex_entry n = Some \<lparr>Log_Time = Some n, Log_Contents = [], Log_CollectTime = None,
     Log_XXX_unrecognized = []\<rparr>"

definition ex_pulled :: "Log ptr list \<Rightarrow> LogGroup ptr" where
  "ex_pulled logs = Some \<lparr>Group_Logs = logs, Group_ContextFlow = None, Group_Filename = None,
     Group_Source = None, Group_LogTags = [], Group_Hostname = None, Group_XXX_unrecognized = []\<rparr>"

definition ex_serve :: "int \<Rightarrow> PullLogResponse" where
  "ex_serve off =
     (if off = 0 then \<lparr>NextOffset = 7, LogGroups = [ex_pulled [ex_entry 1, ex_entry 2]]\<rparr>
      else if off = 7 then \<lparr>NextOffset = 9, LogGroups = [ex_pulled [ex_entry 3]]\<rparr>
      else \<lparr>NextOffset = 0, LogGroups = []\<rparr>)"

definition ex_timeout :: string where
  "ex_timeout = ''timeout''"

text \<open>The first attempt of the pass fails, the second succeeds.\<close>

definition ex_pass :: "int \<Rightarrow> pass" where
  "ex_pass now = \<lparr>ps_shutdown = \<lambda>i. False, ps_now_ns = now * 1000000000, ps_now = now,
     ps_pull = (\<lambda>i req. if i = 0 then Inl ex_timeout else Inr (ex_serve (pr_offset req))),
     ps_ends = Inr [], ps_upd = \<lambda>c. None\<rparr>"

definition ex_consumer :: "'p \<Rightarrow> 'p PartitionConsumerWorker" where
  "ex_consumer p = (NewPartitionConsumerWorker ''t'' 0 ''c'' p ''begin'' 10 [] 0 0 [])
     \<lparr>Initialized := True, NextFetchOffset := 0\<rparr>"

lemma ex_pass_reads: "reads ex_serve (ex_pass now)"
  by (auto simp: reads_def ex_pass_def transient_def ex_timeout_def ToLower_def ToLower_char_def
      Let_def)

lemma ex_serve_groups: "None \<notin> set (LogGroups (ex_serve off))"
  by (simp add: ex_serve_def ex_pulled_def)

lemma ex_logs: "chain_logs ex_serve 0 2 = [ex_entry 1, ex_entry 2, ex_entry 3]"
  "chain_logs ex_serve 0 1 = [ex_entry 1, ex_entry 2]" "chain_logs ex_serve 0 0 = []"
  by (simp_all add: chain_logs_def logs_of_def ex_serve_def ex_pulled_def GetLogs_def advance_def
      numeral_2_eq_2)

lemma ex_pass_up: "\<not> ps_shutdown (ex_pass now) i"
  by (simp add: ex_pass_def)

lemma ex_consumer_start [simp]: "pw_processor (ex_consumer p) = p" "NextFetchOffset (ex_consumer p) = 0"
  by (simp_all add: ex_consumer_def NewPartitionConsumerWorker_def)

theorem consumption_gapless_witness:
  "pw_processor (fold (consume_pass record_logs) [ex_pass 1, ex_pass 9] (ex_consumer [])) \<in>
     {[], [ex_entry 1, ex_entry 2], [ex_entry 1, ex_entry 2, ex_entry 3]}"
proof -
  let ?passes = "[ex_pass 1, ex_pass 9]"
  obtain k where "k \<le> length ?passes" and k: "pw_processor (fold (consume_pass record_logs) ?passes (ex_consumer [])) =
      pw_processor (ex_consumer []) @ chain_logs ex_serve (NextFetchOffset (ex_consumer ([] :: Log ptr list))) k"
    using consumption_gapless [of ?passes ex_serve "ex_consumer []"] ex_pass_reads ex_serve_groups ex_pass_up
    by (force simp del: fold_simps)
  then have "k = 0 \<or> k = 1 \<or> k = 2" by auto
  with k ex_logs show ?thesis by (auto simp del: fold_simps)
qed

theorem consume_pass_progress_witness:
  "pw_processor (consume_pass record_logs (ex_pass 1) (ex_consumer [])) = [ex_entry 1, ex_entry 2]"
proof -
  let ?pw = "ex_consumer ([] :: Log ptr list)"
  have due: "minIntervalMs (LastFetchCount ?pw) \<le>
      int64 (go_quot (ps_now_ns (ex_pass 1)) 1000000 - LastFetchTime ?pw)"
    and window: "pw_StartTime ?pw \<le> pw_EndTime ?pw \<or> pw_EndTime ?pw \<le> 0"
    by (simp_all add: ex_pass_def ex_consumer_def NewPartitionConsumerWorker_def minIntervalMs_def
        go_quot_def int64_def)
  have second: "\<forall>req. ps_pull (ex_pass 1) 1 req = Inr (ex_serve (pr_offset req))"
    by (simp add: ex_pass_def)
  have "pw_processor (consume_pass record_logs (ex_pass 1) ?pw) =
      pw_processor ?pw @ logs_of (ex_serve (NextFetchOffset ?pw))"
    using consume_pass_progress [OF ex_pass_reads _ due window _ second ex_serve_groups] ex_pass_up by simp
  then show ?thesis by (simp add: ex_serve_def logs_of_def ex_pulled_def GetLogs_def)
qed

theorem processor_cannot_hold_offset_witness:
  "NextFetchOffset (fold (\<lambda>ps. consume_pass record_logs ps) [ex_pass 1] (ex_consumer [])) =
   NextFetchOffset (fold (\<lambda>ps. consume_pass (\<lambda>logs p t. (Some (Errorf ''timeout''), [], p, SetOffset 0 t)) ps)
     [ex_pass 1] (ex_consumer ()))"
  by (rule processor_cannot_hold_offset)
    (simp add: fetch_view_def ex_consumer_def NewPartitionConsumerWorker_def)

end
