(* ===== verification/Consumer_Commits.thy ===== *)
theory Consumer_Commits
  imports Consumer_Progress
begin

text \<open>
  The offset commits of a partition worker over its whole life.  The contract between the
  worker and the user's processor is a locale: whatever the processor does with the tracker,
  the tracker's idea of the committed offset stays right.  The adaptor of
  \<^verbatim>\<open>consumer/processor.go\<close> meets it.
\<close>

section \<open>The history of commits\<close>

text \<open>The tracker is right about what the commits made so far have left on the service.\<close>

definition settled :: "'p PartitionConsumerWorker \<Rightarrow> int \<Rightarrow> bool" where
  "settled pw svc \<longleftrightarrow> synced (tracker pw) (service_after (pw_commits pw) svc)"

lemma settled_step:
  assumes "settled pw svc" and "pw_commits pw' = pw_commits pw @ reqs"
    and "synced (tracker pw') (service_after reqs (service_after (pw_commits pw) svc))"
  shows "settled pw' svc"
  using assms by (simp add: settled_def)

lemma settled_cong:
  "tracker pw' = tracker pw \<Longrightarrow> pw_commits pw' = pw_commits pw \<Longrightarrow> settled pw' svc = settled pw svc"
  by (simp add: settled_def)

lemma synced_SetOffset [simp]: "synced (SetOffset off t) svc = synced t svc"
  by (simp add: synced_def SetOffset_def)

lemma settled_accept: "settled (accept_response r pw) svc = settled pw svc"
  by (simp add: accept_response_def settled_def)

lemma settled_idle_flush:
  assumes "settled pw svc" shows "settled (idle_flush ps gs pw) svc"
proof -
  obtain err reqs t where f: "FlushOffset (ps_upd ps) False (tracker pw) = (err, reqs, t)"
    by (metis prod_cases3)
  have "synced t (service_after reqs (service_after (pw_commits pw) svc))"
    using FlushOffset_synced(1) [OF _ f] assms by (simp add: settled_def)
  with assms f show ?thesis by (auto simp: idle_flush_def settled_def)
qed

lemma fetch_loop_commits:
  "tracker (snd (fetch_loop ps st en n i off pw)) = tracker pw \<and>
   pw_commits (snd (fetch_loop ps st en n i off pw)) = pw_commits pw"
  by (induction n arbitrary: i off pw) (auto split: sum.splits option.splits)

lemma settled_fetchData:
  assumes "settled pw svc" shows "settled (snd (fetchData ps pw)) svc"
proof -
  let ?pw = "pw\<lparr>LastFetchTime := go_quot (ps_now_ns ps) 1000000\<rparr>"
  have last: "settled (w\<lparr>LastFetchCount := c\<rparr>) svc = settled w svc" for w :: "'a PartitionConsumerWorker" and c
    by (simp add: settled_def)
  have start: "settled ?pw svc" using assms by (simp add: settled_def)
  have loop: "settled w svc" if "fetch_loop ps st en n i off ?pw = (r, w)" for st en n i off r w
    using fetch_loop_commits [of ps st en n i off ?pw] that start by (simp add: settled_def)
  show ?thesis
    using assms start
    by (auto simp: fetchData_unfold Let_def last settled_accept intro!: settled_idle_flush dest: loop
        split: prod.splits option.splits)
qed

lemma FlushCheck_synced:
  assumes "synced t svc" and "FlushCheck upd now t = (reqs, t')"
  shows "synced t' (service_after reqs svc)"
proof -
  obtain err rs u where f: "FlushOffset upd False t = (err, rs, u)" by (metis prod_cases3)
  have "synced u (service_after rs svc)" by (rule FlushOffset_synced(1) [OF assms(1) f])
  with assms f show ?thesis by (auto simp: FlushCheck_def synced_def split: if_splits)
qed

section \<open>The contract of a processor\<close>

locale offset_processor =
  fixes process :: "'p process_op" and shut :: "'p shutdown_op"
  assumes process_synced: "synced t svc \<Longrightarrow> process logs p t = (err, reqs, p', t') \<Longrightarrow>
      synced t' (service_after reqs svc)"
    and shut_synced: "synced t svc \<Longrightarrow> shut p t = (reqs, p', t') \<Longrightarrow>
      synced t' (service_after reqs svc)"
begin

lemma settled_processData:
  assumes "settled pw svc" shows "settled (processData sd process gs pw) svc"
proof -
  define logs where "logs = concat (map (\<lambda>g. GetLogs g) gs)"
  obtain err reqs p t where p: "process logs (pw_processor pw) (tracker pw) = (err, reqs, p, t)"
    by (metis prod_cases4)
  have "synced t (service_after reqs (service_after (pw_commits pw) svc))"
    using process_synced [OF _ p] assms by (simp add: settled_def)
  with p assms show ?thesis
    by (auto simp: processData_def Let_def logs_def [symmetric] settled_def)
qed

lemma settled_pass:
  assumes "settled pw svc" shows "settled (consume_pass process ps pw) svc"
proof -
  obtain gs pw1 where f: "fetchData ps pw = (gs, pw1)" by force
  define pw2 where "pw2 = (if 0 < length gs then processData (ps_shutdown ps 4) process gs pw1 else pw1)"
  have two: "settled pw2 svc"
    using settled_fetchData [OF assms, of ps] f settled_processData by (simp add: pw2_def)
  obtain reqs t where fl: "FlushCheck (ps_upd ps) (ps_now ps) (tracker pw2) = (reqs, t)" by force
  have "synced t (service_after reqs (service_after (pw_commits pw2) svc))"
    using FlushCheck_synced [OF _ fl] two by (simp add: settled_def)
  then show ?thesis
    using consume_pass_steps [OF f pw2_def] fl by (simp add: settled_def)
qed

lemma settled_close:
  assumes "settled pw svc" shows "settled (pw_close upd shut pw) svc"
proof -
  obtain err reqs t where f: "FlushOffset upd True (tracker pw) = (err, reqs, t)"
    by (metis prod_cases3)
  obtain reqs' p t' where s: "shut (pw_processor pw) t = (reqs', p, t')" by (metis prod_cases3)
  have "synced t (service_after reqs (service_after (pw_commits pw) svc))"
    using FlushOffset_synced(1) [OF _ f] assms by (simp add: settled_def)
  from shut_synced [OF this s] show ?thesis
    using f s assms by (simp add: pw_close_def Let_def settled_def)
qed

end

text \<open>A whole run, with a processor that meets the contract in every pass.\<close>

lemma settled_passes:
  assumes "\<And>ps. offset_processor (process ps) shut" and "settled pw svc"
  shows "settled (fold (\<lambda>ps. consume_pass (process ps) ps) passes pw) svc"
  using assms(2)
proof (induction passes arbitrary: pw)
  case (Cons ps passes)
  from Cons.IH [OF offset_processor.settled_pass [OF assms(1) Cons.prems]] show ?case by simp
qed simp

section \<open>The adaptor\<close>

text \<open>The adaptor as the worker calls it: the result of \<open>Process\<close> is dropped, its error is nil.\<close>

definition adaptor_op ::
    "commit_call \<Rightarrow> int \<Rightarrow> (string \<Rightarrow> int \<Rightarrow> Log ptr list \<Rightarrow> user_result) \<Rightarrow> ProcessorBase process_op" where
  "adaptor_op upd now func logs p t =
     (let (res, reqs, p', t') = Adaptor_Process upd now func logs p t in (None, reqs, p', t'))"

definition adaptor_shut :: "commit_call \<Rightarrow> int \<Rightarrow> ProcessorBase shutdown_op" where
  "adaptor_shut upd now p t = Processor_Shutdown upd now p t"

lemma Processor_SaveOffset_synced:
  assumes "synced t svc" and "Processor_SaveOffset upd now force p t = (reqs, p', t')"
  shows "synced t' (service_after reqs svc)" and "ot_offset t' = ot_offset t"
proof -
  obtain err rs u where s: "SaveOffset upd (force \<or> pb_OffsetTimeout p < int64 (now - pb_LastCheckTime p)) [] t = (err, rs, u)"
    by (metis prod_cases3)
  then have "rs = reqs" "u = t'"
    using assms(2) by (auto simp: Processor_SaveOffset_def split: if_splits)
  with SaveOffset_synced [OF assms(1) s]
  show "synced t' (service_after reqs svc)" "ot_offset t' = ot_offset t" by simp_all
qed

interpretation adaptor: offset_processor "adaptor_op upd now func" "adaptor_shut upd' now'"
proof unfold_locales
  fix t svc logs p err reqs p' t'
  assume "synced t svc" and "adaptor_op upd now func logs p t = (err, reqs, p', t')"
  then show "synced t' (service_after reqs svc)"
    by (auto simp: adaptor_op_def Adaptor_Process_def split: prod.splits user_result.splits
        dest: Processor_SaveOffset_synced(1))
next
  fix t svc p reqs p' t'
  assume "synced t svc" and "adaptor_shut upd' now' p t = (reqs, p', t')"
  then show "synced t' (service_after reqs svc)"
    by (simp add: adaptor_shut_def Processor_Shutdown_def Processor_SaveOffset_synced(1))
qed

text \<open>With an accepting service, the adaptor's shutdown commits the position reached.\<close>

lemma adaptor_shut_position:
  assumes "synced t svc" and "\<And>c. upd c = None" and "ot_offset t \<noteq> -1"
    and "adaptor_shut upd now p t = (reqs, p', t')"
  shows "service_after reqs svc = ot_offset t'"
proof -
  let ?u = "t\<lparr>tempOffset := ot_offset t\<rparr>"
  obtain err rs u where f: "FlushOffset upd False ?u = (err, rs, u)" by (metis prod_cases3)
  have "synced ?u svc" using assms(1) by (simp add: synced_def)
  note fl = FlushOffset_synced [OF this f]
  have "err = None" using f assms(2) by (auto simp: FlushOffset_def Let_def split: if_splits)
  moreover have "flush_target ?u = ot_offset t" by (simp add: flush_target_def)
  ultimately have "service_after rs svc = ot_offset t" using fl(2) assms(3) by simp
  moreover have "rs = reqs" "u = t'"
    using assms(4) f by (auto simp: adaptor_shut_def Processor_Shutdown_def Processor_SaveOffset_def SaveOffset_def)
  ultimately show ?thesis using fl(4) by simp
qed

section \<open>A worker's life\<close>

lemma fetch_loop_flags:
  "pw_closed (snd (fetch_loop ps st en n i off pw)) = pw_closed pw"
  by (induction n arbitrary: i off pw) (auto split: sum.splits option.splits)

lemma fetchData_flags: "pw_closed (snd (fetchData ps pw)) = pw_closed pw"
proof -
  have loop: "pw_closed w = pw_closed v" if "fetch_loop ps st en n i off v = (r, w)"
    for st en n i off r v and w :: "'a PartitionConsumerWorker"
    using fetch_loop_flags [of ps st en n i off v] that by simp
  have rest: "pw_closed (idle_flush ps gs (accept_response r w)) = pw_closed w" for gs r
    and w :: "'a PartitionConsumerWorker"
    by (simp add: idle_flush_def accept_response_def split: prod.splits)
  show ?thesis
    by (auto simp: fetchData_unfold Let_def rest dest!: loop split: prod.splits option.splits)
qed

lemma consume_pass_flags [simp]: "pw_closed (consume_pass process ps pw) = pw_closed pw"
proof -
  have "pw_closed (processData sd process gs w) = pw_closed w" for sd gs w
    by (simp add: processData_def Let_def split: prod.splits)
  then show ?thesis
    using fetchData_flags [of ps pw] by (simp add: consume_pass_def Let_def split_beta)
qed

lemma passes_flags: "pw_closed (fold (\<lambda>ps. consume_pass (process ps) ps) passes pw) = pw_closed pw"
  by (induction passes arbitrary: pw) simp_all

text \<open>What a run commits, whatever it meets.\<close>

lemma run_commits:
  assumes "settled pw svc" and "Initialized pw" "\<not> pw_shutdown pw" "\<not> pw_running pw" "\<not> pw_closed pw"
    and "ConsumeWithContext start atBegin init (\<lambda>ps. adaptor_op (ps_upd ps) (ps_now ps) func)
      (adaptor_shut upd now) upd passes pw = pw'"
  shows "settled pw' svc \<and> pw_closed pw' \<and> pw_shutdown pw' \<and> \<not> pw_running pw' \<and>
    ((\<forall>c. upd c = None) \<and> ot_offset (tracker pw') \<noteq> -1 \<longrightarrow>
      service_after (pw_commits pw') svc = ot_offset (tracker pw'))"
proof -
  let ?process = "\<lambda>ps. adaptor_op (ps_upd ps) (ps_now ps) func"
  define w where "w = fold (\<lambda>ps. consume_pass (?process ps) ps) passes (pw\<lparr>pw_running := True\<rparr>)"
  have "settled (pw\<lparr>pw_running := True\<rparr>) svc" using assms(1) by (simp add: settled_def)
  then have w: "settled w svc"
    unfolding w_def by (rule settled_passes [OF adaptor.offset_processor_axioms])
  have open_w: "\<not> pw_closed w" using assms(5) by (simp add: w_def passes_flags)
  have pw': "pw' = (pw_close upd (adaptor_shut upd now) w)\<lparr>pw_running := False\<rparr>"
    using assms(2-4,6) by (auto simp: ConsumeWithContext_def w_def)
  obtain err reqs t where f: "FlushOffset upd True (tracker w) = (err, reqs, t)" by (metis prod_cases3)
  obtain reqs' p t' where s: "adaptor_shut upd now (pw_processor w) t = (reqs', p, t')" by (metis prod_cases3)
  have closed: "pw_closed pw'" "pw_shutdown pw'" "\<not> pw_running pw'" "tracker pw' = t'"
    "pw_commits pw' = pw_commits w @ reqs @ reqs'"
    using open_w f s by (simp_all add: pw' pw_close_def Let_def)
  have t: "synced t (service_after reqs (service_after (pw_commits w) svc))"
    using FlushOffset_synced(1) [OF _ f] w by (simp add: settled_def)
  note t' = adaptor.shut_synced [OF this s]
  have "ot_offset t' = ot_offset t"
    using Processor_SaveOffset_synced(2) [OF t] s by (simp add: adaptor_shut_def Processor_Shutdown_def)
  with t' closed adaptor_shut_position [OF t _ _ s] show ?thesis by (simp add: settled_def)
qed

text \<open>
  C17: a partition worker with the adaptor as its processor commits soundly over its whole
  life.  Whatever the service answers to each pull and each commit, and whatever the user's
  function returns, the tracker's idea of the committed offset agrees with the service after
  the run; the worker ends closed and not running; and if the service accepts the final
  commits, it ends with exactly the position the tracker reached.
\<close>

theorem ConsumeWithContext_commits:
  assumes "settled pw svc" and "Initialized pw" "\<not> pw_shutdown pw" "\<not> pw_running pw" "\<not> pw_closed pw"
    and "ConsumeWithContext start atBegin init (\<lambda>ps. adaptor_op (ps_upd ps) (ps_now ps) func)
      (adaptor_shut upd now) upd passes pw = pw'"
  shows "settled pw' svc \<and> pw_closed pw' \<and> pw_shutdown pw' \<and> \<not> pw_running pw' \<and>
    ((\<forall>c. upd c = None) \<and> ot_offset (tracker pw') \<noteq> -1 \<longrightarrow>
      service_after (pw_commits pw') svc = ot_offset (tracker pw'))"
  by (rule run_commits [OF assms])

section \<open>What the commits do not promise\<close>

text \<open>What a fetch that brings something leaves in the tracker, and that processing does not change it.\<close>

lemma fetchData_position:
  assumes "reads serve ps" and "fetchData ps pw = (gs, pw')" and "gs \<noteq> []"
    and "0 < NextOffset (serve (NextFetchOffset pw))"
  shows "ot_offset (tracker pw') = NextOffset (serve (NextFetchOffset pw)) \<and> gs = LogGroups (serve (NextFetchOffset pw)) \<and>
    TotalLogsConsumed pw' = TotalLogsConsumed pw \<and> LogList pw' = LogList pw"
proof -
  let ?pw = "pw\<lparr>LastFetchTime := go_quot (ps_now_ns ps) 1000000\<rparr>"
  define timed where "timed = (0 < pw_StartTime pw \<or> 0 < pw_EndTime pw)"
  let ?loop = "fetch_loop ps (if timed then Some (pw_StartTime pw) else None)
      (if timed then Some (pw_EndTime pw) else None) 3 0 (NextFetchOffset pw) ?pw"
  have "?loop = (Some (serve (NextFetchOffset pw)), ?pw)"
    using fetch_loop_reads [OF assms(1), of "if timed then Some (pw_StartTime pw) else None"
        "if timed then Some (pw_EndTime pw) else None" 3 0 "NextFetchOffset pw" ?pw] assms(2,3)
    unfolding fetchData_unfold Let_def timed_def [symmetric] by (auto split: if_splits)
  then show ?thesis
    using assms(2-4) unfolding fetchData_unfold Let_def timed_def [symmetric]
    by (auto simp: accept_response_def GetNextOffset_def GetLogGroups_def idle_flush_def SetOffset_def split: if_splits)
qed

lemma adaptor_op_position:
  assumes "synced t svc" and "adaptor_op upd now func logs p t = (err, reqs, p', t')"
  shows "ot_offset t' = ot_offset t"
  using assms by (auto simp: adaptor_op_def Adaptor_Process_def split: prod.splits user_result.splits
      dest: Processor_SaveOffset_synced(2))

lemma processData_position:
  assumes "settled pw svc"
  shows "ot_offset (tracker (processData sd (adaptor_op upd now func) gs pw)) = ot_offset (tracker pw)"
proof -
  define logs where "logs = concat (map (\<lambda>g. GetLogs g) gs)"
  obtain err reqs p t where p: "adaptor_op upd now func logs (pw_processor pw) (tracker pw) = (err, reqs, p, t)"
    by (metis prod_cases4)
  have "ot_offset t = ot_offset (tracker pw)"
    using assms adaptor_op_position [OF _ p] by (auto simp: settled_def)
  with p show ?thesis by (auto simp: processData_def Let_def logs_def [symmetric])
qed

lemma FlushCheck_position:
  assumes "synced t svc" shows "ot_offset (snd (FlushCheck upd now t)) = ot_offset t"
proof -
  obtain err rs u where f: "FlushOffset upd False t = (err, rs, u)" by (metis prod_cases3)
  from FlushOffset_synced(4) [OF assms f] f show ?thesis by (auto simp: FlushCheck_def)
qed

lemma pw_close_position:
  assumes "settled pw svc"
  shows "ot_offset (tracker (pw_close upd (adaptor_shut upd' now) pw)) = ot_offset (tracker pw)"
proof -
  obtain err reqs t where f: "FlushOffset upd True (tracker pw) = (err, reqs, t)" by (metis prod_cases3)
  obtain reqs' p t' where s: "adaptor_shut upd' now (pw_processor pw) t = (reqs', p, t')" by (metis prod_cases3)
  have "synced t (service_after reqs (service_after (pw_commits pw) svc))"
    using FlushOffset_synced(1) [OF _ f] assms by (simp add: settled_def)
  then have "ot_offset t' = ot_offset t"
    using Processor_SaveOffset_synced(2) s by (auto simp: adaptor_shut_def Processor_Shutdown_def)
  with FlushOffset_synced(4) [OF assms [unfolded settled_def] f] f s show ?thesis
    by (simp add: pw_close_def Let_def)
qed

lemma pw_close_stats:
  "TotalLogsConsumed (pw_close upd shut pw) = TotalLogsConsumed pw" "LogList (pw_close upd shut pw) = LogList pw"
  by (simp_all add: pw_close_def Let_def split: prod.splits)

text \<open>The pass that fetches something moves the tracker behind it.\<close>

lemma consume_pass_position:
  assumes "settled w svc" and "reads serve ps" and "fetchData ps w = (gs, w1)" and "gs \<noteq> []"
    and "0 < NextOffset (serve (NextFetchOffset w))"
  shows "ot_offset (tracker (consume_pass (adaptor_op upd now func) ps w)) = NextOffset (serve (NextFetchOffset w))"
proof -
  define w2 where "w2 = (if 0 < length gs then processData (ps_shutdown ps 4) (adaptor_op upd now func) gs w1 else w1)"
  have w1: "settled w1 svc" using settled_fetchData [OF assms(1), of ps] assms(3) by simp
  have w2: "settled w2 svc" using w1 adaptor.settled_processData by (simp add: w2_def)
  have "ot_offset (tracker w2) = NextOffset (serve (NextFetchOffset w))"
    using fetchData_position [OF assms(2-5)] processData_position [OF w1] by (simp add: w2_def)
  with FlushCheck_position [OF w2 [unfolded settled_def], of "ps_upd ps" "ps_now ps"] consume_pass_steps [OF assms(3) w2_def]
  show ?thesis by simp
qed

lemma interrupted_pass:
  assumes "fetchData ps w = (gs, w1)" and "ps_shutdown ps 4"
  shows "consume_pass process ps w = w1\<lparr>tracker := snd (FlushCheck (ps_upd ps) (ps_now ps) (tracker w1)),
      pw_commits := pw_commits w1 @ fst (FlushCheck (ps_upd ps) (ps_now ps) (tracker w1))\<rparr>"
  using consume_pass_steps [OF assms(1) refl, of process] assms(2) by (simp add: processData_def)

text \<open>A pass whose worker is shut down between the fetch and the processing.\<close>

definition ex_interrupted :: pass where
  "ex_interrupted = (ex_pass 1)\<lparr>ps_shutdown := \<lambda>i. i = 4\<rparr>"

definition ex_run :: "(string \<Rightarrow> int \<Rightarrow> Log ptr list \<Rightarrow> user_result) \<Rightarrow> pass list
    \<Rightarrow> ProcessorBase PartitionConsumerWorker" where
  "ex_run func passes = ConsumeWithContext (Inr 0) (Inr 0) (\<lambda>i t p. p)
     (\<lambda>ps. adaptor_op (ps_upd ps) (ps_now ps) func) (adaptor_shut (\<lambda>c. None) 5) (\<lambda>c. None) passes
     (ex_consumer (NewProcessorBase 0))"

lemma ex_run_end: "ot_offset (tracker (ex_run (\<lambda>t i logs. RetOther) [ex_pass 1, ex_pass 9])) = 9"
  by code_simp

theorem ConsumeWithContext_commits_witness:
  "service_after (pw_commits (ex_run (\<lambda>t i logs. RetOther) [ex_pass 1, ex_pass 9])) 0 = 9"
proof -
  let ?pw = "ex_consumer (NewProcessorBase 0)"
  let ?run = "ex_run (\<lambda>t i logs. RetOther) [ex_pass 1, ex_pass 9]"
  have start: "settled ?pw 0" "Initialized ?pw" "\<not> pw_shutdown ?pw" "\<not> pw_running ?pw" "\<not> pw_closed ?pw"
    by (simp_all add: ex_consumer_def NewPartitionConsumerWorker_def settled_def synced_def NewOffsetTracker_def)
  have "ot_offset (tracker ?run) \<noteq> -1 \<Longrightarrow> service_after (pw_commits ?run) 0 = ot_offset (tracker ?run)"
    using ConsumeWithContext_commits [OF start ex_run_def [symmetric]] by simp
  with ex_run_end show ?thesis by simp
qed

text \<open>
  C35: the shutdown commits the position of the last fetch whether or not it was processed.
  Take any run of a partition worker with the adaptor whose last pass fetched something at the
  offset it had reached, before the worker was closed, and a service that accepts the commits
  of the closing.  Then the committed offset is the one behind what was fetched, and the next
  owner, if it is told this offset, starts there: whatever the user's function returned, so
  also when it returned false, which is documented as not saving the offset; and also when
  the worker was shut down between the fetch and the processing, in which case nothing of it
  was given to the function, whatever that is.
\<close>

theorem shutdown_commits_unprocessed:
  assumes "settled pw svc" and "Initialized pw" "\<not> pw_shutdown pw" "\<not> pw_running pw" "\<not> pw_closed pw"
    and "w = fold (\<lambda>ps. consume_pass (adaptor_op (ps_upd ps) (ps_now ps) func) ps) passes (pw\<lparr>pw_running := True\<rparr>)"
    and "reads serve ps" and "fetchData ps w = (gs, w1)" and "gs \<noteq> []"
    and "off = NextOffset (serve (NextFetchOffset w))" and "0 < off" and "\<forall>c. upd c = None"
    and "ConsumeWithContext start atBegin init (\<lambda>ps. adaptor_op (ps_upd ps) (ps_now ps) func)
      (adaptor_shut upd now) upd (passes @ [ps]) pw = pw'"
  shows "gs = LogGroups (serve (NextFetchOffset w)) \<and> service_after (pw_commits pw') svc = off \<and>
    NextFetchOffset (pw_initialize (Inr (service_after (pw_commits pw') svc)) b init' q) = off \<and>
    (ps_shutdown ps 4 \<longrightarrow> TotalLogsConsumed pw' = TotalLogsConsumed w \<and> LogList pw' = LogList w \<and>
      (\<forall>process process'. consume_pass process ps w = consume_pass process' ps w))"
proof -
  let ?process = "\<lambda>ps. adaptor_op (ps_upd ps) (ps_now ps) func"
  define v where "v = consume_pass (?process ps) ps w"
  have "settled (pw\<lparr>pw_running := True\<rparr>) svc" using assms(1) by (simp add: settled_def)
  then have w: "settled w svc"
    unfolding assms(6) by (rule settled_passes [OF adaptor.offset_processor_axioms])
  have v: "settled v svc" unfolding v_def by (rule adaptor.settled_pass [OF w])
  have pw': "pw' = (pw_close upd (adaptor_shut upd now) v)\<lparr>pw_running := False\<rparr>"
    using assms(2-4,13) by (auto simp: ConsumeWithContext_def v_def assms(6))
  note fetched = fetchData_position [OF assms(7-9) assms(11) [unfolded assms(10)]]
  have "ot_offset (tracker pw') = off"
    using consume_pass_position [OF w assms(7-9) assms(11) [unfolded assms(10)]] pw_close_position [OF v]
    by (simp add: pw' v_def assms(10))
  with run_commits [OF assms(1-5,13)] assms(11,12) have off: "service_after (pw_commits pw') svc = off" by simp
  moreover have "NextFetchOffset (pw_initialize (Inr off) b init' q) = off"
    using assms(11) by (simp add: pw_initialize_def)
  moreover have "TotalLogsConsumed pw' = TotalLogsConsumed w \<and> LogList pw' = LogList w \<and>
      (\<forall>process process'. consume_pass process ps w = consume_pass process' ps w)" if "ps_shutdown ps 4"
    using fetched interrupted_pass [OF assms(8) that] by (simp add: pw' pw_close_stats v_def)
  ultimately show ?thesis using fetched by simp
qed

text \<open>An interrupted pass, and a function that returns false.\<close>

theorem shutdown_commits_unprocessed_witness:
  "service_after (pw_commits (ex_run (\<lambda>t i logs. RetOther) [ex_interrupted])) 0 = 7 \<and>
   TotalLogsConsumed (ex_run (\<lambda>t i logs. RetOther) [ex_interrupted]) = 0 \<and>
   service_after (pw_commits (ex_run (\<lambda>t i logs. RetFalse) [ex_pass 1])) 0 = 7"
proof -
  let ?pw = "ex_consumer (NewProcessorBase 0)"
  let ?w = "?pw\<lparr>pw_running := True\<rparr>"
  have start: "settled ?pw 0" "Initialized ?pw" "\<not> pw_shutdown ?pw" "\<not> pw_running ?pw" "\<not> pw_closed ?pw"
    by (simp_all add: ex_consumer_def NewPartitionConsumerWorker_def settled_def synced_def NewOffsetTracker_def)
  have reads: "reads ex_serve ex_interrupted" "reads ex_serve (ex_pass 1)"
    using ex_pass_reads [of 1] by (simp_all add: reads_def ex_interrupted_def)
  have pulled: "fst (fetchData ex_interrupted ?w) \<noteq> []" "fst (fetchData (ex_pass 1) ?w) \<noteq> []"
    by code_simp+
  have off: "NextOffset (ex_serve (NextFetchOffset ?w)) = 7" by code_simp
  have none: "TotalLogsConsumed ?w = 0" by (simp add: ex_consumer_def NewPartitionConsumerWorker_def)
  have w: "?w = fold (\<lambda>ps. consume_pass (adaptor_op (ps_upd ps) (ps_now ps) func) ps) [] ?w" for func by simp
  have stops: "ps_shutdown ex_interrupted 4" by (simp add: ex_interrupted_def)
  have run: "ConsumeWithContext (Inr 0) (Inr 0) (\<lambda>i t p. p) (\<lambda>ps. adaptor_op (ps_upd ps) (ps_now ps) func)
      (adaptor_shut (\<lambda>c. None) 5) (\<lambda>c. None) ([] @ [ps]) ?pw = ex_run func [ps]" for func ps
    by (simp add: ex_run_def)
  have pos: "(0::int) < 7" and accepts: "\<forall>c. (\<lambda>c :: commit. None :: failure ptr) c = None" by simp_all
  have "service_after (pw_commits (ex_run func [ex_interrupted])) 0 = 7 \<and>
      TotalLogsConsumed (ex_run func [ex_interrupted]) = TotalLogsConsumed ?w" for func
    using shutdown_commits_unprocessed [OF start w reads(1) prod.collapse [symmetric] pulled(1) off [symmetric] pos accepts run]
      stops by blast
  moreover have "service_after (pw_commits (ex_run (\<lambda>t i logs. RetFalse) [ex_pass 1])) 0 = 7"
    using shutdown_commits_unprocessed [OF start w reads(2) prod.collapse [symmetric] pulled(2) off [symmetric] pos accepts run]
    by blast
  ultimately show ?thesis using none by simp
qed

end
