(* ===== verification/Heartbeat_Worker.thy ===== *)
theory Heartbeat_Worker
  imports Consumer_Client
begin

text \<open>
  \<^verbatim>\<open>consumer/heartbeat_worker.go\<close>: which partitions the service has assigned
  (\<open>HeldPartitions\<close>) and which the worker still accounts for (\<open>HeartPartitions\<close>).
  The lists are values here: \<open>copyPartitions\<close> keeps the two fields from sharing arrays.
\<close>

record ConsumerOption =
  co_Endpoint :: string
  co_AccessKeyID :: string
  co_AccessKey :: string
  co_Region :: string
  co_Internal :: bool
  co_LogsetID :: string
  co_TopicIDs :: "string list"
  co_ConsumerGroup :: string
  co_ConsumerName :: string
  co_HeartbeatInterval :: int
  co_DataFetchInterval :: int
  co_OffsetStartTime :: string
  co_MaxFetchLogGroupSize :: int
  co_OffsetEndTime :: string
  co_ConsumerGroupTimeout :: int
  co_StartTime :: int
  co_EndTime :: int
  co_Query :: string

record HeartbeatWorker =
  HeldPartitions :: "PartitionInfo list"
  HeartPartitions :: "PartitionInfo list"
  hb_isShutdown :: bool
  LastHeartbeatSuccessTime :: int

section \<open>Partition lists\<close>

definition emptyPartitions :: "ConsumerOption \<Rightarrow> PartitionInfo list" where
  "emptyPartitions opt = map (\<lambda>t. \<lparr>pi_TopicID = t, pi_Partitions = []\<rparr>) (co_TopicIDs opt)"

definition NewHeartbeatWorker :: "ConsumerOption \<Rightarrow> int \<Rightarrow> HeartbeatWorker" where
  "NewHeartbeatWorker opt now =
     \<lparr>HeldPartitions = map (\<lambda>t. \<lparr>pi_TopicID = t, pi_Partitions = []\<rparr>) (co_TopicIDs opt),
      HeartPartitions = map (\<lambda>t. \<lparr>pi_TopicID = t, pi_Partitions = []\<rparr>) (co_TopicIDs opt),
      hb_isShutdown = False, LastHeartbeatSuccessTime = now\<rparr>"

definition copyPartitions :: "PartitionInfo list \<Rightarrow> PartitionInfo list" where
  "copyPartitions ps =
     map (\<lambda>p. \<lparr>pi_TopicID = pi_TopicID p, pi_Partitions = [] @ pi_Partitions p\<rparr>) ps"

definition buildHeartbeatPartitions :: "ConsumerOption \<Rightarrow> HeartbeatWorker \<Rightarrow> PartitionInfo list" where
  "buildHeartbeatPartitions opt hw =
     (if 0 < length (HeldPartitions hw) then copyPartitions (HeldPartitions hw)
      else map (\<lambda>t. \<lparr>pi_TopicID = t, pi_Partitions = []\<rparr>) (co_TopicIDs opt))"

text \<open>The loops over indices \<open>i\<close> and \<open>j\<close> of \<open>equalPartitions\<close>.\<close>

fun equal_ids :: "int list \<Rightarrow> int list \<Rightarrow> bool" where
  "equal_ids [] ys = True"
| "equal_ids (x # xs) (y # ys) = (if x \<noteq> y then False else equal_ids xs ys)"
| "equal_ids (x # xs) [] = False"

fun equal_infos :: "PartitionInfo list \<Rightarrow> PartitionInfo list \<Rightarrow> bool" where
  "equal_infos [] ys = True"
| "equal_infos (x # xs) (y # ys) =
     (if pi_TopicID x \<noteq> pi_TopicID y then False
      else if length (pi_Partitions x) \<noteq> length (pi_Partitions y) then False
      else if \<not> equal_ids (pi_Partitions x) (pi_Partitions y) then False
      else equal_infos xs ys)"
| "equal_infos (x # xs) [] = False"

definition equalPartitions :: "PartitionInfo list \<Rightarrow> PartitionInfo list \<Rightarrow> bool" where
  "equalPartitions p1 p2 = (if length p1 \<noteq> length p2 then False else equal_infos p1 p2)"

definition subPartitionIDs :: "int list \<Rightarrow> int list \<Rightarrow> int list" where
  "subPartitionIDs ids1 ids2 = filter (\<lambda>i. i \<notin> set ids2) ids1"

text \<open>The inner loop with \<open>break\<close>: the first entry of \<open>p2\<close> for the topic.\<close>

fun first_of_topic :: "string \<Rightarrow> PartitionInfo list \<Rightarrow> PartitionInfo option" where
  "first_of_topic t [] = None"
| "first_of_topic t (x # xs) = (if pi_TopicID x = t then Some x else first_of_topic t xs)"

fun show_ints :: "int list \<Rightarrow> string" where
  "show_ints [] = ''''"
| "show_ints [i] = decimal i"
| "show_ints (i # is) = decimal i @ '' '' @ show_ints is"

definition formatPartitionInfo :: "string \<Rightarrow> int list \<Rightarrow> string" where
  "formatPartitionInfo topicID ids = topicID @ ''[['' @ show_ints ids @ '']]''"

definition subPartitions :: "PartitionInfo list \<Rightarrow> PartitionInfo list \<Rightarrow> string list" where
  "subPartitions p1 p2 =
     concat (map (\<lambda>a. case first_of_topic (pi_TopicID a) p2 of
         None \<Rightarrow> []
       | Some b \<Rightarrow> let diff = subPartitionIDs (pi_Partitions a) (pi_Partitions b) in
           if 0 < length diff then [formatPartitionInfo (pi_TopicID a) diff] else []) p1) @
     map (\<lambda>a. formatPartitionInfo (pi_TopicID a) (pi_Partitions a))
       (filter (\<lambda>a. first_of_topic (pi_TopicID a) p2 = None) p1)"

text \<open>
  The merged ids are read back from a Go map, whose order is open: \<open>ord\<close> is the order the
  run happens to take.
\<close>

type_synonym map_order = "int list \<Rightarrow> int list"

definition mergePartitionIDs :: "map_order \<Rightarrow> int list \<Rightarrow> int list \<Rightarrow> int list" where
  "mergePartitionIDs ord ids1 ids2 = ord (remdups (ids1 @ ids2))"

definition addPartitions :: "map_order \<Rightarrow> PartitionInfo list \<Rightarrow> PartitionInfo list \<Rightarrow> PartitionInfo list" where
  "addPartitions ord p1 p2 =
     concat (map (\<lambda>a. case first_of_topic (pi_TopicID a) p2 of
         None \<Rightarrow> []
       | Some b \<Rightarrow> [\<lparr>pi_TopicID = pi_TopicID a,
                   pi_Partitions = mergePartitionIDs ord (pi_Partitions a) (pi_Partitions b)\<rparr>]) p1) @
     filter (\<lambda>a. first_of_topic (pi_TopicID a) p2 = None) p1 @
     filter (\<lambda>b. first_of_topic (pi_TopicID b) p1 = None) p2"

section \<open>Heartbeats\<close>

text \<open>The update under the write lock, \<open>resp\<close> being what \<open>ConsumerClient.Heartbeat\<close> gave.\<close>

definition apply_heartbeat ::
    "map_order \<Rightarrow> ConsumerOption \<Rightarrow> int \<Rightarrow> PartitionInfo list option \<Rightarrow> HeartbeatWorker
     \<Rightarrow> bool \<times> HeartbeatWorker" where
  "apply_heartbeat ord opt now resp hw =
     (case resp of
        Some ps \<Rightarrow>
          (True, hw\<lparr>HeartPartitions := addPartitions ord (HeartPartitions hw) ps,
                    HeldPartitions := copyPartitions ps\<rparr>)
      | None \<Rightarrow>
          if int64 (co_ConsumerGroupTimeout opt + co_HeartbeatInterval opt)
             < int64 (now - LastHeartbeatSuccessTime hw)
          then (False, hw\<lparr>HeartPartitions := emptyPartitions opt,
                          HeldPartitions := copyPartitions (emptyPartitions opt)\<rparr>)
          else (False, hw\<lparr>HeartPartitions :=
                  addPartitions ord (HeartPartitions hw) (HeldPartitions hw)\<rparr>))"

text \<open>
  The network call is made without the lock: \<open>env\<close> is what other goroutines (the removal of
  a partition) do to the worker meanwhile.
\<close>

definition sendHeartbeat ::
    "map_order \<Rightarrow> ConsumerOption \<Rightarrow> (PartitionInfo list \<Rightarrow> PartitionInfo list option)
     \<Rightarrow> (HeartbeatWorker \<Rightarrow> HeartbeatWorker) \<Rightarrow> int \<Rightarrow> HeartbeatWorker \<Rightarrow> bool \<times> HeartbeatWorker" where
  "sendHeartbeat ord opt call env now hw =
     (let partitions = buildHeartbeatPartitions opt hw
      in apply_heartbeat ord opt now (call partitions) (env hw))"

definition GetHeldPartitions :: "HeartbeatWorker \<Rightarrow> PartitionInfo list" where
  "GetHeldPartitions hw = copyPartitions (HeldPartitions hw)"

fun remove_id :: "int \<Rightarrow> int list \<Rightarrow> int list" where
  "remove_id p [] = []"
| "remove_id p (x # xs) = (if x = p then xs else x # remove_id p xs)"

fun remove_in_topic :: "string \<Rightarrow> int \<Rightarrow> PartitionInfo list \<Rightarrow> PartitionInfo list" where
  "remove_in_topic t p [] = []"
| "remove_in_topic t p (x # xs) =
     (if pi_TopicID x = t then x\<lparr>pi_Partitions := remove_id p (pi_Partitions x)\<rparr> # xs
      else x # remove_in_topic t p xs)"

definition RemoveHeartPartition :: "string \<Rightarrow> int \<Rightarrow> HeartbeatWorker \<Rightarrow> HeartbeatWorker" where
  "RemoveHeartPartition topicID partitionID hw =
     hw\<lparr>HeldPartitions := remove_in_topic topicID partitionID (HeldPartitions hw),
        HeartPartitions := remove_in_topic topicID partitionID (HeartPartitions hw)\<rparr>"

text \<open>
  One iteration of \<open>run\<close>: nothing once shut down, otherwise a heartbeat, whose success is
  timed at \<open>now'\<close>.
\<close>

definition hb_round ::
    "map_order \<Rightarrow> ConsumerOption \<Rightarrow> (PartitionInfo list \<Rightarrow> PartitionInfo list option)
     \<Rightarrow> (HeartbeatWorker \<Rightarrow> HeartbeatWorker) \<Rightarrow> int \<Rightarrow> int \<Rightarrow> HeartbeatWorker \<Rightarrow> HeartbeatWorker" where
  "hb_round ord opt call env now now' hw =
     (if hb_isShutdown hw then hw
      else let (success, hw') = sendHeartbeat ord opt call env now hw
           in if success then hw'\<lparr>LastHeartbeatSuccessTime := now'\<rparr> else hw')"

definition hb_Shutdown :: "HeartbeatWorker \<Rightarrow> HeartbeatWorker" where
  "hb_Shutdown hw = (if hb_isShutdown hw then hw else hw\<lparr>hb_isShutdown := True\<rparr>)"

definition hb_IsShutdown :: "HeartbeatWorker \<Rightarrow> bool" where
  "hb_IsShutdown hw = hb_isShutdown hw"

section \<open>What a list of partitions says\<close>

definition holds :: "PartitionInfo list \<Rightarrow> string \<Rightarrow> int \<Rightarrow> bool" where
  "holds ps t p \<longleftrightarrow> (\<exists>x\<in>set ps. pi_TopicID x = t \<and> p \<in> set (pi_Partitions x))"

definition wf_parts :: "PartitionInfo list \<Rightarrow> bool" where
  "wf_parts ps \<longleftrightarrow> distinct (map pi_TopicID ps) \<and> (\<forall>x\<in>set ps. distinct (pi_Partitions x))"

definition order_ok :: "map_order \<Rightarrow> bool" where
  "order_ok ord \<longleftrightarrow> (\<forall>xs. mset (ord xs) = mset xs)"

lemma order_okD:
  assumes "order_ok ord"
  shows "set (ord xs) = set xs" and "distinct (ord xs) = distinct xs"
  using assms by (auto simp: order_ok_def dest: mset_eq_setD mset_eq_imp_distinct_iff)

lemma copyPartitions_id [simp]: "copyPartitions ps = ps"
  by (simp add: copyPartitions_def map_idI)

lemma holds_simps [simp]:
  "holds [] t p = False"
  "holds (x # xs) t p \<longleftrightarrow> (pi_TopicID x = t \<and> p \<in> set (pi_Partitions x)) \<or> holds xs t p"
  "holds (xs @ ys) t p \<longleftrightarrow> holds xs t p \<or> holds ys t p"
  by (auto simp: holds_def)

lemma first_of_topic_None: "first_of_topic t ps = None \<longleftrightarrow> t \<notin> pi_TopicID ` set ps"
  by (induction ps) auto

lemma first_of_topic_Some: "first_of_topic t ps = Some x \<Longrightarrow> x \<in> set ps \<and> pi_TopicID x = t"
  by (induction ps) (auto split: if_splits)

lemma holds_first:
  assumes "distinct (map pi_TopicID ps)"
  shows "holds ps t p \<longleftrightarrow> (case first_of_topic t ps of None \<Rightarrow> False | Some x \<Rightarrow> p \<in> set (pi_Partitions x))"
  using assms
proof (induction ps)
  case (Cons x xs)
  have "\<not> holds xs (pi_TopicID x) p" using Cons.prems by (auto simp: holds_def rev_image_eqI)
  with Cons show ?case by auto
qed simp

lemma holds_emptyPartitions [simp]: "\<not> holds (emptyPartitions opt) t p"
  by (auto simp: holds_def emptyPartitions_def)

lemma wf_emptyPartitions: "distinct (co_TopicIDs opt) \<Longrightarrow> wf_parts (emptyPartitions opt)"
  by (simp add: wf_parts_def emptyPartitions_def comp_def)

text \<open>Comparing index by index is equality.\<close>

lemma equalPartitions_iff: "equalPartitions p1 p2 \<longleftrightarrow> p1 = p2"
proof -
  have ids: "length xs = length ys \<Longrightarrow> equal_ids xs ys \<longleftrightarrow> xs = ys" for xs ys :: "int list"
    by (induction xs ys rule: equal_ids.induct) auto
  have "length xs = length ys \<Longrightarrow> equal_infos xs ys \<longleftrightarrow> xs = ys" for xs ys :: "PartitionInfo list"
    by (induction xs ys rule: equal_infos.induct) (auto simp: ids intro: PartitionInfo.equality)
  then show ?thesis by (auto simp: equalPartitions_def)
qed

section \<open>Merging is union\<close>

lemma holds_merged:
  assumes "order_ok ord" and "distinct (map pi_TopicID p1)" and "distinct (map pi_TopicID p2)"
  shows "holds (concat (map (\<lambda>a. case first_of_topic (pi_TopicID a) p2 of None \<Rightarrow> []
       | Some b \<Rightarrow> [\<lparr>pi_TopicID = pi_TopicID a,
                   pi_Partitions = mergePartitionIDs ord (pi_Partitions a) (pi_Partitions b)\<rparr>]) p1)) t p \<longleftrightarrow>
    t \<in> pi_TopicID ` set p1 \<and> t \<in> pi_TopicID ` set p2 \<and> (holds p1 t p \<or> holds p2 t p)"
  using assms(2)
proof (induction p1)
  case (Cons a p1)
  have here: "holds (case first_of_topic (pi_TopicID a) p2 of None \<Rightarrow> []
       | Some b \<Rightarrow> [\<lparr>pi_TopicID = pi_TopicID a,
           pi_Partitions = mergePartitionIDs ord (pi_Partitions a) (pi_Partitions b)\<rparr>]) t p \<longleftrightarrow>
    pi_TopicID a = t \<and> t \<in> pi_TopicID ` set p2 \<and> (p \<in> set (pi_Partitions a) \<or> holds p2 t p)"
    using first_of_topic_None [of "pi_TopicID a" p2] holds_first [OF assms(3), of "pi_TopicID a" p]
    by (auto simp: mergePartitionIDs_def order_okD [OF assms(1)] split: option.splits)
  have "\<not> holds p1 (pi_TopicID a) p" using Cons.prems by (auto simp: holds_def rev_image_eqI)
  moreover have "holds p1 t p \<Longrightarrow> t \<in> pi_TopicID ` set p1" by (auto simp: holds_def)
  ultimately show ?case using Cons here by auto
qed simp

lemma holds_filter_topic:
  "holds (filter (\<lambda>a. first_of_topic (pi_TopicID a) q = None) ps) t p \<longleftrightarrow>
     t \<notin> pi_TopicID ` set q \<and> holds ps t p"
  by (auto simp: holds_def first_of_topic_None)

lemma holds_topic: "holds ps t p \<Longrightarrow> t \<in> pi_TopicID ` set ps"
  by (auto simp: holds_def)

lemma holds_addPartitions:
  assumes "order_ok ord" and "wf_parts p1" and "wf_parts p2"
  shows "holds (addPartitions ord p1 p2) t p \<longleftrightarrow> holds p1 t p \<or> holds p2 t p"
  using holds_merged [OF assms(1), of p1 p2 t p] assms(2,3) holds_topic [of p1 t p] holds_topic [of p2 t p]
  by (auto simp: addPartitions_def holds_filter_topic wf_parts_def)

lemma topics_merged:
  "map pi_TopicID (concat (map (\<lambda>a. case first_of_topic (pi_TopicID a) p2 of None \<Rightarrow> []
       | Some b \<Rightarrow> [\<lparr>pi_TopicID = pi_TopicID a,
                   pi_Partitions = mergePartitionIDs ord (pi_Partitions a) (pi_Partitions b)\<rparr>]) p1)) =
   filter (\<lambda>t. t \<in> pi_TopicID ` set p2) (map pi_TopicID p1)"
proof (induction p1)
  case (Cons a p1)
  show ?case
  proof (cases "first_of_topic (pi_TopicID a) p2")
    case None
    then have "pi_TopicID a \<notin> pi_TopicID ` set p2" by (rule first_of_topic_None [THEN iffD1])
    with None Cons show ?thesis by simp
  next
    case (Some b)
    with first_of_topic_Some [OF Some] have "pi_TopicID a \<in> pi_TopicID ` set p2" by (metis imageI)
    with Some Cons show ?thesis by simp
  qed
qed simp

lemma wf_addPartitions:
  assumes "order_ok ord" and "wf_parts p1" and "wf_parts p2"
  shows "wf_parts (addPartitions ord p1 p2)"
proof -
  have none: "first_of_topic (pi_TopicID a) ps = None \<longleftrightarrow> pi_TopicID a \<notin> pi_TopicID ` set ps" for a ps
    by (rule first_of_topic_None)
  have "map pi_TopicID (addPartitions ord p1 p2) =
      filter (\<lambda>t. t \<in> pi_TopicID ` set p2) (map pi_TopicID p1) @
      filter (\<lambda>t. t \<notin> pi_TopicID ` set p2) (map pi_TopicID p1) @
      filter (\<lambda>t. t \<notin> pi_TopicID ` set p1) (map pi_TopicID p2)"
    unfolding addPartitions_def map_append topics_merged none filter_map comp_def by simp
  then have "distinct (map pi_TopicID (addPartitions ord p1 p2))"
    using assms(2,3) by (auto simp: wf_parts_def)
  moreover have "distinct (pi_Partitions x)" if "x \<in> set (addPartitions ord p1 p2)" for x
    using that assms by (auto simp: addPartitions_def wf_parts_def mergePartitionIDs_def order_okD
        split: option.splits)
  ultimately show ?thesis by (simp add: wf_parts_def)
qed

section \<open>Removal\<close>

lemma set_remove_id: "distinct xs \<Longrightarrow> set (remove_id p xs) = set xs - {p} \<and> distinct (remove_id p xs)"
  by (induction xs) auto

lemma topics_remove [simp]: "map pi_TopicID (remove_in_topic t p ps) = map pi_TopicID ps"
  by (induction ps) auto

lemma holds_remove:
  assumes "wf_parts ps"
  shows "holds (remove_in_topic t p ps) t' p' \<longleftrightarrow> holds ps t' p' \<and> \<not> (t' = t \<and> p' = p)"
  using assms
proof (induction ps)
  case (Cons x xs)
  have "\<not> holds xs (pi_TopicID x) p'" using Cons.prems by (auto simp: holds_def wf_parts_def rev_image_eqI)
  moreover have "distinct (pi_Partitions x)" "wf_parts xs" using Cons.prems by (auto simp: wf_parts_def)
  ultimately show ?case using Cons.IH set_remove_id [of "pi_Partitions x" p] by auto
qed simp

lemma wf_remove: "wf_parts ps \<Longrightarrow> wf_parts (remove_in_topic t p ps)"
proof -
  assume wf: "wf_parts ps"
  have "distinct (pi_Partitions y)" if "y \<in> set (remove_in_topic t p ps)" for y
    using that wf
  proof (induction ps)
    case (Cons x xs)
    then show ?case using set_remove_id [of "pi_Partitions x" p] by (auto simp: wf_parts_def split: if_splits)
  qed simp
  with wf show ?thesis by (simp add: wf_parts_def)
qed

section \<open>The worker's invariant\<close>

definition hb_inv :: "HeartbeatWorker \<Rightarrow> bool" where
  "hb_inv hw \<longleftrightarrow> wf_parts (HeldPartitions hw) \<and> wf_parts (HeartPartitions hw) \<and>
     (\<forall>t p. holds (HeldPartitions hw) t p \<longrightarrow> holds (HeartPartitions hw) t p)"

definition lost_contact :: "ConsumerOption \<Rightarrow> int \<Rightarrow> HeartbeatWorker \<Rightarrow> bool" where
  "lost_contact opt now hw \<longleftrightarrow>
     int64 (co_ConsumerGroupTimeout opt + co_HeartbeatInterval opt) < int64 (now - LastHeartbeatSuccessTime hw)"

lemma heartbeat_view:
  assumes "hb_inv hw" and "order_ok ord" and "distinct (co_TopicIDs opt)"
    and "\<And>ps. resp = Some ps \<Longrightarrow> wf_parts ps"
    and "apply_heartbeat ord opt now resp hw = (ok, hw')"
  shows "hb_inv hw' \<and> ok = (resp \<noteq> None) \<and>
    holds (HeldPartitions hw') t p =
      (case resp of Some ps \<Rightarrow> holds ps t p
       | None \<Rightarrow> holds (HeldPartitions hw) t p \<and> \<not> lost_contact opt now hw) \<and>
    holds (HeartPartitions hw') t p =
      (case resp of Some ps \<Rightarrow> holds (HeartPartitions hw) t p \<or> holds ps t p
       | None \<Rightarrow> holds (HeartPartitions hw) t p \<and> \<not> lost_contact opt now hw)"
proof (cases resp)
  case (Some ps)
  with assms show ?thesis
    by (auto simp: apply_heartbeat_def hb_inv_def holds_addPartitions wf_addPartitions)
next
  case None
  show ?thesis
  proof (cases "lost_contact opt now hw")
    case True
    with None assms(5) have "ok = False" "hw' = hw\<lparr>HeartPartitions := emptyPartitions opt,
        HeldPartitions := emptyPartitions opt\<rparr>"
      by (simp_all add: apply_heartbeat_def lost_contact_def)
    with True None assms(3) show ?thesis by (simp add: hb_inv_def wf_emptyPartitions)
  next
    case False
    with None assms(5) have "ok = False" "hw' = hw\<lparr>HeartPartitions :=
        addPartitions ord (HeartPartitions hw) (HeldPartitions hw)\<rparr>"
      by (simp_all add: apply_heartbeat_def lost_contact_def)
    with False None assms(1,2) show ?thesis
      by (auto simp: hb_inv_def holds_addPartitions wf_addPartitions)
  qed
qed

text \<open>
  A heartbeat keeps the worker's view consistent.  Every partition it holds is accounted
  for in \<open>HeartPartitions\<close>, without duplicates, whatever order the merge takes; a successful
  heartbeat holds exactly what the service assigned; a failed one keeps the held partitions
  for the grace period (group timeout plus interval) and then gives up all of them, so that no
  two consumers of a group work on a partition for longer than that.
\<close>

theorem heartbeat_consistent:
  assumes "hb_inv hw" and "order_ok ord" and "distinct (co_TopicIDs opt)"
    and "\<And>ps. resp = Some ps \<Longrightarrow> wf_parts ps"
    and "apply_heartbeat ord opt now resp hw = (ok, hw')"
  shows "hb_inv hw' \<and> ok = (resp \<noteq> None) \<and>
    holds (HeldPartitions hw') t p =
      (case resp of Some ps \<Rightarrow> holds ps t p
       | None \<Rightarrow> holds (HeldPartitions hw) t p \<and> \<not> lost_contact opt now hw) \<and>
    holds (HeartPartitions hw') t p =
      (case resp of Some ps \<Rightarrow> holds (HeartPartitions hw) t p \<or> holds ps t p
       | None \<Rightarrow> holds (HeartPartitions hw) t p \<and> \<not> lost_contact opt now hw)"
  by (rule heartbeat_view [OF assms])

text \<open>
  Giving a partition up removes it, and nothing else, from both views, so the next
  heartbeat no longer reports it.
\<close>

theorem RemoveHeartPartition_exact:
  assumes "hb_inv hw"
  shows "hb_inv (RemoveHeartPartition topicID partitionID hw) \<and>
    holds (HeldPartitions (RemoveHeartPartition topicID partitionID hw)) t p =
      (holds (HeldPartitions hw) t p \<and> (t, p) \<noteq> (topicID, partitionID)) \<and>
    holds (HeartPartitions (RemoveHeartPartition topicID partitionID hw)) t p =
      (holds (HeartPartitions hw) t p \<and> (t, p) \<noteq> (topicID, partitionID))"
  using assms by (auto simp: RemoveHeartPartition_def hb_inv_def holds_remove wf_remove)

definition ex_held :: HeartbeatWorker where
  "ex_held = \<lparr>HeldPartitions = [\<lparr>pi_TopicID = ''t'', pi_Partitions = [1, 2]\<rparr>],
     HeartPartitions = [\<lparr>pi_TopicID = ''t'', pi_Partitions = [2, 1, 3]\<rparr>],
     hb_isShutdown = False, LastHeartbeatSuccessTime = 100\<rparr>"

definition ex_option :: ConsumerOption where
  "ex_option = \<lparr>co_Endpoint = ''e'', co_AccessKeyID = ''i'', co_AccessKey = ''k'', co_Region = ''r'',
     co_Internal = False, co_LogsetID = ''l'', co_TopicIDs = [''t''], co_ConsumerGroup = ''g'',
     co_ConsumerName = ''c'', co_HeartbeatInterval = 20, co_DataFetchInterval = 2,
     co_OffsetStartTime = ''begin'', co_MaxFetchLogGroupSize = 10, co_OffsetEndTime = '''',
     co_ConsumerGroupTimeout = 60, co_StartTime = 0, co_EndTime = 0, co_Query = ''''\<rparr>"

lemma ex_held_inv: "hb_inv ex_held"
  by (auto simp: hb_inv_def ex_held_def wf_parts_def)

theorem heartbeat_consistent_witness:
  "\<not> holds (HeldPartitions (snd (apply_heartbeat rev ex_option 200 None ex_held))) ''t'' 1"
proof -
  have ord: "order_ok rev" by (simp add: order_ok_def)
  show ?thesis
    using heartbeat_consistent [OF ex_held_inv ord, of ex_option None 200, OF _ _ surjective_pairing, of "''t''" 1]
    by (simp add: ex_option_def lost_contact_def ex_held_def in_int64_def)
qed

theorem RemoveHeartPartition_exact_witness:
  "holds (HeldPartitions (RemoveHeartPartition ''t'' 1 ex_held)) ''t'' 2 \<and>
   \<not> holds (HeldPartitions (RemoveHeartPartition ''t'' 1 ex_held)) ''t'' 1"
  using RemoveHeartPartition_exact [OF ex_held_inv, of "''t''" 1 "''t''"]
  by (auto simp: ex_held_def)

end
