(* ===== verification/Consumer_Worker.thy ===== *)
theory Consumer_Worker
  imports Consumer_Commits Heartbeat_Worker Go_Text
begin

text \<open>
  \<^verbatim>\<open>consumer/worker.go\<close>: the worker that keeps one partition worker per partition the
  heartbeat holds, stops by itself at a configured end, and shuts everything down.
\<close>

section \<open>State\<close>

type_synonym user_func = "string \<Rightarrow> int \<Rightarrow> Log ptr list \<Rightarrow> user_result"

text \<open>
  A processor is the SDK's adaptor around a user function, which has a state of its own, or
  an object of the user's, of which only the identity is known.
\<close>

datatype 'h Processor = Adaptor ProcessorBase user_func | UserProcessor 'h

type_synonym 'h worker_map = "(string, 'h Processor PartitionConsumerWorker) gomap"

record 'h ConsumerWorker =
  cw_Option :: ConsumerOption
  cw_Processor :: "'h Processor"
  PartitionWorkers :: "'h worker_map"
  cw_Heartbeat :: "HeartbeatWorker ptr"
  cw_isShutdown :: bool
  LastOwnedConsumerFinishTime :: int
  cw_cancelled :: bool

text \<open>The worker before it runs; its options have been checked.\<close>

definition fresh_ConsumerWorker :: "ConsumerOption \<Rightarrow> 'h Processor \<Rightarrow> 'h ConsumerWorker" where
  "fresh_ConsumerWorker opt proc =
     \<lparr>cw_Option = opt, cw_Processor = proc, PartitionWorkers = [], cw_Heartbeat = None,
      cw_isShutdown = False, LastOwnedConsumerFinishTime = 0, cw_cancelled = False\<rparr>"

section \<open>Partition workers\<close>

text \<open>\<open>fmt.Sprintf ("%s:%d", topicID, partitionID)\<close>, and its reading back.\<close>

definition partition_key :: "string \<Rightarrow> int \<Rightarrow> string" where
  "partition_key topicID partitionID = topicID @ '':'' @ decimal partitionID"

definition parse_key :: "string \<Rightarrow> (string \<times> int) option" where
  "parse_key key = (case split_at (CHR '':'') key of
       [t, p] \<Rightarrow> (case Atoi p of Some i \<Rightarrow> Some (t, i) | None \<Rightarrow> None)
     | _ \<Rightarrow> None)"

text \<open>The adaptor keeps state, so every partition gets a copy of its own.\<close>

definition createProcessorInstance :: "int \<Rightarrow> 'h ConsumerWorker \<Rightarrow> 'h Processor" where
  "createProcessorInstance now cw = (case cw_Processor cw of
       Adaptor base func \<Rightarrow> Adaptor (NewProcessorBase now) func
     | UserProcessor h \<Rightarrow> UserProcessor h)"

definition new_worker :: "int \<Rightarrow> 'h ConsumerWorker \<Rightarrow> string \<Rightarrow> int \<Rightarrow> 'h Processor PartitionConsumerWorker" where
  "new_worker now cw topicID partitionID =
     NewPartitionConsumerWorker topicID partitionID (co_ConsumerName (cw_Option cw))
       (createProcessorInstance now cw) (co_OffsetStartTime (cw_Option cw))
       (co_MaxFetchLogGroupSize (cw_Option cw)) (co_OffsetEndTime (cw_Option cw))
       (co_StartTime (cw_Option cw)) (co_EndTime (cw_Option cw)) (co_Query (cw_Option cw))"

definition getOrCreatePartitionWorker ::
    "int \<Rightarrow> string \<Rightarrow> int \<Rightarrow> 'h ConsumerWorker
     \<Rightarrow> 'h Processor PartitionConsumerWorker \<times> 'h ConsumerWorker" where
  "getOrCreatePartitionWorker now topicID partitionID cw =
     (let key = partition_key topicID partitionID in
      case gm_get (PartitionWorkers cw) key of
        Some worker \<Rightarrow> (worker, cw)
      | None \<Rightarrow>
          let worker = new_worker now cw topicID partitionID
          in (worker, cw\<lparr>PartitionWorkers := gm_put key worker (PartitionWorkers cw)\<rparr>))"

text \<open>The two nested loops over the assigned partitions, as one list of pairs.\<close>

definition assigned :: "PartitionInfo list \<Rightarrow> (string \<times> int) list" where
  "assigned ps = concat (map (\<lambda>p. map (\<lambda>i. (pi_TopicID p, i)) (pi_Partitions p)) ps)"

text \<open>Every assigned partition gets its worker, and a goroutine that consumes is started.\<close>

fun start_workers :: "int \<Rightarrow> (string \<times> int) list \<Rightarrow> 'h ConsumerWorker \<Rightarrow> string list \<times> 'h ConsumerWorker" where
  "start_workers now [] cw = ([], cw)"
| "start_workers now ((t, p) # ps) cw =
     (let (worker, cw') = getOrCreatePartitionWorker now t p cw;
          (keys, cw'') = start_workers now ps cw'
      in (partition_key t p # keys, cw''))"

section \<open>Giving partitions up\<close>

definition give_up :: "string \<Rightarrow> HeartbeatWorker ptr \<Rightarrow> HeartbeatWorker ptr" where
  "give_up key hb = (case hb of
       None \<Rightarrow> None
     | Some hw \<Rightarrow> (case parse_key key of
           Some (t, p) \<Rightarrow> Some (RemoveHeartPartition t p hw)
         | None \<Rightarrow> Some hw))"

text \<open>
  The loop over the map: a worker without an assignment is shut down; a worker that is shut
  down, for whatever reason, is given up and its key collected.
\<close>

fun cleanup_scan ::
    "commit_call \<Rightarrow> 'h Processor shutdown_op \<Rightarrow> string list \<Rightarrow> 'h worker_map \<Rightarrow> HeartbeatWorker ptr
     \<Rightarrow> 'h worker_map \<times> HeartbeatWorker ptr \<times> string list" where
  "cleanup_scan upd shut activeKeys [] hb = ([], hb, [])"
| "cleanup_scan upd shut activeKeys ((key, worker) # es) hb =
     (let worker' = (if key \<notin> set activeKeys then pw_ShutDown upd shut worker else worker);
          (hb', removed) = (if pw_IsShutdown worker' then (give_up key hb, [key]) else (hb, []));
          (es', hb'', removeKeys) = cleanup_scan upd shut activeKeys es hb'
      in ((key, worker') # es', hb'', removed @ removeKeys))"

definition cleanupUnusedPartitionWorkers ::
    "commit_call \<Rightarrow> 'h Processor shutdown_op \<Rightarrow> PartitionInfo list \<Rightarrow> 'h ConsumerWorker
     \<Rightarrow> 'h ConsumerWorker" where
  "cleanupUnusedPartitionWorkers upd shut activePartitions cw =
     (let activeKeys = map (\<lambda>(t, p). partition_key t p) (assigned activePartitions);
          (es, hb, removeKeys) = cleanup_scan upd shut activeKeys (PartitionWorkers cw) (cw_Heartbeat cw)
      in cw\<lparr>PartitionWorkers := fold gm_delete removeKeys es, cw_Heartbeat := hb\<rparr>)"

section \<open>Stopping\<close>

definition snapshotPartitionWorkers :: "'h ConsumerWorker \<Rightarrow> 'h Processor PartitionConsumerWorker list" where
  "snapshotPartitionWorkers cw = map snd (PartitionWorkers cw)"

definition needStop :: "int \<Rightarrow> 'h ConsumerWorker \<Rightarrow> bool \<times> 'h ConsumerWorker" where
  "needStop now cw =
     (if co_OffsetEndTime (cw_Option cw) = '''' then (False, cw)
      else
        let workers = snapshotPartitionWorkers cw in
        if length workers = 0 then (False, cw\<lparr>LastOwnedConsumerFinishTime := 0\<rparr>)
        else if \<not> list_all IsReachEnd workers then (False, cw\<lparr>LastOwnedConsumerFinishTime := 0\<rparr>)
        else
          let cw' = (if LastOwnedConsumerFinishTime cw = 0
                     then cw\<lparr>LastOwnedConsumerFinishTime := now\<rparr> else cw);
              grace = int64 (co_ConsumerGroupTimeout (cw_Option cw) + co_HeartbeatInterval (cw_Option cw))
          in (grace \<le> int64 (now - LastOwnedConsumerFinishTime cw'), cw'))"

definition cw_Shutdown ::
    "commit_call \<Rightarrow> 'h Processor shutdown_op \<Rightarrow> 'h ConsumerWorker \<Rightarrow> 'h ConsumerWorker" where
  "cw_Shutdown upd shut cw =
     (if cw_isShutdown cw then cw
      else cw\<lparr>cw_isShutdown := True, cw_cancelled := True,
              cw_Heartbeat := map_option hb_Shutdown (cw_Heartbeat cw),
              PartitionWorkers := map (\<lambda>(k, w). (k, pw_ShutDown upd shut w)) (PartitionWorkers cw)\<rparr>)"

definition cw_IsShutdown :: "'h ConsumerWorker \<Rightarrow> bool" where
  "cw_IsShutdown cw = cw_isShutdown cw"

text \<open>The attempts to delete the group, of which \<open>del i\<close> is the outcome of the \<open>i\<close>-th.\<close>

fun delete_loop :: "(nat \<Rightarrow> failure ptr) \<Rightarrow> nat \<Rightarrow> nat \<Rightarrow> failure ptr \<Rightarrow> failure ptr \<times> nat" where
  "delete_loop del i 0 lastErr = (lastErr, i)"
| "delete_loop del i (Suc n) lastErr =
     (case del i of None \<Rightarrow> (None, Suc i) | Some e \<Rightarrow> delete_loop del (Suc i) n (Some e))"

definition cw_DeleteConsumerGroup ::
    "commit_call \<Rightarrow> 'h Processor shutdown_op \<Rightarrow> (nat \<Rightarrow> failure ptr) \<Rightarrow> 'h ConsumerWorker
     \<Rightarrow> failure ptr \<times> 'h ConsumerWorker" where
  "cw_DeleteConsumerGroup upd shut del cw =
     (let cw' = cw\<lparr>cw_isShutdown := True, cw_cancelled := True,
                   cw_Heartbeat := map_option hb_Shutdown (cw_Heartbeat cw),
                   PartitionWorkers := map (\<lambda>(k, w).
                     (k, if \<not> pw_IsShutdown w then pw_ShutDown upd shut w else w)) (PartitionWorkers cw)\<rparr>
      in case fst (delete_loop del 0 3 None) of
           None \<Rightarrow> (None, cw')
         | Some e \<Rightarrow> (Some (wrap_error (''failed to delete consumer group '' @
             co_ConsumerGroup (cw_Option cw) @ '' after retries: '') e), cw'))"

section \<open>The main loop\<close>

definition cw_createConsumerGroup ::
    "ApiEnv \<Rightarrow> int \<Rightarrow> ConsumerClient \<Rightarrow> 'h ConsumerWorker \<Rightarrow> failure ptr" where
  [simp]: "cw_createConsumerGroup env ts client cw =
     (case CreateConsumerGroup env ts client (co_ConsumerGroupTimeout (cw_Option cw)) of
        Inl e \<Rightarrow> Some e
      | Inr res \<Rightarrow> None)"

definition cw_Start ::
    "ApiEnv \<Rightarrow> int \<Rightarrow> ConsumerClient \<Rightarrow> int \<Rightarrow> 'h ConsumerWorker \<Rightarrow> failure ptr \<times> 'h ConsumerWorker" where
  "cw_Start env ts client now cw =
     (case cw_createConsumerGroup env ts client cw of
        Some e \<Rightarrow> (Some e, cw)
      | None \<Rightarrow> (None, cw\<lparr>cw_Heartbeat := Some (NewHeartbeatWorker (cw_Option cw) now)\<rparr>))"

text \<open>\<open>ctxDone\<close> tells whether the caller's context is already cancelled.\<close>

definition cw_Run ::
    "ApiEnv \<Rightarrow> int \<Rightarrow> ConsumerClient \<Rightarrow> int \<Rightarrow> bool \<Rightarrow> 'h ConsumerWorker \<Rightarrow> failure ptr \<times> 'h ConsumerWorker" where
  "cw_Run env ts client now ctxDone cw =
     (if cw_isShutdown cw then (Some (Errorf ''consumer worker is already shutdown''), cw)
      else cw_Start env ts client now (cw\<lparr>cw_cancelled := ctxDone\<rparr>))"

text \<open>
  One iteration of \<open>run\<close>: it ends the loop, waits for an assignment, or starts a consuming
  goroutine for every key listed.
\<close>

datatype round_result = LoopEnds | WaitForPartitions | Launched "string list" | NilHeartbeat

definition run_round ::
    "int \<Rightarrow> int \<Rightarrow> commit_call \<Rightarrow> 'h Processor shutdown_op \<Rightarrow> 'h ConsumerWorker
     \<Rightarrow> round_result \<times> 'h ConsumerWorker" where
  "run_round now now' upd shut cw =
     (if cw_IsShutdown cw then (LoopEnds, cw)
      else if cw_cancelled cw then (LoopEnds, cw_Shutdown upd shut cw)
      else case cw_Heartbeat cw of
        None \<Rightarrow> (NilHeartbeat, cw)
      | Some hw \<Rightarrow>
          let partitions = GetHeldPartitions hw in
          if length partitions = 0 then (WaitForPartitions, cw)
          else
            let (keys, cw1) = start_workers now (assigned partitions) cw;
                cw2 = cleanupUnusedPartitionWorkers upd shut partitions cw1;
                (stop, cw3) = needStop now' cw2
            in if stop then (LoopEnds, cw_Shutdown upd shut cw3) else (Launched keys, cw3))"

end
