(* ===== verification/Consumer_Ownership.thy ===== *)
theory Consumer_Ownership
  imports Consumer_Worker
begin

text \<open>
  The properties of the consumer worker: which partition workers exist after a round of the
  main loop, when the worker stops by itself, and what its shutdown does.
\<close>

section \<open>Keys\<close>

lemma split_partition_key: "split_at (CHR '':'') (partition_key t p) = split_at (CHR '':'') t @ [decimal p]"
  by (simp add: partition_key_def split_at_append split_at_absent colon_not_in_decimal)

lemma partition_key_eq [simp]: "partition_key t p = partition_key t' p' \<longleftrightarrow> t = t' \<and> p = p'"
proof
  assume eq: "partition_key t p = partition_key t' p'"
  from arg_cong [OF eq, of "split_at (CHR '':'')"] have "decimal p = decimal p'"
    by (simp add: split_partition_key)
  then have "p = p'" by (rule decimal_inj)
  with eq show "t = t' \<and> p = p'" by (simp add: partition_key_def)
qed simp

text \<open>
  The key of a partition worker identifies its partition, for every topic id and every
  partition id, and it is read back to the same partition exactly when the topic id contains
  no colon.  (For a topic id with a colon the reading fails, and the partition of a stopped
  worker is then not taken out of the heartbeat.)
\<close>

theorem partition_key_roundtrip:
  assumes "in_int64 p"
  shows "(partition_key t p = partition_key t' p' \<longleftrightarrow> (t, p) = (t', p')) \<and>
    parse_key (partition_key t p) = (if CHR '':'' \<in> set t then None else Some (t, p))"
proof (cases "CHR '':'' \<in> set t")
  case True
  then have "count_list t (CHR '':'') \<noteq> 0" by (simp add: count_list_0_iff)
  then obtain n where "length (split_at (CHR '':'') t) = Suc (Suc n)"
    by (metis length_split_at not0_implies_Suc)
  then obtain a b r where "split_at (CHR '':'') t = a # b # r"
    by (metis length_Suc_conv)
  with True show ?thesis
    by (cases "r @ [decimal p]") (auto simp: parse_key_def split_partition_key)
next
  case False
  then show ?thesis
    using assms by (simp add: parse_key_def split_partition_key split_at_absent Atoi_decimal)
qed

theorem partition_key_roundtrip_witness:
  "parse_key (partition_key ''0f9c-11'' 42) = Some (''0f9c-11'', 42) \<and>
   parse_key (partition_key ''a:b'' 42) = None"
  using partition_key_roundtrip [of 42 "''0f9c-11''"] partition_key_roundtrip [of 42 "''a:b''"]
  by (simp add: in_int64_def)

section \<open>Workers follow the assignment\<close>

lemma set_assigned: "(t, p) \<in> set (assigned ps) \<longleftrightarrow> holds ps t p"
  by (auto simp: assigned_def holds_def)

lemma start_workers_frame:
  "start_workers now ps cw = (keys, cw') \<Longrightarrow>
   cw_Option cw' = cw_Option cw \<and> cw_Processor cw' = cw_Processor cw \<and> cw_Heartbeat cw' = cw_Heartbeat cw \<and>
   cw_isShutdown cw' = cw_isShutdown cw \<and> cw_cancelled cw' = cw_cancelled cw \<and>
   LastOwnedConsumerFinishTime cw' = LastOwnedConsumerFinishTime cw \<and>
   keys = map (\<lambda>(t, p). partition_key t p) ps"
proof (induction now ps cw arbitrary: keys cw' rule: start_workers.induct)
  case (2 now t p ps cw)
  obtain w cw1 where g: "getOrCreatePartitionWorker now t p cw = (w, cw1)" by force
  obtain ks cw2 where s: "start_workers now ps cw1 = (ks, cw2)" by force
  have "cw_Option cw1 = cw_Option cw \<and> cw_Processor cw1 = cw_Processor cw \<and> cw_Heartbeat cw1 = cw_Heartbeat cw \<and>
   cw_isShutdown cw1 = cw_isShutdown cw \<and> cw_cancelled cw1 = cw_cancelled cw \<and>
   LastOwnedConsumerFinishTime cw1 = LastOwnedConsumerFinishTime cw"
    using g by (auto simp: getOrCreatePartitionWorker_def Let_def split: option.splits)
  with 2 g s show ?case by auto
qed simp

lemma new_worker_cong:
  "cw_Option cw' = cw_Option cw \<Longrightarrow> cw_Processor cw' = cw_Processor cw \<Longrightarrow>
   new_worker now cw' t p = new_worker now cw t p"
  by (simp add: new_worker_def createProcessorInstance_def)

lemma start_workers_map:
  "start_workers now ps cw = (keys, cw') \<Longrightarrow> gm_ok (PartitionWorkers cw) \<Longrightarrow>
   gm_ok (PartitionWorkers cw') \<and>
   (\<forall>t p. gm_get (PartitionWorkers cw') (partition_key t p) =
     (case gm_get (PartitionWorkers cw) (partition_key t p) of
        Some w \<Rightarrow> Some w
      | None \<Rightarrow> if (t, p) \<in> set ps then Some (new_worker now cw t p) else None)) \<and>
   (\<forall>k. k \<notin> (\<lambda>(t, p). partition_key t p) ` set ps \<longrightarrow>
      gm_get (PartitionWorkers cw') k = gm_get (PartitionWorkers cw) k)"
proof (induction now ps cw arbitrary: keys cw' rule: start_workers.induct)
  case (1 now cw)
  then show ?case by (auto split: option.splits)
next
  case (2 now t p ps cw)
  obtain w cw1 where g: "getOrCreatePartitionWorker now t p cw = (w, cw1)" by force
  obtain ks cw2 where s: "start_workers now ps cw1 = (ks, cw2)" by force
  have cw': "cw' = cw2" using 2(2) g s by simp
  have one: "gm_ok (PartitionWorkers cw1)" "cw_Option cw1 = cw_Option cw" "cw_Processor cw1 = cw_Processor cw"
    "gm_get (PartitionWorkers cw1) k = (case gm_get (PartitionWorkers cw) k of Some w \<Rightarrow> Some w
       | None \<Rightarrow> if k = partition_key t p then Some (new_worker now cw t p) else None)" for k
    using g 2(3) by (auto simp: getOrCreatePartitionWorker_def Let_def split: option.splits)
  note IH = 2(1) [OF g [symmetric] refl s one(1)]
  show ?case
    unfolding cw' using IH one
    by (auto simp: new_worker_cong [OF one(2,3)] split: option.splits)
qed

text \<open>What the scan does to the worker of one key, and which keys it collects.\<close>

definition retained :: "commit_call \<Rightarrow> 'h Processor shutdown_op \<Rightarrow> string list \<Rightarrow> string
    \<Rightarrow> 'h Processor PartitionConsumerWorker \<Rightarrow> 'h Processor PartitionConsumerWorker" where
  "retained upd shut act k w = (if k \<notin> set act then pw_ShutDown upd shut w else w)"

lemma pw_ShutDown_shutdown [simp]: "pw_IsShutdown (pw_ShutDown upd shut w)"
  by (simp add: pw_ShutDown_def pw_close_def pw_IsShutdown_def Let_def split: prod.splits)

lemma cleanup_scan_map:
  "cleanup_scan upd shut act es hb = (es', hb', rm) \<Longrightarrow>
   es' = map (\<lambda>(k, w). (k, retained upd shut act k w)) es \<and>
   rm = map fst (filter (\<lambda>(k, w). k \<notin> set act \<or> pw_IsShutdown w) es) \<and>
   hb' = fold give_up rm hb"
proof (induction upd shut act es hb arbitrary: es' hb' rm rule: cleanup_scan.induct)
  case (2 upd shut act key worker es hb)
  show ?case
  proof (cases "key \<notin> set act \<or> pw_IsShutdown worker")
    case True
    obtain es1 hb1 rm1 where rest: "cleanup_scan upd shut act es (give_up key hb) = (es1, hb1, rm1)"
      by (metis prod_cases3)
    from True have "pw_IsShutdown (if key \<notin> set act then pw_ShutDown upd shut worker else worker)" by auto
    with 2 rest True show ?thesis by (auto simp: retained_def)
  next
    case False
    obtain es1 hb1 rm1 where rest: "cleanup_scan upd shut act es hb = (es1, hb1, rm1)"
      by (metis prod_cases3)
    from 2 rest False show ?thesis by (auto simp: retained_def)
  qed
qed simp

lemma gm_get_fold_delete:
  "gm_get (fold gm_delete ks m) k = (if k \<in> set ks then None else gm_get m k)"
  by (induction ks arbitrary: m) auto

lemma gm_ok_fold_delete: "gm_ok m \<Longrightarrow> gm_ok (fold gm_delete ks m)"
  by (induction ks arbitrary: m) auto

lemma gm_get_map_entries:
  "gm_get (map (\<lambda>(k, w). (k, f k w)) m) k = map_option (f k) (gm_get m k)"
  by (induction m) (auto simp: gm_get_def)

lemma gm_ok_map_entries: "gm_ok (map (\<lambda>(k, w). (k, f k w)) m) = gm_ok m"
  by (simp add: gm_ok_def comp_def case_prod_unfold)

lemma cleanup_map:
  assumes "gm_ok (PartitionWorkers cw)"
  shows "gm_ok (PartitionWorkers (cleanupUnusedPartitionWorkers upd shut ps cw)) \<and>
    gm_get (PartitionWorkers (cleanupUnusedPartitionWorkers upd shut ps cw)) k =
      (case gm_get (PartitionWorkers cw) k of
         None \<Rightarrow> None
       | Some w \<Rightarrow> if k \<in> (\<lambda>(t, p). partition_key t p) ` set (assigned ps) \<and> \<not> pw_IsShutdown w
                 then Some w else None)"
proof -
  define act where "act = map (\<lambda>(t, p). partition_key t p) (assigned ps)"
  obtain es hb rm where scan: "cleanup_scan upd shut act (PartitionWorkers cw) (cw_Heartbeat cw) = (es, hb, rm)"
    by (metis prod_cases3)
  note sm = cleanup_scan_map [OF scan]
  have new: "PartitionWorkers (cleanupUnusedPartitionWorkers upd shut ps cw) = fold gm_delete rm es"
    using scan by (simp add: cleanupUnusedPartitionWorkers_def act_def)
  have rm: "k \<in> set rm \<longleftrightarrow> (\<exists>w. gm_get (PartitionWorkers cw) k = Some w \<and> (k \<notin> set act \<or> pw_IsShutdown w))"
    using sm gm_get_of_mem [OF assms] by (force dest: gm_get_in_set)
  have es: "gm_get es k = map_option (retained upd shut act k) (gm_get (PartitionWorkers cw) k)" "gm_ok es"
    using sm assms by (simp_all add: gm_get_map_entries gm_ok_map_entries)
  show ?thesis
    unfolding new using rm es
    by (auto simp: gm_get_fold_delete gm_ok_fold_delete retained_def act_def split: option.splits)
qed

lemma needStop_frame: "needStop now cw = (stop, cw') \<Longrightarrow>
    PartitionWorkers cw' = PartitionWorkers cw \<and> cw_Heartbeat cw' = cw_Heartbeat cw \<and>
    cw_isShutdown cw' = cw_isShutdown cw \<and> cw_Option cw' = cw_Option cw"
  by (auto simp: needStop_def Let_def split: if_splits)

lemma run_round_workers:
  assumes "gm_ok (PartitionWorkers cw)" and "cw_Heartbeat cw = Some hw"
    and "run_round now now' upd shut cw = (Launched keys, cw')"
  shows "gm_ok (PartitionWorkers cw') \<and>
    keys = map (\<lambda>(t, p). partition_key t p) (assigned (HeldPartitions hw)) \<and>
    (\<forall>t p. gm_get (PartitionWorkers cw') (partition_key t p) =
      (if holds (HeldPartitions hw) t p
       then (case gm_get (PartitionWorkers cw) (partition_key t p) of
               None \<Rightarrow> Some (new_worker now cw t p)
             | Some w \<Rightarrow> if pw_IsShutdown w then None else Some w)
       else None)) \<and>
    (\<forall>k. gm_get (PartitionWorkers cw') k \<noteq> None \<longrightarrow>
      (\<exists>t p. k = partition_key t p \<and> holds (HeldPartitions hw) t p))"
proof -
  let ?ps = "assigned (HeldPartitions hw)"
  obtain keys1 cw1 where s: "start_workers now ?ps cw = (keys1, cw1)" by force
  define cw2 where "cw2 = cleanupUnusedPartitionWorkers upd shut (HeldPartitions hw) cw1"
  obtain stop cw3 where n: "needStop now' cw2 = (stop, cw3)" by force
  have r: "keys = keys1" "cw' = cw3"
    using assms(2,3) s n by (auto simp: run_round_def GetHeldPartitions_def cw2_def Let_def split: if_splits)
  note sf = start_workers_frame [OF s] and sm = start_workers_map [OF s assms(1)]
  have ws: "PartitionWorkers cw' = PartitionWorkers cw2" using needStop_frame [OF n] r by simp
  have ok1: "gm_ok (PartitionWorkers cw1)" using sm by blast
  note cl = cleanup_map [OF ok1, of upd shut "HeldPartitions hw", folded cw2_def]
  have fresh: "\<not> pw_IsShutdown (new_worker now cw t p)" for t p
    by (simp add: new_worker_def NewPartitionConsumerWorker_def pw_IsShutdown_def)
  have keys: "partition_key t p \<in> (\<lambda>(t, p). partition_key t p) ` set ?ps \<longleftrightarrow> holds (HeldPartitions hw) t p" for t p
    using set_assigned by force
  have "gm_get (PartitionWorkers cw') (partition_key t p) =
      (if holds (HeldPartitions hw) t p
       then (case gm_get (PartitionWorkers cw) (partition_key t p) of
               None \<Rightarrow> Some (new_worker now cw t p)
             | Some w \<Rightarrow> if pw_IsShutdown w then None else Some w)
       else None)" for t p
    using cl [of "partition_key t p"] sm fresh set_assigned [of t p]
    by (auto simp: ws keys split: option.splits)
  moreover have "\<exists>t p. k = partition_key t p \<and> holds (HeldPartitions hw) t p"
    if "gm_get (PartitionWorkers cw') k \<noteq> None" for k
  proof -
    have "k \<in> (\<lambda>(t, p). partition_key t p) ` set ?ps"
      using cl [of k] that by (auto simp: ws split: option.splits if_splits)
    then show ?thesis using set_assigned by force
  qed
  ultimately show ?thesis using cl [of "[]"] sf r ws by auto
qed

text \<open>What is given up is taken out of the heartbeat's views, and nothing else.\<close>

lemma give_up_invs:
  "hb_inv hw \<Longrightarrow> give_up k (Some hw) = Some hw' \<Longrightarrow> hb_inv hw' \<and>
   holds (HeldPartitions hw') t p = (holds (HeldPartitions hw) t p \<and> parse_key k \<noteq> Some (t, p)) \<and>
   holds (HeartPartitions hw') t p = (holds (HeartPartitions hw) t p \<and> parse_key k \<noteq> Some (t, p))"
  by (auto simp: give_up_def RemoveHeartPartition_def hb_inv_def holds_remove wf_remove split: option.splits)

definition keys_readable :: "'h worker_map \<Rightarrow> bool" where
  "keys_readable ws \<longleftrightarrow> (\<forall>k. gm_get ws k \<noteq> None \<longrightarrow>
     (\<exists>t p. k = partition_key t p \<and> in_int64 p \<and> CHR '':'' \<notin> set t))"

lemma give_up_all:
  "hb_inv hw \<Longrightarrow> \<exists>hw'. fold give_up ks (Some hw) = Some hw' \<and> hb_inv hw' \<and>
     (\<forall>t p. holds (HeldPartitions hw') t p =
        (holds (HeldPartitions hw) t p \<and> (\<forall>k\<in>set ks. parse_key k \<noteq> Some (t, p))) \<and>
      holds (HeartPartitions hw') t p =
        (holds (HeartPartitions hw) t p \<and> (\<forall>k\<in>set ks. parse_key k \<noteq> Some (t, p))))"
proof (induction ks arbitrary: hw)
  case (Cons k ks)
  obtain hw1 where one: "give_up k (Some hw) = Some hw1"
    by (cases "parse_key k") (auto simp: give_up_def)
  have "hb_inv hw1" using give_up_invs [OF Cons.prems one] by blast
  from Cons.IH [OF this] give_up_invs [OF Cons.prems one] one show ?case by auto
qed simp

text \<open>
  A partition whose worker is stopped is given back.  After a cleanup either of the heartbeat's
  views holds a partition exactly when they held it before and its worker was not stopped by
  this cleanup (no longer assigned) or before it (shut down), so the next heartbeat reports
  to the service only partitions that are being consumed or about to be.
\<close>

definition kept_by_cleanup :: "PartitionInfo list \<Rightarrow> 'h ConsumerWorker \<Rightarrow> string \<Rightarrow> int \<Rightarrow> bool" where
  "kept_by_cleanup ps cw t p \<longleftrightarrow>
     (case gm_get (PartitionWorkers cw) (partition_key t p) of
        None \<Rightarrow> True
      | Some w \<Rightarrow> holds ps t p \<and> \<not> pw_IsShutdown w)"

theorem cleanup_gives_back:
  assumes "gm_ok (PartitionWorkers cw)" and "keys_readable (PartitionWorkers cw)"
    and "cw_Heartbeat cw = Some hw" and "hb_inv hw"
  shows "\<exists>hw'. cw_Heartbeat (cleanupUnusedPartitionWorkers upd shut ps cw) = Some hw' \<and> hb_inv hw' \<and>
    (\<forall>t p. holds (HeldPartitions hw') t p = (holds (HeldPartitions hw) t p \<and> kept_by_cleanup ps cw t p) \<and>
      holds (HeartPartitions hw') t p = (holds (HeartPartitions hw) t p \<and> kept_by_cleanup ps cw t p))"
proof -
  define act where "act = map (\<lambda>(t, p). partition_key t p) (assigned ps)"
  obtain es hb rm where scan: "cleanup_scan upd shut act (PartitionWorkers cw) (cw_Heartbeat cw) = (es, hb, rm)"
    by (metis prod_cases3)
  note sm = cleanup_scan_map [OF scan]
  have hb: "cw_Heartbeat (cleanupUnusedPartitionWorkers upd shut ps cw) = fold give_up rm (Some hw)"
    using scan sm assms(3) by (simp add: cleanupUnusedPartitionWorkers_def act_def)
  have rm: "k \<in> set rm \<longleftrightarrow> (\<exists>w. gm_get (PartitionWorkers cw) k = Some w \<and> (k \<notin> set act \<or> pw_IsShutdown w))" for k
    using sm gm_get_of_mem [OF assms(1)] by (force dest: gm_get_in_set)
  have act: "partition_key t p \<in> set act \<longleftrightarrow> holds ps t p" for t p
    unfolding act_def using set_assigned by force
  have read: "(\<exists>k\<in>set rm. parse_key k = Some (t, p)) \<longleftrightarrow> partition_key t p \<in> set rm" for t p
  proof -
    have "parse_key k = Some (t, p) \<longleftrightarrow> k = partition_key t p" if "k \<in> set rm" for k
    proof -
      have "gm_get (PartitionWorkers cw) k \<noteq> None" using rm [of k] that by auto
      then obtain t' p' where "k = partition_key t' p'" "in_int64 p'" "CHR '':'' \<notin> set t'"
        using assms(2) unfolding keys_readable_def by blast
      then show ?thesis
        by (auto simp: parse_key_def split_partition_key split_at_absent Atoi_decimal)
    qed
    then show ?thesis by blast
  qed
  obtain hw' where hw': "fold give_up rm (Some hw) = Some hw'" "hb_inv hw'"
    "\<And>t p. holds (HeldPartitions hw') t p =
        (holds (HeldPartitions hw) t p \<and> (\<forall>k\<in>set rm. parse_key k \<noteq> Some (t, p))) \<and>
      holds (HeartPartitions hw') t p =
        (holds (HeartPartitions hw) t p \<and> (\<forall>k\<in>set rm. parse_key k \<noteq> Some (t, p)))"
    using give_up_all [OF assms(4), of rm] by blast
  have "(\<forall>k\<in>set rm. parse_key k \<noteq> Some (t, p)) = kept_by_cleanup ps cw t p" for t p
    using read [of t p] rm [of "partition_key t p"] act [of t p]
    by (auto simp: kept_by_cleanup_def split: option.splits)
  with hb hw' show ?thesis by auto
qed

section \<open>A round of the main loop\<close>

text \<open>The keys of the partitions held can be read back.\<close>

definition topics_readable :: "PartitionInfo list \<Rightarrow> bool" where
  "topics_readable ps \<longleftrightarrow> (\<forall>(t, p)\<in>set (assigned ps). in_int64 p \<and> CHR '':'' \<notin> set t)"

text \<open>After a round that goes on, the workers are those of the partitions still held.\<close>

lemma run_round_held:
  assumes "gm_ok (PartitionWorkers cw)" and "cw_Heartbeat cw = Some hw"
    and "run_round now now' upd shut cw = (Launched keys, cw')"
    and "hb_inv hw" and "keys_readable (PartitionWorkers cw)" and "topics_readable (HeldPartitions hw)"
  shows "\<exists>hw'. cw_Heartbeat cw' = Some hw' \<and> hb_inv hw' \<and>
    (\<forall>t p. (gm_get (PartitionWorkers cw') (partition_key t p) \<noteq> None) = holds (HeldPartitions hw') t p)"
proof -
  let ?ps = "assigned (HeldPartitions hw)"
  obtain keys1 cw1 where s: "start_workers now ?ps cw = (keys1, cw1)" by force
  define cw2 where "cw2 = cleanupUnusedPartitionWorkers upd shut (HeldPartitions hw) cw1"
  obtain stop cw3 where n: "needStop now' cw2 = (stop, cw3)" by force
  have r: "cw' = cw3"
    using assms(2,3) s n by (auto simp: run_round_def GetHeldPartitions_def cw2_def Let_def split: if_splits)
  note sf = start_workers_frame [OF s] and sm = start_workers_map [OF s assms(1)]
  have "keys_readable (PartitionWorkers cw1)"
    unfolding keys_readable_def
  proof (intro allI impI)
    fix k assume k: "gm_get (PartitionWorkers cw1) k \<noteq> None"
    show "\<exists>t p. k = partition_key t p \<and> in_int64 p \<and> CHR '':'' \<notin> set t"
    proof (cases "k \<in> (\<lambda>(t, p). partition_key t p) ` set ?ps")
      case True
      then obtain t p where "k = partition_key t p" "(t, p) \<in> set ?ps" by auto
      with assms(6) show ?thesis unfolding topics_readable_def by blast
    next
      case False
      with sm k assms(5) show ?thesis unfolding keys_readable_def by metis
    qed
  qed
  moreover have "gm_ok (PartitionWorkers cw1)" "cw_Heartbeat cw1 = Some hw" using sm sf assms(2) by simp_all
  ultimately obtain hw' where hw': "cw_Heartbeat cw2 = Some hw'" "hb_inv hw'"
    "\<And>t p. holds (HeldPartitions hw') t p = (holds (HeldPartitions hw) t p \<and> kept_by_cleanup (HeldPartitions hw) cw1 t p)"
    using cleanup_gives_back [of cw1 hw upd shut "HeldPartitions hw"] assms(4) unfolding cw2_def by blast
  have fresh: "\<not> pw_IsShutdown (new_worker now cw t p)" for t p
    by (simp add: new_worker_def NewPartitionConsumerWorker_def pw_IsShutdown_def)
  have "(gm_get (PartitionWorkers cw') (partition_key t p) \<noteq> None) = holds (HeldPartitions hw') t p" for t p
    using run_round_workers [OF assms(1-3)] sm hw'(3) [of t p] set_assigned [of t p] fresh
    by (auto simp: kept_by_cleanup_def split: option.splits)
  with hw' needStop_frame [OF n] r show ?thesis by auto
qed

lemma cw_Shutdown_workers:
  assumes "\<not> cw_isShutdown cw" and "gm_get (PartitionWorkers (cw_Shutdown upd shut cw)) k = Some w"
  shows "pw_IsShutdown w"
  using assms gm_get_map_entries [of "\<lambda>k. pw_ShutDown upd shut" "PartitionWorkers cw" k]
  by (auto simp: cw_Shutdown_def)

lemma cw_Shutdown_ok: "gm_ok (PartitionWorkers (cw_Shutdown upd shut cw)) = gm_ok (PartitionWorkers cw)"
  using gm_ok_map_entries [of "\<lambda>k. pw_ShutDown upd shut" "PartitionWorkers cw"] by (simp add: cw_Shutdown_def)

text \<open>A round that ends the loop has shut the worker down, unless it was already.\<close>

lemma run_round_ends:
  assumes "gm_ok (PartitionWorkers cw)" and "run_round now now' upd shut cw = (LoopEnds, cw')"
  shows "gm_ok (PartitionWorkers cw') \<and> cw_isShutdown cw' \<and>
    (if cw_isShutdown cw then cw' = cw
     else \<forall>k w. gm_get (PartitionWorkers cw') k = Some w \<longrightarrow> pw_IsShutdown w)"
proof (cases "cw_isShutdown cw")
  case True
  with assms show ?thesis by (simp add: run_round_def cw_IsShutdown_def)
next
  case up: False
  obtain cw0 where cw0: "cw' = cw_Shutdown upd shut cw0" "\<not> cw_isShutdown cw0" "gm_ok (PartitionWorkers cw0)"
  proof (cases "cw_cancelled cw")
    case True
    with assms up that [of cw] show ?thesis by (simp add: run_round_def cw_IsShutdown_def)
  next
    case False
    then obtain hw where hw: "cw_Heartbeat cw = Some hw" "HeldPartitions hw \<noteq> []"
      using assms(2) up by (auto simp: run_round_def cw_IsShutdown_def GetHeldPartitions_def Let_def
          split: option.splits if_splits)
    let ?ps = "assigned (HeldPartitions hw)"
    obtain keys1 cw1 where s: "start_workers now ?ps cw = (keys1, cw1)" by force
    define cw2 where "cw2 = cleanupUnusedPartitionWorkers upd shut (HeldPartitions hw) cw1"
    obtain stop cw3 where n: "needStop now' cw2 = (stop, cw3)" by force
    have "gm_ok (PartitionWorkers cw3)"
      using needStop_frame [OF n] cleanup_map start_workers_map [OF s assms(1)] unfolding cw2_def by metis
    moreover have "\<not> cw_isShutdown cw3"
      using needStop_frame [OF n] start_workers_frame [OF s] up
      by (auto simp: cw2_def cleanupUnusedPartitionWorkers_def Let_def split: prod.splits)
    moreover have "cw' = cw_Shutdown upd shut cw3"
      using assms(2) hw up False s n
      by (auto simp: run_round_def cw_IsShutdown_def GetHeldPartitions_def cw2_def Let_def split: if_splits)
    ultimately show ?thesis using that by blast
  qed
  then have "\<forall>k w. gm_get (PartitionWorkers cw') k = Some w \<longrightarrow> pw_IsShutdown w"
    using cw_Shutdown_workers by blast
  moreover have "cw_isShutdown cw'" using cw0 by (simp add: cw_Shutdown_def)
  ultimately show ?thesis using up cw0 by (simp add: cw_Shutdown_ok)
qed

text \<open>
  C23: what one iteration of the main loop does to the partition workers, for each way it can
  end.  While the heartbeat holds no partition the loop only waits: every worker stays as it
  is, that of a partition taken away included.  An iteration that ends the loop has shut down
  every worker, unless the consumer was shut down before.  Otherwise a consuming goroutine
  was started for every partition held, in the order of the assignment; a worker that runs
  keeps its state, a partition without one gets a fresh one, the worker of a partition taken
  away is shut down and removed, and so is a worker found shut down, though its partition is
  assigned.  Such a partition leaves the heartbeat's list with its worker, so that afterwards
  there is a worker for exactly the partitions on that list (when topic ids have no colon,
  which the code needs to read its own keys).
\<close>

theorem run_round_ownership:
  assumes "gm_ok (PartitionWorkers cw)" and "cw_Heartbeat cw = Some hw"
    and "run_round now now' upd shut cw = (r, cw')"
  shows "gm_ok (PartitionWorkers cw') \<and>
    (case r of
       NilHeartbeat \<Rightarrow> False
     | WaitForPartitions \<Rightarrow> HeldPartitions hw = [] \<and> cw' = cw
     | LoopEnds \<Rightarrow> cw_isShutdown cw' \<and>
         (if cw_isShutdown cw then cw' = cw
          else \<forall>k w. gm_get (PartitionWorkers cw') k = Some w \<longrightarrow> pw_IsShutdown w)
     | Launched keys \<Rightarrow>
         keys = map (\<lambda>(t, p). partition_key t p) (assigned (HeldPartitions hw)) \<and>
         (\<forall>t p. gm_get (PartitionWorkers cw') (partition_key t p) =
           (if holds (HeldPartitions hw) t p
            then (case gm_get (PartitionWorkers cw) (partition_key t p) of
                    None \<Rightarrow> Some (new_worker now cw t p)
                  | Some w \<Rightarrow> if pw_IsShutdown w then None else Some w)
            else None)) \<and>
         (\<forall>k. gm_get (PartitionWorkers cw') k \<noteq> None \<longrightarrow>
           (\<exists>t p. k = partition_key t p \<and> holds (HeldPartitions hw) t p)) \<and>
         (hb_inv hw \<and> keys_readable (PartitionWorkers cw) \<and> topics_readable (HeldPartitions hw) \<longrightarrow>
           (\<exists>hw'. cw_Heartbeat cw' = Some hw' \<and> hb_inv hw' \<and>
             (\<forall>t p. (gm_get (PartitionWorkers cw') (partition_key t p) \<noteq> None) = holds (HeldPartitions hw') t p))))"
proof (cases r)
  case LoopEnds
  with run_round_ends [OF assms(1)] assms(3) show ?thesis by simp
next
  case WaitForPartitions
  with assms show ?thesis
    by (auto simp: run_round_def GetHeldPartitions_def copyPartitions_def Let_def split: if_splits prod.splits)
next
  case (Launched keys)
  with assms(3) have r: "run_round now now' upd shut cw = (Launched keys, cw')" by simp
  have "hb_inv hw \<and> keys_readable (PartitionWorkers cw) \<and> topics_readable (HeldPartitions hw) \<longrightarrow>
      (\<exists>hw'. cw_Heartbeat cw' = Some hw' \<and> hb_inv hw' \<and>
        (\<forall>t p. (gm_get (PartitionWorkers cw') (partition_key t p) \<noteq> None) = holds (HeldPartitions hw') t p))"
    using run_round_held [OF assms(1,2) r] by blast
  with run_round_workers [OF assms(1,2) r] Launched show ?thesis by simp
next
  case NilHeartbeat
  with assms(2,3) show ?thesis by (auto simp: run_round_def Let_def split: if_splits prod.splits)
qed

section \<open>Examples\<close>

definition ex_shut :: "unit Processor shutdown_op" where
  "ex_shut p t = ([], p, t)"

definition ex_cw :: "unit ConsumerWorker" where
  "ex_cw = (fresh_ConsumerWorker ex_option (UserProcessor ()))\<lparr>cw_Heartbeat := Some ex_held\<rparr>"

text \<open>A worker that still runs partition 3, which is no longer assigned.\<close>

definition ex_stale :: "unit ConsumerWorker" where
  "ex_stale = ex_cw\<lparr>PartitionWorkers := gm_put (partition_key ''t'' 3) (new_worker 0 ex_cw ''t'' 3) []\<rparr>"

lemma ex_stale_simps: "gm_ok (PartitionWorkers ex_stale)" "cw_Heartbeat ex_stale = Some ex_held"
  "gm_get (PartitionWorkers ex_stale) k =
     (if k = partition_key ''t'' 3 then Some (new_worker 0 ex_cw ''t'' 3) else None)"
  by (simp_all add: ex_stale_def ex_cw_def fresh_ConsumerWorker_def gm_delete_def gm_get_def gm_put_def gm_ok_def)

lemma ex_stale_round: "fst (run_round 5 5 (\<lambda>c. None) ex_shut ex_stale) =
    Launched [partition_key ''t'' 1, partition_key ''t'' 2]"
  by code_simp

lemma ex_stale_readable: "keys_readable (PartitionWorkers ex_stale)" "topics_readable (HeldPartitions ex_held)"
  unfolding keys_readable_def ex_stale_simps(3) topics_readable_def
  by (auto intro!: exI [of _ "''t''"] exI [of _ 3] simp: in_int64_def ex_held_def assigned_def split: if_splits)

text \<open>A round that goes on, and one that finds nothing assigned.\<close>

theorem run_round_ownership_witness:
  "(\<exists>cw' hw'. snd (run_round 5 5 (\<lambda>c. None) ex_shut ex_stale) = cw' \<and> cw_Heartbeat cw' = Some hw' \<and>
     gm_get (PartitionWorkers cw') (partition_key ''t'' 1) = Some (new_worker 5 ex_stale ''t'' 1) \<and>
     gm_get (PartitionWorkers cw') (partition_key ''t'' 3) = None \<and>
     holds (HeldPartitions hw') ''t'' 1 \<and> \<not> holds (HeldPartitions hw') ''t'' 3) \<and>
   (let cw = ex_stale\<lparr>cw_Heartbeat := Some (ex_held\<lparr>HeldPartitions := []\<rparr>)\<rparr>
    in snd (run_round 5 5 (\<lambda>c. None) ex_shut cw) = cw)"
proof -
  let ?cw' = "snd (run_round 5 5 (\<lambda>c. None) ex_shut ex_stale)"
  have "run_round 5 5 (\<lambda>c. None) ex_shut ex_stale =
      (Launched [partition_key ''t'' 1, partition_key ''t'' 2], ?cw')"
    using ex_stale_round by (simp add: prod_eq_iff)
  from run_round_ownership [OF ex_stale_simps(1,2) this] ex_stale_readable ex_held_inv
  obtain hw' where cw': "cw_Heartbeat ?cw' = Some hw'"
    "\<And>t p. (gm_get (PartitionWorkers ?cw') (partition_key t p) \<noteq> None) = holds (HeldPartitions hw') t p"
    "\<And>t p. gm_get (PartitionWorkers ?cw') (partition_key t p) =
      (if holds (HeldPartitions ex_held) t p
       then (case gm_get (PartitionWorkers ex_stale) (partition_key t p) of
               None \<Rightarrow> Some (new_worker 5 ex_stale t p)
             | Some w \<Rightarrow> if pw_IsShutdown w then None else Some w)
       else None)" by auto
  have workers: "gm_get (PartitionWorkers ?cw') (partition_key ''t'' 1) = Some (new_worker 5 ex_stale ''t'' 1)"
    "gm_get (PartitionWorkers ?cw') (partition_key ''t'' 3) = None"
    unfolding cw'(3) ex_stale_simps(3) by (simp_all add: ex_held_def)
  let ?cw = "ex_stale\<lparr>cw_Heartbeat := Some (ex_held\<lparr>HeldPartitions := []\<rparr>)\<rparr>"
  have "run_round 5 5 (\<lambda>c. None) ex_shut ?cw = (WaitForPartitions, snd (run_round 5 5 (\<lambda>c. None) ex_shut ?cw))"
    by (simp add: run_round_def GetHeldPartitions_def copyPartitions_def cw_IsShutdown_def ex_stale_def ex_cw_def
        fresh_ConsumerWorker_def)
  from run_round_ownership [OF _ _ this] have "snd (run_round 5 5 (\<lambda>c. None) ex_shut ?cw) = ?cw"
    using ex_stale_simps(1) by simp
  with cw'(1) workers cw'(2) [of "''t''" 1] cw'(2) [of "''t''" 3] show ?thesis by simp
qed

theorem cleanup_gives_back_witness:
  "\<exists>hw'. cw_Heartbeat (cleanupUnusedPartitionWorkers (\<lambda>c. None) ex_shut (HeldPartitions ex_held) ex_stale) = Some hw' \<and>
    holds (HeartPartitions hw') ''t'' 1 \<and> \<not> holds (HeartPartitions hw') ''t'' 3"
proof -
  from cleanup_gives_back [OF ex_stale_simps(1) ex_stale_readable(1) ex_stale_simps(2) ex_held_inv,
      of "\<lambda>c. None" ex_shut "HeldPartitions ex_held"]
  obtain hw' where "cw_Heartbeat (cleanupUnusedPartitionWorkers (\<lambda>c. None) ex_shut (HeldPartitions ex_held) ex_stale) = Some hw'"
    "\<And>t p. holds (HeartPartitions hw') t p =
       (holds (HeartPartitions ex_held) t p \<and> kept_by_cleanup (HeldPartitions ex_held) ex_stale t p)" by blast
  then show ?thesis by (auto simp: kept_by_cleanup_def ex_stale_simps(3) ex_held_def)
qed

end
