(* ===== verification/Consumer_Stop.thy ===== *)
theory Consumer_Stop
  imports Consumer_Ownership
begin

text \<open>
  When the consumer worker stops: the grace countdown of the intelligent stop over any
  sequence of rounds, the shutdown, and the deletion of the consumer group.
\<close>

section \<open>The grace countdown\<close>

definition caught_up :: "'h worker_map \<Rightarrow> bool" where
  "caught_up ws \<longleftrightarrow> ws \<noteq> [] \<and> (\<forall>(k, w)\<in>set ws. IsReachEnd w)"

text \<open>
  The calls of \<open>needStop\<close> in the rounds of the main loop, each at its time and with the
  partition workers as they are then; the loop ends with the first that answers true.
\<close>

fun stop_calls :: "(int \<times> 'h worker_map) list \<Rightarrow> 'h ConsumerWorker \<Rightarrow> bool" where
  "stop_calls [] cw = False"
| "stop_calls ((now, ws) # obs) cw =
     (let (stop, cw') = needStop now (cw\<lparr>PartitionWorkers := ws\<rparr>)
      in if stop then True else stop_calls obs cw')"

definition grace :: "'h ConsumerWorker \<Rightarrow> int" where
  "grace cw = int64 (co_ConsumerGroupTimeout (cw_Option cw) + co_HeartbeatInterval (cw_Option cw))"

text \<open>A run of consecutive rounds, all caught up, that lasts at least \<open>g\<close>.\<close>

definition ready_run :: "int \<Rightarrow> (int \<times> 'h worker_map) list \<Rightarrow> bool" where
  "ready_run g run \<longleftrightarrow> run \<noteq> [] \<and> (\<forall>(now, ws)\<in>set run. caught_up ws) \<and> g \<le> fst (last run) - fst (hd run)"

definition ready_since :: "int \<Rightarrow> int \<Rightarrow> (int \<times> 'h worker_map) list \<Rightarrow> bool" where
  "ready_since g f obs \<longleftrightarrow> (\<exists>run post. obs = run @ post \<and> run \<noteq> [] \<and>
     (\<forall>(now, ws)\<in>set run. caught_up ws) \<and> g \<le> fst (last run) - f)"

definition ready_somewhere :: "int \<Rightarrow> (int \<times> 'h worker_map) list \<Rightarrow> bool" where
  "ready_somewhere g obs \<longleftrightarrow> (\<exists>pre run post. obs = pre @ run @ post \<and> ready_run g run)"

lemma ready_since_Nil [simp]: "\<not> ready_since g f []"
  by (simp add: ready_since_def)

lemma ready_since_Cons [simp]:
  "ready_since g f ((now, ws) # obs) \<longleftrightarrow> caught_up ws \<and> (g \<le> now - f \<or> ready_since g f obs)"
proof
  assume "ready_since g f ((now, ws) # obs)"
  then obtain run post where r: "(now, ws) # obs = run @ post" "run \<noteq> []"
    "\<forall>(now, ws)\<in>set run. caught_up ws" "g \<le> fst (last run) - f" by (auto simp: ready_since_def)
  then obtain run' where run: "run = (now, ws) # run'" "obs = run' @ post" by (auto simp: Cons_eq_append_conv)
  show "caught_up ws \<and> (g \<le> now - f \<or> ready_since g f obs)"
  proof (cases "run' = []")
    case False
    then have "ready_since g f obs" unfolding ready_since_def using r(3,4) run by auto
    with r(3) run show ?thesis by auto
  qed (use r run in auto)
next
  assume h: "caught_up ws \<and> (g \<le> now - f \<or> ready_since g f obs)"
  show "ready_since g f ((now, ws) # obs)"
  proof (cases "g \<le> now - f")
    case True
    with h show ?thesis unfolding ready_since_def by (intro exI [of _ "[(now, ws)]"] exI [of _ obs]) simp
  next
    case False
    with h obtain run post where "obs = run @ post" "run \<noteq> []" "\<forall>(now, ws)\<in>set run. caught_up ws"
      "g \<le> fst (last run) - f" by (auto simp: ready_since_def)
    with h show ?thesis unfolding ready_since_def
      by (intro exI [of _ "(now, ws) # run"] exI [of _ post]) auto
  qed
qed

lemma ready_somewhere_Nil [simp]: "\<not> ready_somewhere g []"
  by (simp add: ready_somewhere_def ready_run_def)

lemma ready_somewhere_Cons:
  "ready_somewhere g ((now, ws) # obs) \<longleftrightarrow> ready_since g now ((now, ws) # obs) \<or> ready_somewhere g obs"
proof
  assume "ready_somewhere g ((now, ws) # obs)"
  then obtain pre run post where r: "(now, ws) # obs = pre @ run @ post" "ready_run g run"
    by (auto simp: ready_somewhere_def)
  show "ready_since g now ((now, ws) # obs) \<or> ready_somewhere g obs"
  proof (cases pre)
    case Nil
    with r have "ready_since g now ((now, ws) # obs)"
      unfolding ready_since_def ready_run_def
      by (metis append_Nil fst_conv hd_append2 list.sel(1))
    then show ?thesis ..
  next
    case (Cons a pre')
    with r show ?thesis by (auto simp: ready_somewhere_def)
  qed
next
  assume "ready_since g now ((now, ws) # obs) \<or> ready_somewhere g obs"
  then show "ready_somewhere g ((now, ws) # obs)"
  proof
    assume "ready_since g now ((now, ws) # obs)"
    then obtain run post where r: "(now, ws) # obs = run @ post" "run \<noteq> []"
      "\<forall>(now, ws)\<in>set run. caught_up ws" "g \<le> fst (last run) - now" by (auto simp: ready_since_def)
    then have "fst (hd run) = now" by (metis fst_conv hd_append2 list.sel(1))
    with r show ?thesis unfolding ready_somewhere_def ready_run_def by (metis append_Nil)
  next
    assume "ready_somewhere g obs"
    then show ?thesis unfolding ready_somewhere_def by (metis append_Cons)
  qed
qed

text \<open>The times of the calls: positive and not decreasing, as of a clock.\<close>

definition clock :: "(int \<times> 'h worker_map) list \<Rightarrow> bool" where
  "clock obs \<longleftrightarrow> sorted (map fst obs) \<and> (\<forall>(now, ws)\<in>set obs. 0 < now \<and> in_int64 now)"

lemma clock_Cons: "clock ((now, ws) # obs) \<longleftrightarrow>
    0 < now \<and> in_int64 now \<and> clock obs \<and> (\<forall>(now', ws')\<in>set obs. now \<le> now')"
  by (auto simp: clock_def)

lemma needStop_eq:
  assumes "co_OffsetEndTime (cw_Option cw) \<noteq> []" and "0 \<le> LastOwnedConsumerFinishTime cw"
    and "LastOwnedConsumerFinishTime cw \<le> now" and "0 < now" and "in_int64 now"
  shows "needStop now (cw\<lparr>PartitionWorkers := ws\<rparr>) =
    (if caught_up ws
     then let f = (if LastOwnedConsumerFinishTime cw = 0 then now else LastOwnedConsumerFinishTime cw)
          in (grace cw \<le> now - f, cw\<lparr>PartitionWorkers := ws, LastOwnedConsumerFinishTime := f\<rparr>)
     else (False, cw\<lparr>PartitionWorkers := ws, LastOwnedConsumerFinishTime := 0\<rparr>))"
proof -
  have "in_int64 (now - LastOwnedConsumerFinishTime cw)" "in_int64 0"
    using assms by (simp_all add: in_int64_def)
  then have "int64 (now - LastOwnedConsumerFinishTime cw) = now - LastOwnedConsumerFinishTime cw" "int64 0 = 0"
    by simp_all
  moreover have "cw\<lparr>PartitionWorkers := ws, LastOwnedConsumerFinishTime := LastOwnedConsumerFinishTime cw\<rparr> =
      cw\<lparr>PartitionWorkers := ws\<rparr>" by simp
  ultimately show ?thesis
    using assms(1) by (auto simp: needStop_def caught_up_def snapshotPartitionWorkers_def Let_def grace_def
        list_all_iff)
qed

lemma stop_calls_spec:
  assumes "co_OffsetEndTime (cw_Option cw) \<noteq> []" and "clock obs" and "0 \<le> LastOwnedConsumerFinishTime cw"
    and "\<forall>(now, ws)\<in>set obs. LastOwnedConsumerFinishTime cw \<le> now"
  shows "stop_calls obs cw \<longleftrightarrow> ready_somewhere (grace cw) obs \<or>
    (LastOwnedConsumerFinishTime cw \<noteq> 0 \<and> ready_since (grace cw) (LastOwnedConsumerFinishTime cw) obs)"
  using assms
proof (induction obs arbitrary: cw)
  case (Cons o1 obs)
  obtain now ws where o1: "o1 = (now, ws)" by (cases o1)
  let ?F = "LastOwnedConsumerFinishTime cw"
  have c: "0 < now" "in_int64 now" "clock obs" "\<forall>(now', ws')\<in>set obs. now \<le> now'" "?F \<le> now"
    using Cons.prems by (auto simp: o1 clock_Cons)
  note ns = needStop_eq [OF Cons.prems(1,3) c(5,1,2), of ws]
  show ?case
  proof (cases "caught_up ws")
    case False
    have "grace (cw\<lparr>PartitionWorkers := ws, LastOwnedConsumerFinishTime := 0\<rparr>) = grace cw"
      by (simp add: grace_def)
    moreover have "\<forall>(now', ws')\<in>set obs. 0 \<le> now'" using c(1,4) by auto
    ultimately show ?thesis
      using Cons.IH [of "cw\<lparr>PartitionWorkers := ws, LastOwnedConsumerFinishTime := 0\<rparr>"] False Cons.prems(1) c
      by (simp add: o1 ns ready_somewhere_Cons)
  next
    case True
    define f where "f = (if ?F = 0 then now else ?F)"
    let ?cw = "cw\<lparr>PartitionWorkers := ws, LastOwnedConsumerFinishTime := f\<rparr>"
    have f: "f \<noteq> 0" "0 \<le> f" "\<forall>(now', ws')\<in>set obs. f \<le> now'" "f \<le> now"
      using c Cons.prems(3) by (auto simp: f_def)
    have g: "grace ?cw = grace cw" by (simp add: grace_def)
    have step: "stop_calls (o1 # obs) cw \<longleftrightarrow> grace cw \<le> now - f \<or> stop_calls obs ?cw"
      using True by (simp add: o1 ns f_def Let_def)
    have rest: "stop_calls obs ?cw \<longleftrightarrow> ready_somewhere (grace cw) obs \<or> ready_since (grace cw) f obs"
      using Cons.IH [of ?cw] Cons.prems(1) c f g by simp
    have mono: "ready_since (grace cw) now ((now, ws) # obs) \<Longrightarrow> ready_since (grace cw) f ((now, ws) # obs)"
      using f(4) unfolding ready_since_def by force
    show ?thesis
      unfolding step rest using True mono
      by (auto simp: o1 ready_somewhere_Cons f_def split: if_splits)
  qed
qed simp

text \<open>
  C36: the worker stops by itself exactly when, in some stretch of consecutive rounds that
  lasts at least the grace period, every round found at least one partition worker and all of
  them at the end.  A single round in between that finds a partition with data left, or no
  partition at all, starts the countdown again; without a configured end it never stops.
\<close>

theorem stop_calls_correct:
  assumes "clock obs" and "LastOwnedConsumerFinishTime cw = 0"
  shows "stop_calls obs cw \<longleftrightarrow> co_OffsetEndTime (cw_Option cw) \<noteq> [] \<and>
    (\<exists>pre run post. obs = pre @ run @ post \<and> run \<noteq> [] \<and>
       (\<forall>(now, ws)\<in>set run. caught_up ws) \<and> grace cw \<le> fst (last run) - fst (hd run))"
proof (cases "co_OffsetEndTime (cw_Option cw) = []")
  case True
  have "\<not> stop_calls obs cw"
    using True by (induction obs arbitrary: cw) (auto simp: needStop_def)
  with True show ?thesis by simp
next
  case False
  have "\<forall>(now, ws)\<in>set obs. LastOwnedConsumerFinishTime cw \<le> now"
    using assms by (auto simp: clock_def)
  with stop_calls_spec [OF False assms(1)] assms(2) False show ?thesis
    by (simp add: ready_somewhere_def ready_run_def)
qed

definition ex_stopping :: "unit ConsumerWorker" where
  "ex_stopping = ex_cw\<lparr>cw_Option := ex_option\<lparr>co_OffsetEndTime := ''end''\<rparr>\<rparr>"

text \<open>Partition 1, at its end or not.\<close>

definition ex_ws :: "bool \<Rightarrow> unit worker_map" where
  "ex_ws atEnd = [(partition_key ''t'' 1, (new_worker 0 ex_cw ''t'' 1)\<lparr>reachEnd := atEnd\<rparr>)]"

theorem stop_calls_correct_witness:
  "stop_calls [(10, ex_ws True), (20, ex_ws False), (30, ex_ws True), (110, ex_ws True)] ex_stopping"
proof -
  let ?obs = "[(10, ex_ws True), (20, ex_ws False), (30, ex_ws True), (110, ex_ws True)]"
  have g: "grace ex_stopping = 80" "co_OffsetEndTime (cw_Option ex_stopping) \<noteq> []"
    by (simp_all add: grace_def ex_stopping_def ex_option_def in_int64_def)
  have up: "caught_up (ex_ws True)" by (simp add: caught_up_def ex_ws_def IsReachEnd_def)
  have "clock ?obs" "LastOwnedConsumerFinishTime ex_stopping = 0"
    by (simp_all add: clock_def in_int64_def ex_stopping_def ex_cw_def fresh_ConsumerWorker_def)
  moreover have "\<exists>pre run post. ?obs = pre @ run @ post \<and> run \<noteq> [] \<and>
      (\<forall>(now, ws)\<in>set run. caught_up ws) \<and> (80 :: int) \<le> fst (last run) - fst (hd run)"
    by (rule exI [of _ "take 2 ?obs"], rule exI [of _ "drop 2 ?obs"], rule exI [of _ "[]"]) (simp add: up)
  ultimately show ?thesis using stop_calls_correct [of ?obs ex_stopping] g by simp
qed

section \<open>Shutdown\<close>

lemma pw_close_fields [simp]:
  "pw_shutdown (pw_close upd shut w)" "pw_closed (pw_close upd shut w)"
  "TotalLogsConsumed (pw_close upd shut w) = TotalLogsConsumed w"
  by (simp_all add: pw_close_def Let_def split: prod.splits)

lemma pw_close_idem: "pw_close upd' shut' (pw_close upd shut w) = pw_close upd shut w"
proof -
  have "pw_close upd' shut' v = v" if "pw_closed v" "pw_shutdown v" for v
    using that by (simp add: pw_close_def Let_def)
  then show ?thesis by simp
qed

text \<open>
  Shutting the worker down stops everything, once.  Afterwards the worker and its
  heartbeat are marked as stopped, its context is cancelled, and every partition worker is
  shut down and has flushed its offset and shut its processor down exactly once: shutting
  down again, whole or part, changes nothing, a further round of the main loop ends at once
  and \<open>Run\<close> is refused.
\<close>

theorem cw_Shutdown_once:
  assumes "\<not> cw_isShutdown cw"
  shows "cw_isShutdown (cw_Shutdown upd shut cw) \<and> cw_cancelled (cw_Shutdown upd shut cw) \<and>
    map_option hb_IsShutdown (cw_Heartbeat (cw_Shutdown upd shut cw)) = map_option (\<lambda>hw. True) (cw_Heartbeat cw) \<and>
    map fst (PartitionWorkers (cw_Shutdown upd shut cw)) = map fst (PartitionWorkers cw) \<and>
    (\<forall>(k, w)\<in>set (PartitionWorkers (cw_Shutdown upd shut cw)).
       pw_IsShutdown w \<and> pw_ShutDown upd' shut' w = w) \<and>
    cw_Shutdown upd' shut' (cw_Shutdown upd shut cw) = cw_Shutdown upd shut cw \<and>
    run_round now now' upd' shut' (cw_Shutdown upd shut cw) = (LoopEnds, cw_Shutdown upd shut cw) \<and>
    cw_Run env ts client now ctxDone (cw_Shutdown upd shut cw) =
      (Some (Errorf ''consumer worker is already shutdown''), cw_Shutdown upd shut cw)"
  using assms
  by (cases "cw_Heartbeat cw")
    (auto simp: cw_Shutdown_def hb_Shutdown_def hb_IsShutdown_def comp_def case_prod_unfold
      run_round_def cw_Run_def cw_IsShutdown_def pw_ShutDown_def pw_close_idem pw_IsShutdown_def)

theorem cw_Shutdown_once_witness:
  "map_option hb_IsShutdown (cw_Heartbeat (cw_Shutdown (\<lambda>c. None) ex_shut ex_stale)) = Some True"
  using cw_Shutdown_once [of ex_stale "\<lambda>c. None" ex_shut] ex_stale_simps(2)
  by (simp add: ex_stale_def ex_cw_def fresh_ConsumerWorker_def)

section \<open>Deleting the group\<close>

lemma delete_loop_spec:
  "fst (delete_loop del i n e) =
     (case find (\<lambda>j. del j = None) [i..<i + n] of
        Some j \<Rightarrow> None
      | None \<Rightarrow> if n = 0 then e else del (i + n - 1)) \<and>
   snd (delete_loop del i n e) =
     (case find (\<lambda>j. del j = None) [i..<i + n] of Some j \<Rightarrow> Suc j | None \<Rightarrow> i + n)"
proof (induction n arbitrary: i e)
  case (Suc n)
  have "[i..<i + Suc n] = i # [Suc i..<Suc i + n]" by (simp add: upt_rec)
  with Suc.IH [of "Suc i"] show ?case by (cases n) (auto split: option.splits)
qed simp

text \<open>
  Deleting the consumer group stops the whole worker first, tries at most three times and
  succeeds exactly when one of the tries does; otherwise it reports the last error.
\<close>

theorem cw_DeleteConsumerGroup_correct:
  "case cw_DeleteConsumerGroup upd shut del cw of (err, cw') \<Rightarrow>
     cw_isShutdown cw' \<and> cw_cancelled cw' \<and>
     list_all (\<lambda>(k, w). pw_IsShutdown w) (PartitionWorkers cw') \<and>
     err = (if del 0 = None \<or> del 1 = None \<or> del 2 = None then None
            else map_option (wrap_error (''failed to delete consumer group '' @
              co_ConsumerGroup (cw_Option cw) @ '' after retries: '')) (del 2)) \<and>
     snd (delete_loop del 0 3 None) =
       (if del 0 = None then 1 else if del 1 = None then 2 else 3)"
proof -
  have upt: "[0..<3] = [0, 1, 2 :: nat]" by (simp add: upt_rec)
  have f: "fst (delete_loop del 0 3 None) =
      (if del 0 = None \<or> del 1 = None \<or> del 2 = None then None else del 2)"
    and n: "snd (delete_loop del 0 3 None) = (if del 0 = None then 1 else if del 1 = None then 2 else 3)"
    using delete_loop_spec [of del 0 3 None] by (auto simp: upt)
  show ?thesis
    using f n pw_ShutDown_shutdown by (auto simp: cw_DeleteConsumerGroup_def Let_def list_all_iff split: option.splits)
qed

end
