(* ===== verification/Consumer_Handover.thy ===== *)
theory Consumer_Handover
  imports Consumer_Commits
begin

text \<open>
  A partition over its successive owners.  The offset on the service is all that one owner
  leaves to the next: after a clean end it is exactly the position behind what was processed,
  and after a crash it is a position that was reached, so nothing is skipped.  What a processor
  must do for this is a locale, which the SDK's adaptor meets.
\<close>

section \<open>Positions of the chain\<close>

definition reached :: "(int \<Rightarrow> PullLogResponse) \<Rightarrow> int \<Rightarrow> nat \<Rightarrow> int \<Rightarrow> bool" where
  "reached serve off k x \<longleftrightarrow> (\<exists>j\<le>k. x = offset_chain serve off j)"

lemma offset_chain_add: "offset_chain serve off (j + k) = offset_chain serve (offset_chain serve off j) k"
  by (induction j arbitrary: off) simp_all

lemma offset_chain_Suc: "offset_chain serve off (Suc k) = advance serve (offset_chain serve off k)"
  using offset_chain_add [of serve off k 1] by simp

lemma chain_logs_add:
  "chain_logs serve off (j + k) = chain_logs serve off j @ chain_logs serve (offset_chain serve off j) k"
  by (induction j arbitrary: off) (simp_all add: chain_logs_Suc, simp add: chain_logs_def)

lemma chain_logs_snoc:
  "chain_logs serve off (Suc k) = chain_logs serve off k @ logs_of (serve (offset_chain serve off k))"
  by (simp add: chain_logs_def)

lemma offset_chain_nonneg: "0 \<le> off \<Longrightarrow> 0 \<le> offset_chain serve off k"
  by (induction k arbitrary: off) (auto simp: advance_def)

lemma reached_Suc: "reached serve off k x \<Longrightarrow> reached serve off (Suc k) x"
  by (auto simp: reached_def intro: le_SucI)

section \<open>Offsets a tracker may commit\<close>

text \<open>
  Every offset that the tracker holds, if it holds one, and the one on the service satisfy
  \<open>G\<close>: then so does whatever is committed.
\<close>

definition within :: "(int \<Rightarrow> bool) \<Rightarrow> OffsetTracker \<Rightarrow> int \<Rightarrow> bool" where
  "within G t svc \<longleftrightarrow> G svc \<and> (ot_offset t = -1 \<or> G (ot_offset t)) \<and> (tempOffset t = -1 \<or> G (tempOffset t))"

lemma within_mono: "within G t svc \<Longrightarrow> (\<And>x. G x \<Longrightarrow> H x) \<Longrightarrow> within H t svc"
  by (auto simp: within_def)

lemma within_FlushOffset:
  assumes "within G t svc" and "FlushOffset upd force t = (err, reqs, t')"
  shows "within G t' (service_after reqs svc) \<and> ot_offset t' = ot_offset t"
  using assms by (auto simp: FlushOffset_cases within_def flush_target_def split: if_splits option.splits)

lemma within_SaveOffset:
  assumes "within G t svc" and "SaveOffset upd persistent [] t = (err, reqs, t')"
  shows "within G t' (service_after reqs svc) \<and> ot_offset t' = ot_offset t"
proof -
  have "within G (t\<lparr>tempOffset := ot_offset t\<rparr>) svc" using assms(1) by (auto simp: within_def)
  from within_FlushOffset [OF this] assms(2) this show ?thesis
    by (auto simp: SaveOffset_def Let_def split: if_splits)
qed

lemma within_FlushCheck:
  assumes "within G t svc" and "FlushCheck upd now t = (reqs, t')"
  shows "within G t' (service_after reqs svc) \<and> ot_offset t' = ot_offset t"
proof -
  obtain err rs u where f: "FlushOffset upd False t = (err, rs, u)" by (metis prod_cases3)
  from within_FlushOffset [OF assms(1) f] assms f show ?thesis
    by (auto simp: FlushCheck_def within_def split: if_splits)
qed

section \<open>The contract of a processor\<close>

locale tracked_processor = offset_processor process shut
  for process :: "'p process_op" and shut :: "'p shutdown_op" +
  fixes delivered :: "'p \<Rightarrow> Log ptr list"
  assumes process_delivers: "process logs p t = (err, reqs, p', t') \<Longrightarrow>
      delivered p' = delivered p @ logs"
    and process_within: "within G t svc \<Longrightarrow> process logs p t = (err, reqs, p', t') \<Longrightarrow>
      within G t' (service_after reqs svc) \<and> ot_offset t' = ot_offset t"
    and shut_delivers: "shut p t = (reqs, p', t') \<Longrightarrow> delivered p' = delivered p"
    and shut_within: "within G t svc \<Longrightarrow> shut p t = (reqs, p', t') \<Longrightarrow>
      within G t' (service_after reqs svc) \<and> ot_offset t' = ot_offset t"

text \<open>A processor whose shutdown commits the position of the tracker, and is not refused.\<close>

locale committing_processor = tracked_processor process shut delivered
  for process :: "'p process_op" and shut :: "'p shutdown_op" and delivered :: "'p \<Rightarrow> Log ptr list" +
  assumes shut_position: "synced t svc \<Longrightarrow> ot_offset t \<noteq> -1 \<Longrightarrow> shut p t = (reqs, p', t') \<Longrightarrow>
      service_after reqs svc = ot_offset t"

section \<open>One owner\<close>

text \<open>A tracker without an offset is one for which no answer moved on.\<close>

definition position_known :: "(int \<Rightarrow> PullLogResponse) \<Rightarrow> int \<Rightarrow> nat \<Rightarrow> OffsetTracker \<Rightarrow> bool" where
  "position_known serve off k t \<longleftrightarrow> ot_offset t = offset_chain serve off k \<or>
     ot_offset t = -1 \<and> (\<forall>j\<le>k. offset_chain serve off j = off)"

text \<open>
  Where a worker that started at \<open>off\<close> is after \<open>k\<close> answers: what it has delivered, what it
  pulls next, and what it may have committed.
\<close>

definition progressed ::
    "('p \<Rightarrow> Log ptr list) \<Rightarrow> (int \<Rightarrow> PullLogResponse) \<Rightarrow> Log ptr list \<Rightarrow> int \<Rightarrow> nat \<Rightarrow> int
     \<Rightarrow> 'p PartitionConsumerWorker \<Rightarrow> bool" where
  "progressed delivered serve seen off k svc pw \<longleftrightarrow>
     delivered (pw_processor pw) = seen @ chain_logs serve off k \<and>
     NextFetchOffset pw = offset_chain serve off k \<and>
     within (reached serve off k) (tracker pw) (service_after (pw_commits pw) svc) \<and>
     position_known serve off k (tracker pw)"

text \<open>What a fetch does to the tracker and to the commits, beside its answer.\<close>

definition accepted_tracker :: "PullLogResponse \<Rightarrow> OffsetTracker \<Rightarrow> OffsetTracker" where
  "accepted_tracker r t = (if 0 < NextOffset r then SetOffset (NextOffset r) t else t)"

lemma idle_flush_tracker:
  assumes "idle_flush ps gs pw = pw'"
  shows "tracker pw' = tracker pw \<and> pw_commits pw' = pw_commits pw \<or>
    gs = [] \<and> (\<exists>err reqs. FlushOffset (ps_upd ps) False (tracker pw) = (err, reqs, tracker pw') \<and>
      pw_commits pw' = pw_commits pw @ reqs)"
proof -
  obtain err reqs t where "FlushOffset (ps_upd ps) False (tracker pw) = (err, reqs, t)" by (metis prod_cases3)
  then show ?thesis
    unfolding assms [symmetric] idle_flush_def
    by (cases "LastEmptyFlushTime pw = 0"; cases "30 \<le> int64 (ps_now ps - LastEmptyFlushTime pw)") simp_all
qed

lemma fetchData_cases:
  assumes "reads serve ps" and "fetchData ps pw = (gs, pw')"
  obtains (nothing) "gs = []" and "pw_processor pw' = pw_processor pw"
      and "NextFetchOffset pw' = NextFetchOffset pw" and "tracker pw' = tracker pw"
      and "pw_commits pw' = pw_commits pw"
    | (answer) r where "r = serve (NextFetchOffset pw)" and "gs = LogGroups r"
      and "pw_processor pw' = pw_processor pw"
      and "NextFetchOffset pw' = advance serve (NextFetchOffset pw)"
      and "tracker pw' = accepted_tracker r (tracker pw) \<and> pw_commits pw' = pw_commits pw \<or>
        gs = [] \<and> (\<exists>upd err reqs. FlushOffset upd False (accepted_tracker r (tracker pw)) =
          (err, reqs, tracker pw') \<and> pw_commits pw' = pw_commits pw @ reqs)"
proof -
  let ?pw = "pw\<lparr>LastFetchTime := go_quot (ps_now_ns ps) 1000000\<rparr>" and ?r = "serve (NextFetchOffset pw)"
  define timed where "timed = (0 < pw_StartTime pw \<or> 0 < pw_EndTime pw)"
  let ?loop = "fetch_loop ps (if timed then Some (pw_StartTime pw) else None)
      (if timed then Some (pw_EndTime pw) else None) 3 0 (NextFetchOffset pw) ?pw"
  define w where "w = accept_response ?r ?pw"
  define u where "u = idle_flush ps (LogGroups ?r) w"
  have w: "tracker w = accepted_tracker ?r (tracker pw)" "pw_commits w = pw_commits pw"
    by (simp_all add: w_def accept_response_def accepted_tracker_def GetNextOffset_def)
  consider "?loop = (None, ?pw)" | "?loop = (Some ?r, ?pw)"
    using fetch_loop_reads [OF assms(1)] by blast
  then have "gs = [] \<and> (pw' = pw \<or> pw' = ?pw) \<or>
      gs = LogGroups ?r \<and> pw' = u\<lparr>LastFetchCount := int (length (LogGroups ?r))\<rparr>"
    using assms(2) unfolding fetchData_unfold Let_def timed_def [symmetric]
    by cases (auto simp: GetLogGroups_def w_def u_def split: if_splits)
  then consider "gs = []" "pw' = pw \<or> pw' = ?pw"
    | "gs = LogGroups ?r" "pw' = u\<lparr>LastFetchCount := int (length (LogGroups ?r))\<rparr>" by blast
  then show thesis
  proof cases
    case 1
    then show ?thesis by (elim disjE) (rule nothing; simp)+
  next
    case 2
    then show ?thesis
      using idle_flush_tracker [OF u_def [symmetric]] w
      by (intro answer [OF refl]) (auto simp: u_def w_def accept_response_def advance_def GetNextOffset_def)
  qed
qed

lemma within_accepted:
  assumes "within (reached serve off k) t svc" and "r = serve (offset_chain serve off k)"
  shows "within (reached serve off (Suc k)) (accepted_tracker r t) svc"
proof -
  have "reached serve off (Suc k) (offset_chain serve off (Suc k))" by (auto simp: reached_def)
  then have "0 < NextOffset r \<Longrightarrow> reached serve off (Suc k) (NextOffset r)"
    using assms(2) by (simp only: offset_chain_Suc) (simp add: advance_def)
  moreover have "within (reached serve off (Suc k)) t svc"
    by (rule within_mono [OF assms(1)]) (rule reached_Suc)
  ultimately show ?thesis
    by (auto simp: accepted_tracker_def within_def SetOffset_def)
qed

lemma position_known_accepted:
  assumes "position_known serve off k t" and "r = serve (offset_chain serve off k)"
  shows "position_known serve off (Suc k) (accepted_tracker r t)"
  using assms unfolding position_known_def offset_chain_Suc
  by (auto simp: accepted_tracker_def SetOffset_def advance_def le_Suc_eq offset_chain_Suc)

lemma processData_run:
  assumes "gs \<noteq> []" and "None \<notin> set gs" and "\<not> shutdown"
    and "process (concat (map GetLogs gs)) (pw_processor pw) (tracker pw) = (err, reqs, p, t)"
    and "processData shutdown process gs pw = pw'"
  shows "pw_processor pw' = p \<and> tracker pw' = t \<and> pw_commits pw' = pw_commits pw @ reqs \<and>
    NextFetchOffset pw' = NextFetchOffset pw"
  using assms by (auto simp: processData_def Let_def)

context tracked_processor begin

lemma progressed_process:
  assumes "progressed delivered serve seen off k svc pw" and "reads serve ps" and "\<not> ps_shutdown ps 4"
    and "None \<notin> set (LogGroups (serve (NextFetchOffset pw)))" and "fetchData ps pw = (gs, pw1)"
    and "pw2 = (if 0 < length gs then processData (ps_shutdown ps 4) process gs pw1 else pw1)"
  shows "\<exists>k' \<le> Suc k. k \<le> k' \<and> progressed delivered serve seen off k' svc pw2"
  using assms(2,5)
proof (cases rule: fetchData_cases)
  case nothing
  with assms(1,6) show ?thesis by (intro exI [of _ k]) (simp add: progressed_def)
next
  case (answer r)
  note p = assms(1) [unfolded progressed_def]
  have r: "r = serve (offset_chain serve off k)" using answer(1) p by simp
  let ?t = "accepted_tracker r (tracker pw)"
  have t: "within (reached serve off (Suc k)) ?t (service_after (pw_commits pw) svc)"
    "position_known serve off (Suc k) ?t"
    using within_accepted [where k = k and off = off and serve = serve]
      position_known_accepted [where k = k and off = off and serve = serve] p r by blast+
  have next_off: "NextFetchOffset pw1 = offset_chain serve off (Suc k)"
    using answer(4) p by (simp add: offset_chain_Suc del: offset_chain.simps)
  have "progressed delivered serve seen off (Suc k) svc pw2"
  proof (cases "gs = []")
    case True
    then have "logs_of r = []" using answer(2) by (simp add: logs_of_def)
    then have seen: "delivered (pw_processor pw1) = seen @ chain_logs serve off (Suc k)"
      using p r answer(3) by (simp add: chain_logs_snoc)
    have "within (reached serve off (Suc k)) (tracker pw1) (service_after (pw_commits pw1) svc) \<and>
        ot_offset (tracker pw1) = ot_offset ?t"
      using answer(5) t(1) within_FlushOffset [OF t(1)] by auto
    with t(2) seen next_off True assms(6) show ?thesis by (simp add: progressed_def position_known_def)
  next
    case False
    have tr: "tracker pw1 = ?t" "pw_commits pw1 = pw_commits pw" using answer(5) False by auto
    obtain err reqs q u where run: "process (concat (map GetLogs gs)) (pw_processor pw1) (tracker pw1) = (err, reqs, q, u)"
      by (metis prod_cases4)
    have groups: "None \<notin> set gs" using assms(4) answer(1,2) by simp
    have pd: "processData (ps_shutdown ps 4) process gs pw1 = pw2" using False assms(6) by simp
    note w = processData_run [OF False groups assms(3) run pd]
    have "delivered (pw_processor pw2) = seen @ chain_logs serve off (Suc k)"
      using process_delivers [OF run] w p r answer(2,3) by (simp add: chain_logs_snoc logs_of_def)
    moreover have "within (reached serve off (Suc k)) (tracker pw2) (service_after (pw_commits pw2) svc) \<and>
        ot_offset (tracker pw2) = ot_offset ?t"
      using process_within [OF _ run] t(1) w tr by simp
    ultimately show ?thesis
      using t(2) w next_off by (simp add: progressed_def position_known_def)
  qed
  then show ?thesis by (intro exI [of _ "Suc k"]) simp
qed

lemma progressed_pass:
  assumes "progressed delivered serve seen off k svc pw" and "reads serve ps" and "\<not> ps_shutdown ps 4"
    and "None \<notin> set (LogGroups (serve (NextFetchOffset pw)))"
  shows "\<exists>k' \<le> Suc k. k \<le> k' \<and> progressed delivered serve seen off k' svc (consume_pass process ps pw)"
proof -
  obtain gs pw1 where f: "fetchData ps pw = (gs, pw1)" by force
  define pw2 where "pw2 = (if 0 < length gs then processData (ps_shutdown ps 4) process gs pw1 else pw1)"
  obtain reqs t where fl: "FlushCheck (ps_upd ps) (ps_now ps) (tracker pw2) = (reqs, t)" by force
  have step: "progressed delivered serve seen off k' svc (consume_pass process ps pw)"
    if "progressed delivered serve seen off k' svc pw2" for k'
  proof -
    have "within (reached serve off k') (tracker pw2) (service_after (pw_commits pw2) svc)"
      using that by (simp add: progressed_def)
    from within_FlushCheck [OF this fl] that consume_pass_steps [OF f pw2_def] fl show ?thesis
      by (simp add: progressed_def position_known_def)
  qed
  with progressed_process [OF assms f pw2_def] show ?thesis by blast
qed

end

lemma progressed_passes:
  assumes "\<And>ps. tracked_processor (process ps) shut delivered"
    and "\<forall>x. None \<notin> set (LogGroups (serve x))"
    and "progressed delivered serve seen off k svc pw"
    and "\<forall>ps\<in>set passes. reads serve ps \<and> \<not> ps_shutdown ps 4"
  shows "\<exists>k'. k \<le> k' \<and>
    progressed delivered serve seen off k' svc (fold (\<lambda>ps. consume_pass (process ps) ps) passes pw)"
  using assms(3,4)
proof (induction passes arbitrary: k pw)
  case (Cons ps passes)
  let ?w = "consume_pass (process ps) ps pw"
  obtain k1 where k1: "k \<le> k1" "progressed delivered serve seen off k1 svc ?w"
    using tracked_processor.progressed_pass [OF assms(1) Cons.prems(1), of ps ps] assms(2) Cons.prems(2)
    by auto
  obtain k2 where "k1 \<le> k2"
    "progressed delivered serve seen off k2 svc (fold (\<lambda>ps. consume_pass (process ps) ps) passes ?w)"
    using Cons.IH [OF k1(2)] Cons.prems(2) by auto
  with k1(1) show ?case by (intro exI [of _ k2]) simp
qed auto

text \<open>The end of a worker: it delivers nothing, and commits only what it may.\<close>

lemma pw_close_run:
  assumes "\<not> pw_closed pw" and "FlushOffset upd True (tracker pw) = (err, reqs, t)"
    and "shut (pw_processor pw) t = (reqs', p, t')"
  shows "pw_processor (pw_close upd shut pw) = p" and "tracker (pw_close upd shut pw) = t'"
    and "pw_commits (pw_close upd shut pw) = pw_commits pw @ reqs @ reqs'"
    and "NextFetchOffset (pw_close upd shut pw) = NextFetchOffset pw"
  using assms by (simp_all add: pw_close_def Let_def)

context tracked_processor begin

lemma progressed_close:
  assumes "progressed delivered serve seen off k svc pw" and "\<not> pw_closed pw"
  shows "progressed delivered serve seen off k svc (pw_close upd shut pw)"
proof -
  obtain err reqs t where f: "FlushOffset upd True (tracker pw) = (err, reqs, t)" by (metis prod_cases3)
  obtain reqs' p t' where s: "shut (pw_processor pw) t = (reqs', p, t')" by (metis prod_cases3)
  have "within (reached serve off k) (tracker pw) (service_after (pw_commits pw) svc)"
    using assms(1) by (simp add: progressed_def)
  note fl = within_FlushOffset [OF this f]
  with shut_within [OF _ s] have "within (reached serve off k) t'
      (service_after reqs' (service_after reqs (service_after (pw_commits pw) svc))) \<and>
      ot_offset t' = ot_offset (tracker pw)" by auto
  with shut_delivers [OF s] assms(1) show ?thesis
    by (simp add: progressed_def position_known_def pw_close_run [where shut = shut and upd = upd, OF assms(2) f s])
qed

end

context committing_processor begin

lemma close_position:
  assumes "progressed delivered serve seen off k svc pw" and "\<not> pw_closed pw" and "settled pw svc"
    and "0 \<le> off"
  shows "service_after (pw_commits (pw_close upd shut pw)) svc = offset_chain serve off k"
proof -
  obtain err reqs t where f: "FlushOffset upd True (tracker pw) = (err, reqs, t)" by (metis prod_cases3)
  obtain reqs' p t' where s: "shut (pw_processor pw) t = (reqs', p, t')" by (metis prod_cases3)
  have syn: "synced t (service_after reqs (service_after (pw_commits pw) svc))"
    and ot: "ot_offset t = ot_offset (tracker pw)"
    using FlushOffset_synced(1,4) [OF _ f] assms(3) by (auto simp: settled_def)
  note c = pw_close_run [where shut = shut and upd = upd, OF assms(2) f s]
  consider "ot_offset t = offset_chain serve off k"
    | "ot_offset t = -1" "\<forall>j\<le>k. offset_chain serve off j = off"
    using assms(1) ot by (auto simp: progressed_def position_known_def)
  then show ?thesis
  proof cases
    case 1
    moreover have "ot_offset t \<noteq> -1" using 1 offset_chain_nonneg [OF assms(4), of serve k] by simp
    ultimately show ?thesis using shut_position [OF syn _ s] c by simp
  next
    case 2
    have "reached serve off k (service_after (pw_commits (pw_close upd shut pw)) svc)"
      using progressed_close [OF assms(1,2)] by (simp add: progressed_def within_def)
    with 2(2) show ?thesis by (auto simp: reached_def)
  qed
qed

end

section \<open>The adaptor, with what it was given\<close>

text \<open>
  The adaptor of \<^verbatim>\<open>consumer/processor.go\<close> with a history of the logs handed to the
  user's function.
\<close>

type_synonym observed = "ProcessorBase \<times> Log ptr list"

definition observed_init :: "int \<Rightarrow> string \<Rightarrow> observed \<Rightarrow> observed" where
  "observed_init partitionID topicID o' =
     (Processor_Initialize topicID ((fst o')\<lparr>pb_PartitionID := partitionID\<rparr>), snd o')"

definition observed_op ::
    "commit_call \<Rightarrow> int \<Rightarrow> (string \<Rightarrow> int \<Rightarrow> Log ptr list \<Rightarrow> user_result) \<Rightarrow> observed process_op" where
  "observed_op upd now func logs o' t =
     (let (err, reqs, p, t') = adaptor_op upd now func logs (fst o') t
      in (err, reqs, (p, snd o' @ logs), t'))"

definition observed_shut :: "commit_call \<Rightarrow> int \<Rightarrow> observed shutdown_op" where
  "observed_shut upd now o' t =
     (let (reqs, p, t') = adaptor_shut upd now (fst o') t in (reqs, (p, snd o'), t'))"

lemma Processor_SaveOffset_within:
  assumes "within G t svc" and "Processor_SaveOffset upd now force p t = (reqs, p', t')"
  shows "within G t' (service_after reqs svc) \<and> ot_offset t' = ot_offset t"
  using assms within_SaveOffset [OF assms(1)]
  by (auto simp: Processor_SaveOffset_def split: if_splits prod.splits)

interpretation observed: tracked_processor "observed_op upd now func" "observed_shut upd' now'" snd
proof unfold_locales
  fix t svc logs p err reqs p' t'
  assume "synced t svc" and "observed_op upd now func logs p t = (err, reqs, p', t')"
  then show "synced t' (service_after reqs svc)"
    using adaptor.process_synced by (auto simp: observed_op_def split: prod.splits)
next
  fix t svc p reqs p' t'
  assume "synced t svc" and "observed_shut upd' now' p t = (reqs, p', t')"
  then show "synced t' (service_after reqs svc)"
    using adaptor.shut_synced by (auto simp: observed_shut_def split: prod.splits)
next
  fix G t svc logs p err reqs p' t'
  assume "within G t svc" and "observed_op upd now func logs p t = (err, reqs, p', t')"
  then show "within G t' (service_after reqs svc) \<and> ot_offset t' = ot_offset t"
    using Processor_SaveOffset_within
    by (auto simp: observed_op_def adaptor_op_def Adaptor_Process_def split: prod.splits user_result.splits)
next
  fix G t svc p reqs p' t'
  assume "within G t svc" and "observed_shut upd' now' p t = (reqs, p', t')"
  then show "within G t' (service_after reqs svc) \<and> ot_offset t' = ot_offset t"
    using Processor_SaveOffset_within
    by (auto simp: observed_shut_def adaptor_shut_def Processor_Shutdown_def split: prod.splits)
qed (auto simp: observed_op_def observed_shut_def split: prod.splits)

interpretation accepting: committing_processor "observed_op upd now func" "observed_shut (\<lambda>c. None) now'" snd
proof unfold_locales
  fix t svc p reqs p' t'
  assume "synced t svc" "ot_offset t \<noteq> -1" "observed_shut (\<lambda>c. None) now' p t = (reqs, p', t')"
  then obtain q where "adaptor_shut (\<lambda>c. None) now' (fst p) t = (reqs, q, t')"
    by (auto simp: observed_shut_def split: prod.splits)
  moreover have "ot_offset t' = ot_offset t"
    using Processor_SaveOffset_synced(2) [OF \<open>synced t svc\<close>] calculation
    by (simp add: adaptor_shut_def Processor_Shutdown_def)
  ultimately show "service_after reqs svc = ot_offset t"
    using adaptor_shut_position [OF \<open>synced t svc\<close> _ \<open>ot_offset t \<noteq> -1\<close>] by simp
qed

section \<open>Owner after owner\<close>

text \<open>
  One owner: the user's function, the time it is created, its passes, and how it ends, cleanly
  with a commit call and a time or by a crash after the last pass.
\<close>

record owner =
  ow_func :: "string \<Rightarrow> int \<Rightarrow> Log ptr list \<Rightarrow> user_result"
  ow_born :: int
  ow_passes :: "pass list"
  ow_end :: "(commit_call \<times> int) option"

text \<open>
  The service answers the first question of an owner with the committed offset \<open>svc\<close>.  The
  main loop calls \<open>ConsumeWithContext\<close> once to initialize the worker and once to run it.
\<close>

definition owner_run ::
    "(observed \<Rightarrow> observed PartitionConsumerWorker) \<Rightarrow> owner \<Rightarrow> int \<Rightarrow> Log ptr list
     \<Rightarrow> observed PartitionConsumerWorker" where
  "owner_run new ow svc seen =
     (let process = (\<lambda>ps. observed_op (ps_upd ps) (ps_now ps) (ow_func ow));
          consume = (\<lambda>upd now. ConsumeWithContext (Inr svc) (Inr svc) observed_init process
            (observed_shut upd now) upd (ow_passes ow));
          pw = consume (\<lambda>c. None) 0 (new (NewProcessorBase (ow_born ow), seen))
      in case ow_end ow of
           Some (upd, now) \<Rightarrow> consume upd now pw
         | None \<Rightarrow> fold (\<lambda>ps. consume_pass (process ps) ps) (ow_passes ow) (pw\<lparr>pw_running := True\<rparr>))"

definition take_over ::
    "(observed \<Rightarrow> observed PartitionConsumerWorker) \<Rightarrow> owner \<Rightarrow> int \<times> Log ptr list \<Rightarrow> int \<times> Log ptr list" where
  "take_over new ow st =
     (let pw = owner_run new ow (fst st) (snd st)
      in (service_after (pw_commits pw) (fst st), snd (pw_processor pw)))"

lemma progressed_cong:
  "pw_processor pw' = pw_processor pw \<Longrightarrow> NextFetchOffset pw' = NextFetchOffset pw \<Longrightarrow>
   tracker pw' = tracker pw \<Longrightarrow> pw_commits pw' = pw_commits pw \<Longrightarrow>
   progressed delivered serve seen off k svc pw' = progressed delivered serve seen off k svc pw"
  by (simp add: progressed_def)

lemma first_call:
  assumes "pw = ConsumeWithContext (Inr svc) b observed_init process shut upd passes
      (NewPartitionConsumerWorker topic part name (p, seen) ost sz oet st en q)" and "0 \<le> svc"
  shows "progressed snd serve seen svc 0 svc pw" and "settled pw svc" and "Initialized pw"
    and "\<not> pw_shutdown pw" and "\<not> pw_running pw" and "\<not> pw_closed pw"
  using assms(2)
  by (simp_all add: assms(1) ConsumeWithContext_def pw_initialize_def NewPartitionConsumerWorker_def
      observed_init_def progressed_def chain_logs_def within_def reached_def position_known_def
      settled_def synced_def NewOffsetTracker_def SetPersistentOffset_def SetMemoryOffset_def)

lemma owner_run_progressed:
  assumes "\<forall>ps\<in>set (ow_passes ow). reads serve ps \<and> \<not> ps_shutdown ps 4"
    and "\<forall>x. None \<notin> set (LogGroups (serve x))" and "0 \<le> svc"
    and "new = (\<lambda>p. NewPartitionConsumerWorker topic part name p ost sz oet st en q)"
  shows "\<exists>k. progressed snd serve seen svc k svc (owner_run new ow svc seen) \<and>
    (\<forall>now. ow_end ow = Some (\<lambda>c. None, now) \<longrightarrow>
       service_after (pw_commits (owner_run new ow svc seen)) svc = offset_chain serve svc k)"
proof -
  let ?process = "\<lambda>ps. observed_op (ps_upd ps) (ps_now ps) (ow_func ow)"
  define pw where "pw = ConsumeWithContext (Inr svc) (Inr svc) observed_init ?process
    (observed_shut (\<lambda>c. None) 0) (\<lambda>c. None) (ow_passes ow) (new (NewProcessorBase (ow_born ow), seen))"
  note start = first_call [OF pw_def [unfolded assms(4)] assms(3)]
  define w where "w = fold (\<lambda>ps. consume_pass (?process ps) ps) (ow_passes ow) (pw\<lparr>pw_running := True\<rparr>)"
  have "progressed snd serve seen svc 0 svc (pw\<lparr>pw_running := True\<rparr>)"
    using start(1) by (simp add: progressed_def)
  then obtain k where k: "progressed snd serve seen svc k svc w"
    unfolding w_def
    using progressed_passes [where process = ?process, OF observed.tracked_processor_axioms assms(2) _ assms(1)]
    by blast
  have "settled (pw\<lparr>pw_running := True\<rparr>) svc" using start(2) by (simp add: settled_def)
  then have settled: "settled w svc"
    unfolding w_def by (rule settled_passes [OF observed.offset_processor_axioms])
  have open_w: "\<not> pw_closed w" using start(6) by (simp add: w_def passes_flags)
  show ?thesis
  proof (cases "ow_end ow")
    case None
    then have "owner_run new ow svc seen = w" by (simp add: owner_run_def Let_def w_def pw_def)
    with None k show ?thesis by auto
  next
    case (Some e)
    obtain upd now where e: "e = (upd, now)" by (cases e)
    have run: "owner_run new ow svc seen = (pw_close upd (observed_shut upd now) w)\<lparr>pw_running := False\<rparr>"
    proof -
      have "owner_run new ow svc seen = ConsumeWithContext (Inr svc) (Inr svc) observed_init ?process
          (observed_shut upd now) upd (ow_passes ow) pw"
        using Some e by (simp add: owner_run_def Let_def pw_def)
      then show ?thesis using start(3-5) by (simp add: ConsumeWithContext_def w_def)
    qed
    have "progressed snd serve seen svc k svc (owner_run new ow svc seen)"
      using observed.progressed_close [OF k open_w] by (simp add: run progressed_def)
    moreover have "service_after (pw_commits (owner_run new ow svc seen)) svc = offset_chain serve svc k"
      if "upd = (\<lambda>c. None)"
      using accepting.close_position [OF k open_w settled assms(3)] by (simp add: run that)
    ultimately show ?thesis using Some e by (intro exI [of _ k]) auto
  qed
qed

text \<open>
  C8: a partition changes hands without a gap and without a repetition.  Over any number of
  successive owners with the SDK's adaptor, each of which may fail to pull, may have any of its
  periodic commits refused and is given any function of the user, if each ends cleanly with its
  last commits accepted, then all of them together have handed over exactly what the partition
  serves along one chain of offsets, in order, and the service ends with the offset behind it.
  (The service answers a new owner with the committed offset; no owner is shut down between a
  fetch and its processing: what that loses is shown in \<open>Consumer_Commits\<close>.)
\<close>

theorem handover_gapless:
  assumes "\<forall>ow\<in>set owners. \<forall>ps\<in>set (ow_passes ow). reads serve ps \<and> \<not> ps_shutdown ps 4"
    and "\<forall>ow\<in>set owners. \<exists>now. ow_end ow = Some (\<lambda>c. None, now)"
    and "\<forall>x. None \<notin> set (LogGroups (serve x))" and "0 \<le> svc"
  shows "\<exists>k. fold (take_over (\<lambda>p. NewPartitionConsumerWorker topic part name p ost sz oet st en q))
      owners (svc, seen) = (offset_chain serve svc k, seen @ chain_logs serve svc k)"
proof -
  define new :: "observed \<Rightarrow> observed PartitionConsumerWorker"
    where "new = (\<lambda>p. NewPartitionConsumerWorker topic part name p ost sz oet st en q)"
  have "\<exists>k. fold (take_over new) owners (svc, seen) = (offset_chain serve svc k, seen @ chain_logs serve svc k)"
    using assms(1,2,4)
  proof (induction owners arbitrary: svc seen)
    case Nil
    show ?case by (intro exI [of _ 0]) (simp add: chain_logs_def)
  next
    case (Cons ow owners)
    have run: "\<forall>ps\<in>set (ow_passes ow). reads serve ps \<and> \<not> ps_shutdown ps 4"
      and ends: "\<exists>now. ow_end ow = Some (\<lambda>c. None, now)"
      using Cons.prems(1,2) by simp_all
    obtain k where "progressed snd serve seen svc k svc (owner_run new ow svc seen)"
      "service_after (pw_commits (owner_run new ow svc seen)) svc = offset_chain serve svc k"
      using owner_run_progressed [OF run assms(3) Cons.prems(3) new_def, of seen] ends by blast
    then have one: "take_over new ow (svc, seen) = (offset_chain serve svc k, seen @ chain_logs serve svc k)"
      by (simp add: take_over_def progressed_def)
    have "0 \<le> offset_chain serve svc k" by (rule offset_chain_nonneg [OF Cons.prems(3)])
    then obtain m where "fold (take_over new) owners (offset_chain serve svc k, seen @ chain_logs serve svc k) =
        (offset_chain serve (offset_chain serve svc k) m,
         (seen @ chain_logs serve svc k) @ chain_logs serve (offset_chain serve svc k) m)"
      using Cons.IH [of "offset_chain serve svc k" "seen @ chain_logs serve svc k"] Cons.prems(1,2) by auto
    with one show ?case
      by (intro exI [of _ "k + m"]) (simp add: offset_chain_add chain_logs_add)
  qed
  then show ?thesis unfolding new_def .
qed

text \<open>
  C9: a crash repeats, but never skips.  If owners may also crash after any of their passes, or
  have their last commits refused, then the offset on the service is always one of the chain of
  offsets from the start, and everything the partition serves before it has been handed over.
\<close>

theorem crash_skips_nothing:
  assumes "\<forall>ow\<in>set owners. \<forall>ps\<in>set (ow_passes ow). reads serve ps \<and> \<not> ps_shutdown ps 4"
    and "\<forall>x. None \<notin> set (LogGroups (serve x))" and "0 \<le> svc"
  shows "\<exists>k. fst (fold (take_over (\<lambda>p. NewPartitionConsumerWorker topic part name p ost sz oet st en q))
      owners (svc, seen)) = offset_chain serve svc k \<and>
    set (chain_logs serve svc k) \<subseteq> set (snd (fold
      (take_over (\<lambda>p. NewPartitionConsumerWorker topic part name p ost sz oet st en q)) owners (svc, seen)))"
proof -
  define new :: "observed \<Rightarrow> observed PartitionConsumerWorker"
    where "new = (\<lambda>p. NewPartitionConsumerWorker topic part name p ost sz oet st en q)"
  have "\<exists>k. fst (fold (take_over new) owners (offset_chain serve svc j, seen)) = offset_chain serve svc k \<and>
      set (chain_logs serve svc k) \<subseteq> set (snd (fold (take_over new) owners (offset_chain serve svc j, seen)))"
    if "set (chain_logs serve svc j) \<subseteq> set seen" for j
    using assms(1) that
  proof (induction owners arbitrary: j seen)
    case (Cons ow owners)
    let ?off = "offset_chain serve svc j"
    let ?pw = "owner_run new ow ?off seen"
    have run: "\<forall>ps\<in>set (ow_passes ow). reads serve ps \<and> \<not> ps_shutdown ps 4" using Cons.prems(1) by simp
    obtain k where "progressed snd serve seen ?off k ?off ?pw"
      using owner_run_progressed [OF run assms(2) offset_chain_nonneg [OF assms(3)] new_def, of seen] by blast
    then obtain i where i: "i \<le> k" "service_after (pw_commits ?pw) ?off = offset_chain serve ?off i"
      and seen: "snd (pw_processor ?pw) = seen @ chain_logs serve ?off k"
      by (auto simp: progressed_def within_def reached_def)
    have "set (chain_logs serve ?off i) \<subseteq> set (chain_logs serve ?off k)"
      using i(1) chain_logs_add [of serve ?off i "k - i"] by simp
    then have *: "set (chain_logs serve svc (j + i)) \<subseteq> set (seen @ chain_logs serve ?off k)"
      using Cons.prems(2) by (auto simp: chain_logs_add)
    have "take_over new ow (?off, seen) = (offset_chain serve svc (j + i), seen @ chain_logs serve ?off k)"
      using i(2) seen by (simp add: take_over_def offset_chain_add)
    then show ?case using Cons.IH [OF _ *] Cons.prems(1) by simp
  qed auto
  from this [of 0] show ?thesis by (simp add: chain_logs_def new_def)
qed

section \<open>Two owners\<close>

text \<open>After a crash of the first owner the second one reads the first batch again.\<close>

definition ex_owner :: "(commit_call \<times> int) option \<Rightarrow> owner" where
  "ex_owner e = \<lparr>ow_func = (\<lambda>t i logs. RetOther), ow_born = 0, ow_passes = [ex_pass 1], ow_end = e\<rparr>"

definition ex_owners :: "(commit_call \<times> int) option \<Rightarrow> int \<times> Log ptr list" where
  "ex_owners e = fold (take_over (\<lambda>p. NewPartitionConsumerWorker ''t'' 0 ''c'' p ''begin'' 10 [] 0 0 []))
     [ex_owner e, ex_owner (Some (\<lambda>c. None, 5))] (0, [])"

lemma ex_owners_end: "fst (ex_owners (Some (\<lambda>c. None, 5))) = 9" "fst (ex_owners None) = 7"
  by code_simp+

theorem handover_gapless_witness:
  "\<exists>k. ex_owners (Some (\<lambda>c. None, 5)) = (9, chain_logs ex_serve 0 k) \<and> offset_chain ex_serve 0 k = 9"
proof -
  have "\<exists>k. ex_owners (Some (\<lambda>c. None, 5)) = (offset_chain ex_serve 0 k, [] @ chain_logs ex_serve 0 k)"
    unfolding ex_owners_def
    by (rule handover_gapless) (simp_all add: ex_owner_def ex_pass_reads ex_pass_up ex_serve_groups)
  with ex_owners_end(1) show ?thesis by fastforce
qed

theorem crash_skips_nothing_witness:
  "\<exists>k. offset_chain ex_serve 0 k = 7 \<and> set (chain_logs ex_serve 0 k) \<subseteq> set (snd (ex_owners None))"
proof -
  have "\<exists>k. fst (ex_owners None) = offset_chain ex_serve 0 k \<and>
      set (chain_logs ex_serve 0 k) \<subseteq> set (snd (ex_owners None))"
    unfolding ex_owners_def
    by (rule crash_skips_nothing) (simp_all add: ex_owner_def ex_pass_reads ex_pass_up ex_serve_groups)
  with ex_owners_end(2) show ?thesis by fastforce
qed

end
