(* ===== verification/Consumer_Race.thy ===== *)
theory Consumer_Race
  imports Consumer_Handover
begin

text \<open>
  One partition worker with the goroutines that meet on it: the one in \<open>ConsumeWithContext\<close>
  and the one that closes the worker (\<open>ShutDown\<close> from the main loop, or \<open>close\<close> when the
  context is cancelled) and then gives the partition back, as the main loop does with the
  worker of a partition that is no longer assigned.  A step is what a goroutine does
  between two accesses to what they share: the shutdown flag, the mutex of the processor, the
  tracker.  \<open>Partition_Worker\<close> has the same operations one pass at a time, and
  \<open>Consumer_Pass\<close> shows that the steps of a pass are that pass.
\<close>

section \<open>State\<close>

text \<open>
  Where the consuming goroutine is in \<open>ConsumeWithContext\<close>, \<open>fetchData\<close>, \<open>processData\<close>.  Each
  check of the shutdown flag and what is done after it are steps of their own: between
  \<open>PullHead\<close>, where the flag is checked, and the request, sent from \<open>PullReady\<close>, it can be set.
\<close>

datatype loop_pc =
    LoopHead | FetchHead | PullHead nat int | PullReady nat int | Pulling nat int | Got PullLogResponse
  | Taken "LogGroup ptr list" | ProcHead "LogGroup ptr list" | LockWait "Log ptr list"
  | Processing "Log ptr list" | FlushPoint | Pausing | CloseWait | Left

text \<open>Where the closing goroutine is in \<open>close\<close>, and whether the partition is given back.\<close>

datatype close_pc = Open | Flagged | HasLock | FlushDone | Closed | GivenBack

text \<open>What can be seen from outside, in order.\<close>

datatype event =
    Pulled int | Committed commit bool | Processed "Log ptr list" | ShutdownCalled | PartitionGivenBack

record 'p race =
  wk :: "'p PartitionConsumerWorker"
  loop_at :: loop_pc
  close_at :: close_pc
  processorLock :: bool
  events :: "event list"

definition race_start :: "'p PartitionConsumerWorker \<Rightarrow> 'p race" where
  "race_start pw = \<lparr>wk = pw\<lparr>pw_running := True\<rparr>, loop_at = LoopHead, close_at = Open,
     processorLock = False, events = []\<rparr>"

text \<open>A step that ends with the worker \<open>pw\<close>, whose new commits are seen.\<close>

definition new_commits :: "'p PartitionConsumerWorker \<Rightarrow> 'p PartitionConsumerWorker \<Rightarrow> event list" where
  "new_commits pw pw' = map (\<lambda>(c, ok). Committed c ok) (drop (length (pw_commits pw)) (pw_commits pw'))"

definition goto :: "loop_pc \<Rightarrow> 'p PartitionConsumerWorker \<Rightarrow> 'p race \<Rightarrow> 'p race" where
  "goto pc pw s = s\<lparr>loop_at := pc, wk := pw, events := events s @ new_commits (wk s) pw\<rparr>"

section \<open>The consuming goroutine\<close>

text \<open>What a step reads from outside.\<close>

datatype input =
    Go | Cancel | Clock int | Answer "string + PullLogResponse" "TopicPartitionOffsetsInfo list outcome"
  | Commit commit_call int

type_synonym 'p race_process = "commit_call \<Rightarrow> int \<Rightarrow> 'p process_op"
type_synonym 'p race_shut = "commit_call \<Rightarrow> int \<Rightarrow> 'p shutdown_op"

text \<open>\<open>fetchData\<close> up to its first pull, with the clock in nanoseconds.\<close>

definition begin_fetch :: "int \<Rightarrow> 'p PartitionConsumerWorker \<Rightarrow> loop_pc \<times> 'p PartitionConsumerWorker" where
  "begin_fetch ns pw =
     (let now = go_quot ns 1000000; interval = minIntervalMs (LastFetchCount pw) in
      if pw_IsShutdown pw \<or> 0 < interval \<and> int64 (now - LastFetchTime pw) < interval then (FlushPoint, pw)
      else
        let pw1 = setLastFetchTime now pw
        in if (0 < pw_StartTime pw \<or> 0 < pw_EndTime pw) \<and> pw_EndTime pw < pw_StartTime pw \<and> 0 < pw_EndTime pw
           then (FlushPoint, pw1) else (PullHead 0 (getNextFetchOffset pw), pw1))"

text \<open>What the answer to attempt \<open>i\<close> leads to.\<close>

definition end_pull ::
    "nat \<Rightarrow> int \<Rightarrow> string + PullLogResponse \<Rightarrow> TopicPartitionOffsetsInfo list outcome
     \<Rightarrow> 'p PartitionConsumerWorker \<Rightarrow> loop_pc \<times> 'p PartitionConsumerWorker" where
  "end_pull i off r ends pw =
     (case r of
        Inr resp \<Rightarrow> (Got resp, pw)
      | Inl e \<Rightarrow>
          (case (if i = 0 \<and> Contains (ToLower e) ''invalidoffset'' then end_offset ends else None) of
             Some off' \<Rightarrow> (PullHead (Suc i) off', setNextFetchOffset off' pw)
           | None \<Rightarrow> if i = 2 then (FlushPoint, pw) else (PullHead (Suc i) off, pw)))"

text \<open>The flush of an idle partition reads only the clock and the commit call of a pass.\<close>

definition at_pass :: "commit_call \<Rightarrow> int \<Rightarrow> pass" where
  "at_pass upd now = \<lparr>ps_shutdown = \<lambda>i. False, ps_now_ns = 0, ps_now = now, ps_pull = \<lambda>i req. Inl '''',
     ps_ends = Inr [], ps_upd = upd\<rparr>"

definition end_fetch ::
    "commit_call \<Rightarrow> int \<Rightarrow> LogGroup ptr list \<Rightarrow> 'p PartitionConsumerWorker
     \<Rightarrow> loop_pc \<times> 'p PartitionConsumerWorker" where
  "end_fetch upd now gs pw =
     (if 0 < length gs then ProcHead gs else FlushPoint,
      setLastFetchCount (int (length gs)) (idle_flush (at_pass upd now) gs pw))"

text \<open>\<open>processData\<close> up to the mutex of the processor.\<close>

definition begin_process ::
    "LogGroup ptr list \<Rightarrow> 'p PartitionConsumerWorker \<Rightarrow> loop_pc \<times> 'p PartitionConsumerWorker" where
  "begin_process gs pw =
     (if pw_IsShutdown pw \<or> None \<in> set gs then (FlushPoint, pw)
      else
        let logs = concat (map GetLogs gs)
        in (LockWait logs, (addConsumedStats (int (length logs)) (int (length gs)) pw)\<lparr>LogList := logs\<rparr>))"

definition run_process ::
    "'p process_op \<Rightarrow> Log ptr list \<Rightarrow> 'p PartitionConsumerWorker \<Rightarrow> 'p PartitionConsumerWorker" where
  "run_process process logs pw =
     (let (err, reqs, p, t) = process logs (pw_processor pw) (tracker pw)
      in pw\<lparr>pw_processor := p, tracker := t, pw_commits := pw_commits pw @ reqs\<rparr>)"

definition flush_check ::
    "commit_call \<Rightarrow> int \<Rightarrow> 'p PartitionConsumerWorker \<Rightarrow> 'p PartitionConsumerWorker" where
  "flush_check upd now pw =
     (let (reqs, t) = FlushCheck upd now (tracker pw)
      in pw\<lparr>tracker := t, pw_commits := pw_commits pw @ reqs\<rparr>)"

text \<open>
  \<open>close\<close> sets the flag and goes on in the one call that \<open>closeOnce\<close> lets through.  The
  consuming goroutine calls \<open>close\<close> too, when its context is cancelled or its loop has ended,
  and waits for that call in \<open>CloseWait\<close>.
\<close>

definition start_close :: "'p race \<Rightarrow> 'p race" where
  "start_close s = s\<lparr>wk := (wk s)\<lparr>pw_shutdown := True\<rparr>,
     close_at := (if close_at s = Open then Flagged else close_at s)\<rparr>"

definition leave :: "'p race \<Rightarrow> 'p race" where
  "leave s = s\<lparr>loop_at := Left, wk := (wk s)\<lparr>pw_running := False\<rparr>\<rparr>"

text \<open>\<open>None\<close> is a step that cannot be taken.\<close>

definition loop_next :: "'p race_process \<Rightarrow> input \<Rightarrow> 'p race \<Rightarrow> 'p race option" where
  "loop_next process inp s =
     (case (loop_at s, inp) of
        (LoopHead, Go) \<Rightarrow>
          Some (if pw_IsShutdown (wk s) then start_close (s\<lparr>loop_at := CloseWait\<rparr>)
                else s\<lparr>loop_at := FetchHead\<rparr>)
      | (LoopHead, Cancel) \<Rightarrow>
          if pw_IsShutdown (wk s) then None else Some (start_close (s\<lparr>loop_at := CloseWait\<rparr>))
      | (FetchHead, Clock ns) \<Rightarrow> (case begin_fetch ns (wk s) of (pc, pw) \<Rightarrow> Some (goto pc pw s))
      | (PullHead i off, Go) \<Rightarrow>
          Some (if pw_IsShutdown (wk s) then s\<lparr>loop_at := FlushPoint\<rparr> else s\<lparr>loop_at := PullReady i off\<rparr>)
      | (PullReady i off, Go) \<Rightarrow> Some (s\<lparr>loop_at := Pulling i off, events := events s @ [Pulled off]\<rparr>)
      | (Pulling i off, Answer r ends) \<Rightarrow>
          (case end_pull i off r ends (wk s) of (pc, pw) \<Rightarrow> Some (goto pc pw s))
      | (Got resp, Go) \<Rightarrow> Some (goto (Taken (GetLogGroups resp)) (accept_response resp (wk s)) s)
      | (Taken gs, Commit upd now) \<Rightarrow>
          (case end_fetch upd now gs (wk s) of (pc, pw) \<Rightarrow> Some (goto pc pw s))
      | (ProcHead gs, Go) \<Rightarrow> (case begin_process gs (wk s) of (pc, pw) \<Rightarrow> Some (goto pc pw s))
      | (LockWait logs, Go) \<Rightarrow>
          if processorLock s then None else Some (s\<lparr>processorLock := True, loop_at := Processing logs\<rparr>)
      | (Processing logs, Commit upd now) \<Rightarrow>
          Some (goto FlushPoint (run_process (process upd now) logs (wk s))
            (s\<lparr>processorLock := False, events := events s @ [Processed logs]\<rparr>))
      | (FlushPoint, Commit upd now) \<Rightarrow> Some (goto Pausing (flush_check upd now (wk s)) s)
      | (Pausing, Go) \<Rightarrow> Some (s\<lparr>loop_at := LoopHead\<rparr>)
      | (Pausing, Cancel) \<Rightarrow> Some (start_close (s\<lparr>loop_at := CloseWait\<rparr>))
      | (CloseWait, Go) \<Rightarrow> if close_at s = Closed \<or> close_at s = GivenBack then Some (leave s) else None
      | _ \<Rightarrow> None)"

section \<open>The closing goroutine\<close>

definition close_flush :: "commit_call \<Rightarrow> 'p PartitionConsumerWorker \<Rightarrow> 'p PartitionConsumerWorker" where
  "close_flush upd pw =
     (let (err, reqs, t) = FlushOffset upd True (tracker pw)
      in pw\<lparr>tracker := t, pw_commits := pw_commits pw @ reqs\<rparr>)"

definition close_shut :: "'p shutdown_op \<Rightarrow> 'p PartitionConsumerWorker \<Rightarrow> 'p PartitionConsumerWorker" where
  "close_shut shut pw =
     (let (reqs, p, t) = shut (pw_processor pw) (tracker pw)
      in pw\<lparr>pw_closed := True, tracker := t, pw_processor := p, pw_commits := pw_commits pw @ reqs\<rparr>)"

definition close_next :: "'p race_shut \<Rightarrow> input \<Rightarrow> 'p race \<Rightarrow> 'p race option" where
  "close_next shut inp s =
     (case (close_at s, inp) of
        (Open, Go) \<Rightarrow> Some (start_close s)
      | (Flagged, Go) \<Rightarrow> if processorLock s then None else Some (s\<lparr>processorLock := True, close_at := HasLock\<rparr>)
      | (HasLock, Commit upd now) \<Rightarrow>
          Some ((goto (loop_at s) (close_flush upd (wk s)) s)\<lparr>close_at := FlushDone\<rparr>)
      | (FlushDone, Commit upd now) \<Rightarrow>
          Some ((goto (loop_at s) (close_shut (shut upd now) (wk s)) (s\<lparr>events := events s @ [ShutdownCalled]\<rparr>))
            \<lparr>processorLock := False, close_at := Closed\<rparr>)
      | (Closed, Go) \<Rightarrow> Some (s\<lparr>close_at := GivenBack, events := events s @ [PartitionGivenBack]\<rparr>)
      | _ \<Rightarrow> None)"

section \<open>Interleavings\<close>

text \<open>\<open>net off r\<close>: a pull at \<open>off\<close> may answer \<open>r\<close>.\<close>

fun input_ok :: "(int \<Rightarrow> string + PullLogResponse \<Rightarrow> bool) \<Rightarrow> loop_pc \<Rightarrow> input \<Rightarrow> bool" where
  "input_ok net (Pulling i off) (Answer r ends) = net off r"
| "input_ok net pc inp = True"

inductive race_step ::
    "'p race_process \<Rightarrow> 'p race_shut \<Rightarrow> (int \<Rightarrow> string + PullLogResponse \<Rightarrow> bool) \<Rightarrow> 'p race \<Rightarrow> 'p race \<Rightarrow> bool"
  for process shut net where
  by_loop: "input_ok net (loop_at s) inp \<Longrightarrow> loop_next process inp s = Some s' \<Longrightarrow> race_step process shut net s s'"
| by_close: "close_next shut inp s = Some s' \<Longrightarrow> race_step process shut net s s'"

inductive race_reach ::
    "'p race_process \<Rightarrow> 'p race_shut \<Rightarrow> (int \<Rightarrow> string + PullLogResponse \<Rightarrow> bool) \<Rightarrow> 'p PartitionConsumerWorker
     \<Rightarrow> 'p race \<Rightarrow> bool"
  for process shut net pw where
  race_init: "race_reach process shut net pw (race_start pw)"
| race_next: "race_reach process shut net pw s \<Longrightarrow> race_step process shut net s s' \<Longrightarrow>
    race_reach process shut net pw s'"

text \<open>The steps one by one.\<close>

lemma loop_next_cases [consumes 1, case_names at_head at_cancel at_fetch at_pull at_send at_answer at_accept at_idle at_process at_lock at_run at_flush at_pause at_left]:
  assumes "loop_next process inp s = Some s'"
  obtains "loop_at s = LoopHead" "s' = (if pw_IsShutdown (wk s) then start_close (s\<lparr>loop_at := CloseWait\<rparr>)
             else s\<lparr>loop_at := FetchHead\<rparr>)"
  | "loop_at s = LoopHead \<and> \<not> pw_IsShutdown (wk s) \<or> loop_at s = Pausing" "s' = start_close (s\<lparr>loop_at := CloseWait\<rparr>)"
  | ns pc pw where "loop_at s = FetchHead" "begin_fetch ns (wk s) = (pc, pw)" "s' = goto pc pw s"
  | i off where "loop_at s = PullHead i off"
      "s' = (if pw_IsShutdown (wk s) then s\<lparr>loop_at := FlushPoint\<rparr> else s\<lparr>loop_at := PullReady i off\<rparr>)"
  | i off where "loop_at s = PullReady i off" "s' = s\<lparr>loop_at := Pulling i off, events := events s @ [Pulled off]\<rparr>"
  | i off r ends pc pw where "loop_at s = Pulling i off" "inp = Answer r ends"
      "end_pull i off r ends (wk s) = (pc, pw)" "s' = goto pc pw s"
  | resp where "loop_at s = Got resp" "s' = goto (Taken (GetLogGroups resp)) (accept_response resp (wk s)) s"
  | gs upd now pc pw where "loop_at s = Taken gs" "end_fetch upd now gs (wk s) = (pc, pw)" "s' = goto pc pw s"
  | gs pc pw where "loop_at s = ProcHead gs" "begin_process gs (wk s) = (pc, pw)" "s' = goto pc pw s"
  | logs where "loop_at s = LockWait logs" "\<not> processorLock s" "s' = s\<lparr>processorLock := True, loop_at := Processing logs\<rparr>"
  | logs upd now where "loop_at s = Processing logs"
      "s' = goto FlushPoint (run_process (process upd now) logs (wk s))
         (s\<lparr>processorLock := False, events := events s @ [Processed logs]\<rparr>)"
  | upd now where "loop_at s = FlushPoint" "s' = goto Pausing (flush_check upd now (wk s)) s"
  | "loop_at s = Pausing" "s' = s\<lparr>loop_at := LoopHead\<rparr>"
  | "loop_at s = CloseWait" "close_at s = Closed \<or> close_at s = GivenBack" "s' = leave s"
proof (cases "loop_at s")
  case LoopHead
  with assms that(1,2) show ?thesis
    by (cases inp) (auto simp: loop_next_def split: prod.splits if_splits)
next
  case FetchHead
  with assms that(3) show ?thesis
    by (cases inp) (auto simp: loop_next_def split: prod.splits if_splits)
next
  case (PullHead i off)
  with assms that(4) show ?thesis
    by (cases inp) (auto simp: loop_next_def split: prod.splits if_splits)
next
  case (PullReady i off)
  with assms that(5) show ?thesis
    by (cases inp) (auto simp: loop_next_def split: prod.splits if_splits)
next
  case (Pulling i off)
  with assms that(6) show ?thesis
    by (cases inp) (auto simp: loop_next_def split: prod.splits if_splits)
next
  case (Got resp)
  with assms that(7) show ?thesis
    by (cases inp) (auto simp: loop_next_def split: prod.splits if_splits)
next
  case (Taken gs)
  with assms that(8) show ?thesis
    by (cases inp) (auto simp: loop_next_def split: prod.splits if_splits)
next
  case (ProcHead gs)
  with assms that(9) show ?thesis
    by (cases inp) (auto simp: loop_next_def split: prod.splits if_splits)
next
  case (LockWait logs)
  with assms that(10) show ?thesis
    by (cases inp) (auto simp: loop_next_def split: prod.splits if_splits)
next
  case (Processing logs)
  with assms that(11) show ?thesis
    by (cases inp) (auto simp: loop_next_def split: prod.splits if_splits)
next
  case FlushPoint
  with assms that(12) show ?thesis
    by (cases inp) (auto simp: loop_next_def split: prod.splits if_splits)
next
  case Pausing
  with assms that(2,13) show ?thesis
    by (cases inp) (auto simp: loop_next_def split: prod.splits if_splits)
next
  case CloseWait
  with assms that(14) show ?thesis
    by (cases inp) (auto simp: loop_next_def split: prod.splits if_splits)
next
  case Left
  with assms show ?thesis
    by (cases inp) (auto simp: loop_next_def split: prod.splits if_splits)
qed

lemma close_next_cases [consumes 1, case_names at_open at_flagged at_flush at_shut at_back]:
  assumes "close_next shut inp s = Some s'"
  obtains "close_at s = Open" "s' = start_close s"
  | "close_at s = Flagged" "\<not> processorLock s" "s' = s\<lparr>processorLock := True, close_at := HasLock\<rparr>"
  | upd where "close_at s = HasLock" "s' = (goto (loop_at s) (close_flush upd (wk s)) s)\<lparr>close_at := FlushDone\<rparr>"
  | upd now where "close_at s = FlushDone"
      "s' = (goto (loop_at s) (close_shut (shut upd now) (wk s)) (s\<lparr>events := events s @ [ShutdownCalled]\<rparr>))
        \<lparr>processorLock := False, close_at := Closed\<rparr>"
  | "close_at s = Closed" "s' = s\<lparr>close_at := GivenBack, events := events s @ [PartitionGivenBack]\<rparr>"
  using assms unfolding close_next_def
  by (cases "close_at s"; cases inp) (simp_all add: eq_commute [of _ s'] split: if_splits)

section \<open>What the operations leave alone\<close>

lemma goto_simps [simp]:
  "loop_at (goto pc pw s) = pc" "wk (goto pc pw s) = pw" "close_at (goto pc pw s) = close_at s"
  "processorLock (goto pc pw s) = processorLock s"
  "events (goto pc pw s) = events s @ new_commits (wk s) pw"
  by (simp_all add: goto_def)

lemma start_close_simps [simp]:
  "loop_at (start_close s) = loop_at s" "pw_shutdown (wk (start_close s))"
  "pw_closed (wk (start_close s)) = pw_closed (wk s)"
  "close_at (start_close s) = (if close_at s = Open then Flagged else close_at s)"
  "processorLock (start_close s) = processorLock s" "events (start_close s) = events s"
  by (simp_all add: start_close_def)

lemma leave_simps [simp]:
  "loop_at (leave s) = Left" "close_at (leave s) = close_at s" "processorLock (leave s) = processorLock s"
  "events (leave s) = events s" "pw_shutdown (wk (leave s)) = pw_shutdown (wk s)"
  by (simp_all add: leave_def)

text \<open>The flags and the position of the worker.\<close>

definition flags :: "'p PartitionConsumerWorker \<Rightarrow> bool \<times> bool \<times> int" where
  "flags pw = (pw_shutdown pw, pw_closed pw, NextFetchOffset pw)"

lemma flags_idle_flush: "flags (idle_flush ps gs pw) = flags pw"
  by (auto simp: flags_def idle_flush_def split: prod.splits)

lemma flags_end_fetch: "end_fetch upd now gs pw = (pc, pw') \<Longrightarrow> flags pw' = flags pw"
  using flags_idle_flush [of "at_pass upd now" gs pw] by (auto simp: end_fetch_def flags_def)

lemma flags_begin_process: "begin_process gs pw = (pc, pw') \<Longrightarrow> flags pw' = flags pw"
  by (auto simp: begin_process_def flags_def Let_def split: if_splits)

lemma flags_run_process [simp]: "flags (run_process process logs pw) = flags pw"
  by (simp add: run_process_def flags_def split: prod.splits)

lemma flags_flush_check [simp]: "flags (flush_check upd now pw) = flags pw"
  by (simp add: flush_check_def flags_def split: prod.splits)

lemma flags_close_flush [simp]: "flags (close_flush upd pw) = flags pw"
  by (simp add: close_flush_def flags_def split: prod.splits)

lemma flags_close_shut: "flags (close_shut shut pw) = (pw_shutdown pw, True, NextFetchOffset pw)"
  by (simp add: close_shut_def flags_def split: prod.splits)

lemma flags_begin_fetch: "begin_fetch ns pw = (pc, pw') \<Longrightarrow> flags pw' = flags pw"
  by (auto simp: begin_fetch_def flags_def Let_def split: if_splits)

lemma flags_end_pull: "end_pull i off r ends pw = (pc, pw') \<Longrightarrow> pw_shutdown pw' = pw_shutdown pw \<and> pw_closed pw' = pw_closed pw"
  by (auto simp: end_pull_def split: sum.splits option.splits if_splits)

lemma flags_accept: "pw_shutdown (accept_response r pw) = pw_shutdown pw" "pw_closed (accept_response r pw) = pw_closed pw"
  by (simp_all add: accept_response_def)

lemma flags_eqD: "flags pw' = flags pw \<Longrightarrow>
   pw_shutdown pw' = pw_shutdown pw \<and> pw_closed pw' = pw_closed pw \<and> NextFetchOffset pw' = NextFetchOffset pw"
  by (simp add: flags_def)

lemmas op_flags =
  flags_eqD [OF flags_end_fetch] flags_eqD [OF flags_begin_process] flags_eqD [OF flags_begin_fetch] flags_end_pull

lemmas op_flags_simps [simp] =
  flags_eqD [OF flags_run_process] flags_eqD [OF flags_flush_check] flags_eqD [OF flags_close_flush]
  flags_close_shut [unfolded flags_def prod.inject] flags_accept

section \<open>The events of a step\<close>

fun processed_in :: "event \<Rightarrow> Log ptr list" where
  "processed_in (Processed logs) = logs"
| "processed_in e = []"

definition processed :: "event list \<Rightarrow> Log ptr list" where
  "processed es = concat (map processed_in es)"

lemma processed_simps [simp]:
  "processed [] = []" "processed (es @ es') = processed es @ processed es'"
  "processed (e # es) = processed_in e @ processed es"
  by (simp_all add: processed_def)

lemma new_commits_only: "e \<in> set (new_commits pw pw') \<Longrightarrow> \<exists>c ok. e = Committed c ok"
  by (auto simp: new_commits_def)

lemma new_commits_not [simp]:
  "Pulled off \<notin> set (new_commits pw pw')" "Processed logs \<notin> set (new_commits pw pw')"
  "ShutdownCalled \<notin> set (new_commits pw pw')" "PartitionGivenBack \<notin> set (new_commits pw pw')"
  using new_commits_only by blast+

lemma processed_new_commits [simp]: "processed (new_commits pw pw') = []"
  by (auto simp: processed_def concat_eq_Nil_conv dest!: new_commits_only)

lemma count_new_commits [simp]: "count_list (new_commits pw pw') ShutdownCalled = 0"
  by (simp add: count_list_0_iff)

section \<open>Mutual exclusion\<close>

fun loop_locked :: "loop_pc \<Rightarrow> bool" where
  "loop_locked (Processing logs) = True"
| "loop_locked pc = False"

fun close_locked :: "close_pc \<Rightarrow> bool" where
  "close_locked HasLock = True"
| "close_locked FlushDone = True"
| "close_locked pc = False"

fun close_done :: "close_pc \<Rightarrow> bool" where
  "close_done Closed = True"
| "close_done GivenBack = True"
| "close_done pc = False"

definition race_inv :: "'p race \<Rightarrow> bool" where
  "race_inv s \<longleftrightarrow>
     (processorLock s \<longleftrightarrow> loop_locked (loop_at s) \<or> close_locked (close_at s)) \<and>
     \<not> (loop_locked (loop_at s) \<and> close_locked (close_at s)) \<and>
     (pw_shutdown (wk s) \<longleftrightarrow> close_at s \<noteq> Open) \<and> (pw_closed (wk s) \<longleftrightarrow> close_done (close_at s)) \<and>
     (loop_at s = CloseWait \<longrightarrow> close_at s \<noteq> Open) \<and>
     count_list (events s) ShutdownCalled = (if close_done (close_at s) then 1 else 0)"

text \<open>No step but those of the mutex enters or leaves it.\<close>

lemma loop_locked_ops:
  "begin_fetch ns pw = (pc, pw') \<Longrightarrow> \<not> loop_locked pc \<and> pc \<noteq> CloseWait"
  "end_pull i off r ends pw = (pc, pw') \<Longrightarrow> \<not> loop_locked pc \<and> pc \<noteq> CloseWait"
  "end_fetch upd now gs pw = (pc, pw') \<Longrightarrow> \<not> loop_locked pc \<and> pc \<noteq> CloseWait"
  "begin_process gs pw = (pc, pw') \<Longrightarrow> \<not> loop_locked pc \<and> pc \<noteq> CloseWait"
  by (auto simp: begin_fetch_def end_pull_def end_fetch_def begin_process_def Let_def
      split: if_splits sum.splits option.splits)

lemma race_inv_loop:
  assumes "loop_next process inp s = Some s'" and "race_inv s"
  shows "race_inv s'"
  using assms
proof (cases rule: loop_next_cases)
  case at_cancel
  with assms(2) show ?thesis by (auto simp: race_inv_def start_close_def pw_IsShutdown_def)
next
  case at_fetch
  with assms(2) show ?thesis by (auto simp: race_inv_def dest: op_flags loop_locked_ops)
next
  case at_answer
  with assms(2) show ?thesis by (auto simp: race_inv_def dest: op_flags loop_locked_ops)
next
  case at_idle
  with assms(2) show ?thesis by (auto simp: race_inv_def dest: op_flags loop_locked_ops)
next
  case at_process
  with assms(2) show ?thesis by (auto simp: race_inv_def dest: op_flags loop_locked_ops)
qed (auto simp: race_inv_def leave_def pw_IsShutdown_def)

lemma race_inv_close:
  assumes "close_next shut inp s = Some s'" and "race_inv s"
  shows "race_inv s'"
  using assms by (cases rule: close_next_cases) (auto simp: race_inv_def start_close_def)

lemma race_inv_start: "\<not> pw_shutdown pw \<Longrightarrow> \<not> pw_closed pw \<Longrightarrow> race_inv (race_start pw)"
  by (simp add: race_inv_def race_start_def)

lemma race_inv_reach:
  assumes "race_reach process shut net pw s" and "\<not> pw_shutdown pw" and "\<not> pw_closed pw"
  shows "race_inv s"
  using assms(1)
proof (induction rule: race_reach.induct)
  case race_init
  show ?case by (rule race_inv_start [OF assms(2,3)])
next
  case (race_next s s')
  from race_next(2) show ?case
    by cases (blast intro: race_inv_loop [OF _ race_next(3)] race_inv_close [OF _ race_next(3)])+
qed

text \<open>
  The user's processor is never called concurrently with its shutdown.  However the
  consuming goroutine and the one that closes the worker interleave, and whatever the service
  answers, \<open>Process\<close> does not run while the closing goroutine flushes the offset and calls
  \<open>Shutdown\<close>; \<open>Shutdown\<close> is called once, exactly when the worker is closed, and the worker is
  closed only after its shutdown flag is set.
\<close>

theorem close_excludes_process:
  assumes "race_reach process shut net pw s" and "\<not> pw_shutdown pw" and "\<not> pw_closed pw"
  shows "(\<nexists>logs. loop_at s = Processing logs \<and> close_at s \<in> {HasLock, FlushDone}) \<and>
    count_list (events s) ShutdownCalled = (if pw_closed (wk s) then 1 else 0) \<and>
    (pw_closed (wk s) \<longrightarrow> pw_shutdown (wk s))"
proof -
  have "race_inv s" by (rule race_inv_reach [OF assms])
  then show ?thesis by (cases "close_at s") (auto simp: race_inv_def)
qed

section \<open>After the flag\<close>

text \<open>The steps that a goroutine has left once the shutdown flag is set.\<close>

fun loop_left :: "loop_pc \<Rightarrow> nat" where
  "loop_left Left = 0"
| "loop_left CloseWait = 1"
| "loop_left LoopHead = 2"
| "loop_left Pausing = 3"
| "loop_left FlushPoint = 4"
| "loop_left (Processing logs) = 5"
| "loop_left (LockWait logs) = 6"
| "loop_left (ProcHead gs) = 5"
| "loop_left FetchHead = 5"
| "loop_left (PullHead i off) = 5"
| "loop_left (Taken gs) = 6"
| "loop_left (Got resp) = 7"
| "loop_left (Pulling i off) = 8"
| "loop_left (PullReady i off) = 9"

fun close_left :: "close_pc \<Rightarrow> nat" where
  "close_left Open = 5"
| "close_left Flagged = 4"
| "close_left HasLock = 3"
| "close_left FlushDone = 2"
| "close_left Closed = 1"
| "close_left GivenBack = 0"

definition steps_left :: "'p race \<Rightarrow> nat" where
  "steps_left s = loop_left (loop_at s) + close_left (close_at s)"

text \<open>
  What is done of the work, seen from outside, and what a goroutine has in hand: a pull or a
  batch that has passed its check of the flag.
\<close>

fun is_work :: "event \<Rightarrow> bool" where
  "is_work (Pulled off) = True"
| "is_work (Processed logs) = True"
| "is_work e = False"

definition work :: "event list \<Rightarrow> event list" where
  "work es = filter is_work es"

fun in_hand :: "loop_pc \<Rightarrow> event list" where
  "in_hand (PullReady i off) = [Pulled off]"
| "in_hand (LockWait logs) = [Processed logs]"
| "in_hand (Processing logs) = [Processed logs]"
| "in_hand pc = []"

lemma work_simps [simp]:
  "work [] = []" "work (es @ es') = work es @ work es'"
  "work (e # es) = (if is_work e then e # work es else work es)"
  by (simp_all add: work_def)

lemma work_new_commits [simp]: "work (new_commits pw pw') = []"
  by (auto simp: work_def filter_empty_conv dest!: new_commits_only)

lemma loop_left_ops:
  "begin_fetch ns pw = (pc, pw') \<Longrightarrow> pw_shutdown pw \<Longrightarrow> pc = FlushPoint"
  "end_pull i off r ends pw = (pc, pw') \<Longrightarrow> loop_left pc < 8 \<and> in_hand pc = []"
  "end_fetch upd now gs pw = (pc, pw') \<Longrightarrow> pc = ProcHead gs \<or> pc = FlushPoint"
  "begin_process gs pw = (pc, pw') \<Longrightarrow> pw_shutdown pw \<Longrightarrow> pc = FlushPoint"
  by (auto simp: begin_fetch_def end_pull_def end_fetch_def begin_process_def pw_IsShutdown_def Let_def
      split: if_splits sum.splits option.splits)

lemma loop_drains:
  assumes "loop_next process inp s = Some s'" and "race_inv s" and "pw_shutdown (wk s)"
  shows "steps_left s' < steps_left s \<and> pw_shutdown (wk s') \<and>
    (\<exists>es. events s' = events s @ es \<and> work es @ in_hand (loop_at s') = in_hand (loop_at s))"
  using assms
proof (cases rule: loop_next_cases)
  case at_cancel
  then show ?thesis using assms(3) by (auto simp: steps_left_def pw_IsShutdown_def)
next
  case at_fetch
  then show ?thesis using assms(3) loop_left_ops(1) [OF at_fetch(2)] by (auto simp: steps_left_def dest: op_flags)
next
  case (at_answer i off r ends pc pw)
  then show ?thesis using assms(3) loop_left_ops(2) [OF at_answer(3)] by (auto simp: steps_left_def dest: op_flags)
next
  case at_idle
  then show ?thesis using assms(3) loop_left_ops(3) [OF at_idle(2)] by (auto simp: steps_left_def dest: op_flags)
next
  case at_process
  then show ?thesis using assms(3) loop_left_ops(4) [OF at_process(2)] by (auto simp: steps_left_def dest: op_flags)
qed (use assms(2,3) in \<open>auto simp: steps_left_def pw_IsShutdown_def\<close>)

lemma close_drains:
  assumes "close_next shut inp s = Some s'" and "pw_shutdown (wk s)"
  shows "steps_left s' < steps_left s \<and> pw_shutdown (wk s') \<and> loop_at s' = loop_at s \<and>
    (\<exists>es. events s' = events s @ es \<and> work es = [])"
  using assms by (cases rule: close_next_cases) (auto simp: steps_left_def)

lemma step_drains:
  assumes "race_step process shut net s s'" and "race_inv s" and "pw_shutdown (wk s)"
  shows "steps_left s' < steps_left s \<and> race_inv s' \<and> pw_shutdown (wk s') \<and>
    (\<exists>es. events s' = events s @ es \<and> work es @ in_hand (loop_at s') = in_hand (loop_at s))"
  using assms(1)
proof cases
  case (by_loop inp)
  from loop_drains [OF by_loop(2) assms(2,3)] race_inv_loop [OF by_loop(2) assms(2)] show ?thesis by blast
next
  case (by_close inp)
  from close_drains [OF by_close assms(3)] race_inv_close [OF by_close assms(2)] show ?thesis by auto
qed

lemma steps_drain:
  assumes "(race_step process shut net ^^ n) s s'" and "race_inv s" and "pw_shutdown (wk s)"
  shows "n + steps_left s' \<le> steps_left s \<and> race_inv s' \<and> pw_shutdown (wk s') \<and>
    (\<exists>es. events s' = events s @ es \<and> work es @ in_hand (loop_at s') = in_hand (loop_at s))"
  using assms(1)
proof (induction n arbitrary: s')
  case 0
  with assms(2,3) show ?case by simp
next
  case (Suc n)
  then obtain u where u: "(race_step process shut net ^^ n) s u" "race_step process shut net u s'" by auto
  note IH = Suc.IH [OF u(1)]
  then have "race_inv u" "pw_shutdown (wk u)" by blast+
  note one = step_drains [OF u(2) this]
  obtain es where es: "events u = events s @ es" "work es @ in_hand (loop_at u) = in_hand (loop_at s)" using IH by blast
  obtain fs where fs: "events s' = events u @ fs" "work fs @ in_hand (loop_at s') = in_hand (loop_at u)" using one by blast
  have "events s' = events s @ es @ fs" and "work (es @ fs) @ in_hand (loop_at s') = in_hand (loop_at s)"
    using es fs by simp_all
  moreover have "Suc n + steps_left s' \<le> steps_left s" using IH one by linarith
  ultimately show ?case using one by blast
qed

text \<open>Someone can always move, until both are done.\<close>

lemma close_can_step:
  assumes "close_at s \<noteq> GivenBack" and "close_at s = Flagged \<longrightarrow> \<not> processorLock s"
  shows "\<exists>inp s'. close_next shut inp s = Some s'"
proof (cases "close_at s")
  case HasLock
  then show ?thesis by (intro exI [of _ "Commit (\<lambda>c. None) 0"]) (simp add: close_next_def)
next
  case FlushDone
  then show ?thesis by (intro exI [of _ "Commit (\<lambda>c. None) 0"]) (simp add: close_next_def)
qed (use assms in \<open>auto intro!: exI [of _ Go] simp: close_next_def\<close>)

lemma loop_can_step:
  assumes "loop_at s \<noteq> Left" and "\<forall>off. \<exists>r. net off r" and "close_done (close_at s) \<or> loop_locked (loop_at s)"
    and "race_inv s"
  shows "\<exists>inp s'. input_ok net (loop_at s) inp \<and> loop_next process inp s = Some s'"
proof (cases "loop_at s")
  case (Pulling i off)
  then obtain r where "net off r" using assms(2) by blast
  with Pulling show ?thesis
    by (intro exI [of _ "Answer r (Inr [])"]) (simp add: loop_next_def split: prod.splits)
next
  case FetchHead
  then show ?thesis by (intro exI [of _ "Clock 0"]) (simp add: loop_next_def split: prod.splits)
next
  case (Taken gs)
  then show ?thesis by (intro exI [of _ "Commit (\<lambda>c. None) 0"]) (simp add: loop_next_def split: prod.splits)
next
  case (Processing logs)
  then show ?thesis by (intro exI [of _ "Commit (\<lambda>c. None) 0"]) (simp add: loop_next_def)
next
  case FlushPoint
  then show ?thesis by (intro exI [of _ "Commit (\<lambda>c. None) 0"]) (simp add: loop_next_def)
qed (use assms in \<open>auto intro!: exI [of _ Go] simp: loop_next_def race_inv_def split: prod.splits
       elim!: close_done.elims\<close>)

text \<open>
  C12: closing always comes to an end.  From any reachable state in which the shutdown flag is
  set, the two goroutines together make at most 13 more steps, so neither waits for ever; if
  every pull is answered they only stop when the consuming goroutine has returned and the
  partition is given back.  On the way the consuming goroutine does exactly what it had in hand
  when the flag was set and nothing else: one pull or one batch that had passed its check of
  the flag but was not sent, or handed to \<open>Process\<close>, yet.
\<close>

theorem closing_terminates:
  assumes "race_reach process shut net pw s" and "\<not> pw_shutdown pw" and "\<not> pw_closed pw"
    and "pw_shutdown (wk s)" and "(race_step process shut net ^^ n) s s'" and "\<forall>off. \<exists>r. net off r"
  shows "n \<le> 13 \<and>
    (\<exists>es. events s' = events s @ es \<and> work es @ in_hand (loop_at s') = in_hand (loop_at s)) \<and>
    ((\<exists>t. race_step process shut net s' t) \<or> loop_at s' = Left \<and> close_at s' = GivenBack)"
proof (intro conjI)
  have inv: "race_inv s" by (rule race_inv_reach [OF assms(1-3)])
  note drain = steps_drain [OF assms(5) inv assms(4)]
  have "loop_left (loop_at s) \<le> 9" by (cases "loop_at s") simp_all
  moreover have "close_left (close_at s) \<le> 4" using inv assms(4) by (cases "close_at s") (auto simp: race_inv_def)
  moreover have "n + steps_left s' \<le> steps_left s" using drain by blast
  ultimately show "n \<le> 13" by (simp add: steps_left_def)
  show "\<exists>es. events s' = events s @ es \<and> work es @ in_hand (loop_at s') = in_hand (loop_at s)" using drain by blast
  have inv': "race_inv s'" using drain by blast
  show "(\<exists>t. race_step process shut net s' t) \<or> loop_at s' = Left \<and> close_at s' = GivenBack"
  proof (cases "close_at s' = GivenBack \<or> close_at s' = Flagged \<and> processorLock s'")
    case True
    then have "close_done (close_at s') \<or> loop_locked (loop_at s')" using inv' by (auto simp: race_inv_def)
    moreover have "close_at s' = GivenBack" if "loop_at s' = Left" using True inv' that by (auto simp: race_inv_def)
    ultimately show ?thesis using loop_can_step [OF _ assms(6) _ inv'] by_loop by metis
  next
    case False
    then show ?thesis using close_can_step [of s'] by_close by metis
  qed
qed

section \<open>What is processed and committed\<close>

text \<open>What a processor may do to the tracker while it runs, in any goroutine at any time.\<close>

locale racing_processor =
  fixes process :: "'p race_process" and shut :: "'p race_shut"
  assumes process_within: "within G t svc \<Longrightarrow> process upd now logs p t = (err, reqs, p', t') \<Longrightarrow>
      within G t' (service_after reqs svc)"
    and shut_within: "within G t svc \<Longrightarrow> shut upd now p t = (reqs, p', t') \<Longrightarrow>
      within G t' (service_after reqs svc)"

definition positioned :: "(int \<Rightarrow> bool) \<Rightarrow> int \<Rightarrow> 'p PartitionConsumerWorker \<Rightarrow> bool" where
  "positioned G svc pw \<longleftrightarrow> within G (tracker pw) (service_after (pw_commits pw) svc)"

lemma positioned_cong:
  "tracker pw' = tracker pw \<Longrightarrow> pw_commits pw' = pw_commits pw \<Longrightarrow> positioned G svc pw' = positioned G svc pw"
  by (simp add: positioned_def)

lemma positioned_flush_check: "positioned G svc pw \<Longrightarrow> positioned G svc (flush_check upd now pw)"
  using within_FlushCheck [of G "tracker pw" "service_after (pw_commits pw) svc" upd now]
  by (cases "FlushCheck upd now (tracker pw)") (simp add: positioned_def flush_check_def)

lemma positioned_close_flush: "positioned G svc pw \<Longrightarrow> positioned G svc (close_flush upd pw)"
  using within_FlushOffset [of G "tracker pw" "service_after (pw_commits pw) svc" upd True]
  by (simp add: positioned_def close_flush_def split: prod.splits)

lemma positioned_end_fetch:
  assumes "positioned G svc pw" and "end_fetch upd now gs pw = (pc, pw')"
  shows "positioned G svc pw'"
proof -
  let ?u = "idle_flush (at_pass upd now) gs pw"
  have "positioned G svc ?u"
    using idle_flush_tracker [OF refl, of "at_pass upd now" gs pw] assms(1)
      within_FlushOffset [of G "tracker pw" "service_after (pw_commits pw) svc"]
    by (auto simp: positioned_def)
  then show ?thesis using assms(2) by (auto simp: end_fetch_def positioned_def)
qed

context racing_processor begin

lemma positioned_run_process: "positioned G svc pw \<Longrightarrow> positioned G svc (run_process (process upd now) logs pw)"
  using process_within [of G "tracker pw" "service_after (pw_commits pw) svc" upd now logs "pw_processor pw"]
  by (simp add: positioned_def run_process_def split: prod.splits)

lemma positioned_close_shut: "positioned G svc pw \<Longrightarrow> positioned G svc (close_shut (shut upd now) pw)"
  using shut_within [of G "tracker pw" "service_after (pw_commits pw) svc" upd now "pw_processor pw"]
  by (simp add: positioned_def close_shut_def split: prod.splits)

end

text \<open>The batch that is taken but not processed yet.\<close>

fun pending :: "loop_pc \<Rightarrow> Log ptr list option" where
  "pending (Taken gs) = Some (concat (map GetLogs gs))"
| "pending (ProcHead gs) = Some (concat (map GetLogs gs))"
| "pending (LockWait logs) = Some logs"
| "pending (Processing logs) = Some logs"
| "pending pc = None"

text \<open>What the goroutine holds agrees with the offset it is at.\<close>

fun holds_at :: "(int \<Rightarrow> PullLogResponse) \<Rightarrow> int \<Rightarrow> loop_pc \<Rightarrow> bool" where
  "holds_at serve x (PullHead i off) = (off = x)"
| "holds_at serve x (PullReady i off) = (off = x)"
| "holds_at serve x (Pulling i off) = (off = x)"
| "holds_at serve x (Got resp) = (resp = serve x)"
| "holds_at serve x (Taken gs) = (None \<notin> set gs)"
| "holds_at serve x (ProcHead gs) = (None \<notin> set gs)"
| "holds_at serve x pc = True"

fun winding_down :: "loop_pc \<Rightarrow> bool" where
  "winding_down FlushPoint = True"
| "winding_down Pausing = True"
| "winding_down LoopHead = True"
| "winding_down CloseWait = True"
| "winding_down Left = True"
| "winding_down pc = False"

text \<open>Everything taken so far is processed but the pending batch, or the one dropped at the end.\<close>

definition caught_up_to :: "(int \<Rightarrow> PullLogResponse) \<Rightarrow> int \<Rightarrow> nat \<Rightarrow> 'p race \<Rightarrow> bool" where
  "caught_up_to serve off k s \<longleftrightarrow>
     (case pending (loop_at s) of
        Some logs \<Rightarrow> (\<exists>j. k = Suc j \<and> processed (events s) = chain_logs serve off j \<and>
          logs = logs_of (serve (offset_chain serve off j)))
      | None \<Rightarrow> processed (events s) = chain_logs serve off k \<or>
          pw_shutdown (wk s) \<and> winding_down (loop_at s) \<and>
          (\<exists>j. k = Suc j \<and> processed (events s) = chain_logs serve off j))"

definition race_at :: "(int \<Rightarrow> PullLogResponse) \<Rightarrow> int \<Rightarrow> int \<Rightarrow> nat \<Rightarrow> 'p race \<Rightarrow> bool" where
  "race_at serve off svc k s \<longleftrightarrow>
     positioned (reached serve off k) svc (wk s) \<and> NextFetchOffset (wk s) = offset_chain serve off k \<and>
     holds_at serve (offset_chain serve off k) (loop_at s) \<and> caught_up_to serve off k s"

text \<open>The pulls read a fixed partition, or fail in a way other than a bad offset.\<close>

definition net_reads :: "(int \<Rightarrow> PullLogResponse) \<Rightarrow> (int \<Rightarrow> string + PullLogResponse \<Rightarrow> bool) \<Rightarrow> bool" where
  "net_reads serve net \<longleftrightarrow> (\<forall>off r. net off r \<longrightarrow> r = Inr (serve off) \<or> (\<exists>e. r = Inl e \<and> transient e))"

lemma positioned_ops:
  "begin_fetch ns pw = (pc, pw') \<Longrightarrow> positioned G svc pw' = positioned G svc pw"
  "begin_process gs pw = (pc, pw') \<Longrightarrow> positioned G svc pw' = positioned G svc pw"
  by (auto simp: begin_fetch_def begin_process_def positioned_def Let_def split: if_splits)

lemma begin_fetch_pc:
  "begin_fetch ns pw = (pc, pw') \<Longrightarrow> pc = FlushPoint \<or> pc = PullHead 0 (NextFetchOffset pw)"
  by (auto simp: begin_fetch_def Let_def split: if_splits)

lemma end_pull_reads:
  assumes "end_pull i off r ends pw = (pc, pw')" and "net_reads serve net" and "net off r"
  shows "pw' = pw \<and> (pc = Got (serve off) \<or> pc = FlushPoint \<or> pc = PullHead (Suc i) off)"
proof -
  have "r = Inr (serve off) \<or> (\<exists>e. r = Inl e \<and> transient e)" using assms(2,3) by (simp add: net_reads_def)
  then show ?thesis using assms(1) by (auto simp: end_pull_def transient_def split: if_splits)
qed

lemma positioned_start_close [simp]: "positioned G svc (wk (start_close s)) = positioned G svc (wk s)"
  by (simp add: start_close_def positioned_def)

lemma positioned_leave [simp]: "positioned G svc (wk (leave s)) = positioned G svc (wk s)"
  by (simp add: leave_def positioned_def)

lemma next_offset_flags [simp]:
  "NextFetchOffset (wk (start_close s)) = NextFetchOffset (wk s)"
  "NextFetchOffset (wk (leave s)) = NextFetchOffset (wk s)"
  by (simp_all add: start_close_def leave_def)

text \<open>An answer moves on by one step of the chain.\<close>

lemma race_at_accept:
  assumes "race_at serve off svc k s" and "loop_at s = Got resp" and "\<forall>x. None \<notin> set (LogGroups (serve x))"
  shows "race_at serve off svc (Suc k) (goto (Taken (GetLogGroups resp)) (accept_response resp (wk s)) s)"
proof -
  have r: "resp = serve (offset_chain serve off k)" using assms(1,2) by (simp add: race_at_def)
  have "tracker (accept_response resp (wk s)) = accepted_tracker resp (tracker (wk s))"
    "pw_commits (accept_response resp (wk s)) = pw_commits (wk s)"
    by (simp_all add: accept_response_def accepted_tracker_def GetNextOffset_def)
  then have "positioned (reached serve off (Suc k)) svc (accept_response resp (wk s))"
    using within_accepted [where serve = serve and off = off and k = k and t = "tracker (wk s)", OF _ r] assms(1)
    by (simp add: race_at_def positioned_def)
  moreover have "NextFetchOffset (accept_response resp (wk s)) = offset_chain serve off (Suc k)"
    using assms(1) r unfolding offset_chain_Suc
    by (simp add: accept_response_def advance_def GetNextOffset_def race_at_def)
  moreover have "processed (events s) = chain_logs serve off k"
    using assms(1,2) by (simp add: race_at_def caught_up_to_def)
  ultimately show ?thesis
    using assms(3) r by (simp add: race_at_def caught_up_to_def GetLogGroups_def logs_of_def del: offset_chain.simps)
qed

lemmas race_at_simps = race_at_def caught_up_to_def pw_IsShutdown_def

context racing_processor begin

text \<open>Every other step stays where it is.\<close>

lemma race_at_stay:
  assumes "loop_next process inp s = Some s'" and "input_ok net (loop_at s) inp" and "net_reads serve net"
    and "race_at serve off svc k s" and "\<And>resp. loop_at s \<noteq> Got resp"
  shows "race_at serve off svc k s'"
  using assms(1)
proof (cases rule: loop_next_cases)
  case (at_fetch ns pc pw)
  with assms(4) begin_fetch_pc [OF at_fetch(2)] positioned_ops(1) [OF at_fetch(2)]
    flags_eqD [OF flags_begin_fetch [OF at_fetch(2)]] show ?thesis by (auto simp: race_at_simps)
next
  case (at_answer i x r ends pc pw)
  with assms(2) have "net x r" by simp
  from end_pull_reads [OF at_answer(3) assms(3) this] at_answer assms(4) show ?thesis
    by (auto simp: race_at_simps)
next
  case (at_idle gs upd now pc pw)
  have "positioned (reached serve off k) svc pw"
    using positioned_end_fetch [OF _ at_idle(2)] assms(4) by (simp add: race_at_def)
  with at_idle assms(4) flags_eqD [OF flags_end_fetch [OF at_idle(2)]] show ?thesis
    by (auto simp: race_at_simps end_fetch_def chain_logs_snoc simp del: offset_chain.simps)
next
  case (at_process gs pc pw)
  with assms(4) positioned_ops(2) [OF at_process(2)] flags_eqD [OF flags_begin_process [OF at_process(2)]] show ?thesis
    by (auto simp: race_at_simps begin_process_def Let_def simp del: offset_chain.simps split: if_splits)
next
  case (at_run logs upd now)
  with assms(4) positioned_run_process show ?thesis
    by (auto simp: race_at_simps chain_logs_snoc simp del: offset_chain.simps)
qed (use assms(4,5) positioned_flush_check in \<open>auto simp: race_at_simps\<close>)

lemma race_at_loop:
  assumes "loop_next process inp s = Some s'" and "input_ok net (loop_at s) inp" and "net_reads serve net"
    and "race_at serve off svc k s" and "\<forall>x. None \<notin> set (LogGroups (serve x))"
  shows "\<exists>k'. race_at serve off svc k' s'"
proof (cases "\<exists>resp. loop_at s = Got resp")
  case True
  then obtain resp where "loop_at s = Got resp" by blast
  moreover from this have "s' = goto (Taken (GetLogGroups resp)) (accept_response resp (wk s)) s"
    using assms(1) by (cases inp) (simp_all add: loop_next_def)
  ultimately show ?thesis using race_at_accept [OF assms(4) _ assms(5)] by blast
next
  case False
  then show ?thesis using race_at_stay [OF assms(1-4)] by blast
qed

lemma race_at_close:
  assumes "close_next shut inp s = Some s'" and "race_at serve off svc k s"
  shows "race_at serve off svc k s'"
  using assms(1)
  by (cases rule: close_next_cases)
    (use assms(2) positioned_close_flush positioned_close_shut in \<open>auto simp: race_at_simps split: option.splits\<close>)

end

interpretation racing_adaptor: racing_processor "\<lambda>upd now. adaptor_op upd now func" adaptor_shut
proof unfold_locales
  fix G t svc upd now logs p err reqs p' t'
  assume "within G t svc" and "adaptor_op upd now func logs p t = (err, reqs, p', t')"
  then show "within G t' (service_after reqs svc)"
    using Processor_SaveOffset_within
    by (auto simp: adaptor_op_def Adaptor_Process_def split: prod.splits user_result.splits)
next
  fix G t svc upd now p reqs p' t'
  assume "within G t svc" and "adaptor_shut upd now p t = (reqs, p', t')"
  then show "within G t' (service_after reqs svc)"
    using Processor_SaveOffset_within by (auto simp: adaptor_shut_def Processor_Shutdown_def)
qed

context racing_processor begin

lemma race_at_reach:
  assumes "race_reach process shut net pw s" and "net_reads serve net"
    and "\<forall>x. None \<notin> set (LogGroups (serve x))"
    and "positioned (reached serve off 0) svc pw" and "NextFetchOffset pw = off"
  shows "\<exists>k. race_at serve off svc k s"
  using assms(1)
proof (induction rule: race_reach.induct)
  case race_init
  have "race_at serve off svc 0 (race_start pw)"
    using assms(4,5) by (simp add: race_at_def race_start_def caught_up_to_def chain_logs_def positioned_def)
  then show ?case ..
next
  case (race_next s s')
  then obtain k where k: "race_at serve off svc k s" by blast
  from race_next(2) show ?case
  proof cases
    case (by_loop inp)
    from race_at_loop [OF by_loop(2,1) assms(2) k assms(3)] show ?thesis .
  next
    case (by_close inp)
    from race_at_close [OF by_close k] show ?thesis ..
  qed
qed

end

text \<open>A worker after its initialization.\<close>

lemma initialized_worker:
  assumes "pw = pw_initialize (Inr off) b init (NewPartitionConsumerWorker topic part name p ost sz oet st en q)"
    and "0 \<le> off"
  shows "positioned (reached serve off 0) off pw" and "NextFetchOffset pw = off"
    and "\<not> pw_shutdown pw" and "\<not> pw_closed pw"
  using assms(2)
  by (simp_all add: assms(1) pw_initialize_def NewPartitionConsumerWorker_def positioned_def within_def reached_def
      NewOffsetTracker_def SetPersistentOffset_def SetMemoryOffset_def)

text \<open>
  C10: logs are processed once and in order even while the worker is being closed.  With the
  SDK's adaptor and any interleaving of the two goroutines, the batches handed to the user's
  function are exactly what the partition serves along one chain of offsets from the start,
  without a gap or a repetition; only the last batch fetched may be missing, and it is missing
  only while it is being handed over or once the shutdown flag is set; and every offset that is
  committed belongs to the chain, at most that one batch ahead of what was processed.
\<close>

theorem race_gapless:
  assumes "race_reach (\<lambda>upd now. adaptor_op upd now func) adaptor_shut net pw s" and "net_reads serve net"
    and "\<forall>x. None \<notin> set (LogGroups (serve x))"
    and "pw = pw_initialize (Inr off) b init (NewPartitionConsumerWorker topic part name p ost sz oet st en q)"
    and "0 \<le> off"
  shows "\<exists>k. NextFetchOffset (wk s) = offset_chain serve off k \<and>
    (\<exists>j\<le>k. service_after (pw_commits (wk s)) off = offset_chain serve off j) \<and>
    (processed (events s) = chain_logs serve off k \<or>
     (\<exists>j. k = Suc j \<and> processed (events s) = chain_logs serve off j \<and>
        (pending (loop_at s) \<noteq> None \<or> pw_shutdown (wk s))))"
proof -
  note start = initialized_worker [OF assms(4,5)]
  obtain k where k: "race_at serve off off k s"
    using racing_adaptor.race_at_reach [OF assms(1-3) start(1,2)] by blast
  then show ?thesis
    by (intro exI [of _ k])
      (auto simp: race_at_def positioned_def within_def reached_def caught_up_to_def split: option.splits)
qed

section \<open>Closing undisturbed\<close>

text \<open>\<open>close\<close> is the sum of the closing steps.\<close>

fun close_steps :: "'p race_shut \<Rightarrow> input list \<Rightarrow> 'p race \<Rightarrow> 'p race option" where
  "close_steps shut [] s = Some s"
| "close_steps shut (inp # inps) s =
     (case close_next shut inp s of None \<Rightarrow> None | Some u \<Rightarrow> close_steps shut inps u)"

lemma close_is_its_steps:
  assumes "close_at s = Open" and "\<not> processorLock s" and "\<not> pw_closed (wk s)"
  shows "\<exists>s'. close_steps shut [Go, Go, Commit upd 0, Commit upd' now] s = Some s' \<and> close_at s' = Closed \<and>
    wk s' = pw_close upd (shut upd' now) (wk s) \<and> \<not> processorLock s'"
proof -
  obtain err reqs t where f: "FlushOffset upd True (tracker (wk s)) = (err, reqs, t)" by (metis prod_cases3)
  obtain reqs' p t' where h: "shut upd' now (pw_processor (wk s)) t = (reqs', p, t')" by (metis prod_cases3)
  show ?thesis
    using assms f h
    by (simp add: close_next_def start_close_def goto_def close_flush_def close_shut_def pw_close_def Let_def)
qed

section \<open>What closing does not stop\<close>

text \<open>A schedule: which goroutine moves, and what it reads.\<close>

datatype move = LoopMove input | CloseMove input

fun race_run ::
    "'p race_process \<Rightarrow> 'p race_shut \<Rightarrow> (int \<Rightarrow> string + PullLogResponse \<Rightarrow> bool) \<Rightarrow> move list \<Rightarrow> 'p race
     \<Rightarrow> 'p race option" where
  "race_run process shut net [] s = Some s"
| "race_run process shut net (m # ms) s =
     (case (case m of
          LoopMove inp \<Rightarrow> if input_ok net (loop_at s) inp then loop_next process inp s else None
        | CloseMove inp \<Rightarrow> close_next shut inp s) of
        None \<Rightarrow> None
      | Some u \<Rightarrow> race_run process shut net ms u)"

lemma race_run_steps:
  "race_run process shut net ms s = Some s' \<Longrightarrow> (race_step process shut net ^^ length ms) s s'"
proof (induction ms arbitrary: s)
  case (Cons m ms)
  then obtain u where u: "race_step process shut net s u" "race_run process shut net ms u = Some s'"
    by (auto split: move.splits option.splits if_splits intro: race_step.intros)
  from relpowp_Suc_I2 [OF u(1) Cons.IH [OF u(2)]] show ?case by simp
qed simp

lemma race_reach_steps:
  "(race_step process shut net ^^ n) s s' \<Longrightarrow> race_reach process shut net pw s \<Longrightarrow> race_reach process shut net pw s'"
  by (induction n arbitrary: s') (auto intro: race_next)

lemmas race_run_reach = race_reach_steps [OF race_run_steps race_init]

text \<open>A partition that serves two logs at 0, and a worker on it that starts at \<open>start\<close>.\<close>

definition ex_net :: "int \<Rightarrow> string + PullLogResponse \<Rightarrow> bool" where
  "ex_net off r \<longleftrightarrow> r = Inr (ex_serve off)"

definition ex_race :: "int \<Rightarrow> ProcessorBase PartitionConsumerWorker" where
  "ex_race start = pw_initialize (Inr start) (Inr 0) (\<lambda>i t p. p)
     (NewPartitionConsumerWorker ''t'' 0 ''c'' (NewProcessorBase 0) ''begin'' 10 [] 0 0 [])"

definition ex_close :: "move list" where
  "ex_close = [CloseMove Go, CloseMove Go, CloseMove (Commit (\<lambda>c. None) 0), CloseMove (Commit (\<lambda>c. None) 90),
     CloseMove Go]"

text \<open>The worker is closed while a pull is out; it is closed between the check of the flag and the mutex.\<close>

definition ex_late_commit :: "move list" where
  "ex_late_commit = [LoopMove Go, LoopMove (Clock 1000000000), LoopMove Go, LoopMove Go] @ ex_close @
     [LoopMove (Answer (Inr (ex_serve 0)) (Inr [])), LoopMove Go, LoopMove (Commit (\<lambda>c. None) 100), LoopMove Go,
      LoopMove (Commit (\<lambda>c. None) 100)]"

definition ex_late_process :: "move list" where
  "ex_late_process = [LoopMove Go, LoopMove (Clock 1000000000), LoopMove Go, LoopMove Go,
      LoopMove (Answer (Inr (ex_serve 0)) (Inr [])), LoopMove Go, LoopMove (Commit (\<lambda>c. None) 50), LoopMove Go] @
     ex_close @ [LoopMove Go, LoopMove (Commit (\<lambda>c. None) 100)]"

definition ex_events :: "(string \<Rightarrow> int \<Rightarrow> Log ptr list \<Rightarrow> user_result) \<Rightarrow> int \<Rightarrow> move list \<Rightarrow> event list option" where
  "ex_events func start ms = map_option events
     (race_run (\<lambda>upd now. adaptor_op upd now func) adaptor_shut ex_net ms (race_start (ex_race start)))"

definition commit_of :: "int \<Rightarrow> commit" where
  "commit_of off = [\<lparr>tpo_TopicID = ''t'', tpo_PartitionOffsets = [\<lparr>po_PartitionID = 0, po_Offset = off\<rparr>]\<rparr>]"

lemma ex_events_values:
  "ex_events func (-1) ex_late_commit =
     Some [Pulled 0, ShutdownCalled, PartitionGivenBack, Committed (commit_of 7) True]"
  "ex_events (\<lambda>t i logs. RetOther) 0 ex_late_process =
     Some [Pulled 0, Committed (commit_of 0) True, ShutdownCalled, Committed (commit_of 7) True,
       PartitionGivenBack, Processed [ex_entry 1, ex_entry 2]]"
  by code_simp+

lemma ex_events_reach:
  assumes "ex_events func start ms = Some es"
  obtains s where "race_reach (\<lambda>upd now. adaptor_op upd now func) adaptor_shut ex_net (ex_race start) s" "events s = es"
  using assms race_run_reach [of "\<lambda>upd now. adaptor_op upd now func" adaptor_shut ex_net ms "ex_race start"]
  by (auto simp: ex_events_def)

text \<open>
  C11: closing a worker does not stop it.  While a pull is out, the worker can be closed and
  its partition given back to the group; the answer then still moves the offset, and the next
  periodic flush commits it, although its logs were never handed to the user's function: the
  next owner starts behind them.  And a batch that had passed the check of the flag is handed
  to the user's function after \<open>Shutdown\<close> was called and the partition given back.
\<close>

theorem closing_does_not_stop:
  "(\<exists>s. race_reach (\<lambda>upd now. adaptor_op upd now func) adaptor_shut ex_net (ex_race (-1)) s \<and>
      events s = [Pulled 0, ShutdownCalled, PartitionGivenBack, Committed (commit_of 7) True]) \<and>
   (\<exists>s. race_reach (\<lambda>upd now. adaptor_op upd now (\<lambda>t i logs. RetOther)) adaptor_shut ex_net (ex_race 0) s \<and>
      events s = [Pulled 0, Committed (commit_of 0) True, ShutdownCalled, Committed (commit_of 7) True,
        PartitionGivenBack, Processed [ex_entry 1, ex_entry 2]]) \<and>
   logs_of (ex_serve 0) = [ex_entry 1, ex_entry 2] \<and> NextOffset (ex_serve 0) = 7"
proof (intro conjI)
  show "\<exists>s. race_reach (\<lambda>upd now. adaptor_op upd now func) adaptor_shut ex_net (ex_race (-1)) s \<and>
      events s = [Pulled 0, ShutdownCalled, PartitionGivenBack, Committed (commit_of 7) True]"
    using ex_events_reach [OF ex_events_values(1)] by metis
  show "\<exists>s. race_reach (\<lambda>upd now. adaptor_op upd now (\<lambda>t i logs. RetOther)) adaptor_shut ex_net (ex_race 0) s \<and>
      events s = [Pulled 0, Committed (commit_of 0) True, ShutdownCalled, Committed (commit_of 7) True,
        PartitionGivenBack, Processed [ex_entry 1, ex_entry 2]]"
    using ex_events_reach [OF ex_events_values(2)] by metis
qed (simp_all add: logs_of_def ex_serve_def ex_pulled_def GetLogs_def)

section \<open>The properties at work\<close>

lemma ex_net_reads: "net_reads ex_serve ex_net"
  by (simp add: net_reads_def ex_net_def)

theorem race_gapless_witness:
  "\<exists>s k. events s = [Pulled 0, Committed (commit_of 0) True, ShutdownCalled, Committed (commit_of 7) True,
       PartitionGivenBack, Processed [ex_entry 1, ex_entry 2]] \<and>
     NextFetchOffset (wk (s :: ProcessorBase race)) = offset_chain ex_serve 0 k"
proof -
  obtain s where s: "race_reach (\<lambda>upd now. adaptor_op upd now (\<lambda>t i logs. RetOther)) adaptor_shut ex_net (ex_race 0) s"
    "events s = [Pulled 0, Committed (commit_of 0) True, ShutdownCalled, Committed (commit_of 7) True,
       PartitionGivenBack, Processed [ex_entry 1, ex_entry 2]]"
    by (rule ex_events_reach [OF ex_events_values(2)])
  have groups: "\<forall>x. None \<notin> set (LogGroups (ex_serve x))" using ex_serve_groups by blast
  obtain k where "NextFetchOffset (wk s) = offset_chain ex_serve 0 k"
    using race_gapless [OF s(1) ex_net_reads groups ex_race_def order_refl] by blast
  with s(2) show ?thesis by blast
qed

text \<open>
  The flag is set right after it was checked: the pull is sent although the worker is closed and
  its partition given back.
\<close>

definition ex_checked :: "move list" where
  "ex_checked = [LoopMove Go, LoopMove (Clock 1000000000), LoopMove Go, CloseMove Go]"

definition ex_late_pull :: "move list" where
  "ex_late_pull = drop 1 ex_close @ [LoopMove Go, LoopMove (Answer (Inr (ex_serve 0)) (Inr []))]"

theorem closing_terminates_witness:
  "\<exists>s s' :: ProcessorBase race. pw_shutdown (wk s) \<and> events s = [] \<and> close_at s' = GivenBack \<and>
     (race_step (\<lambda>upd now. adaptor_op upd now (\<lambda>t i logs. RetOther)) adaptor_shut ex_net ^^ 6) s s' \<and>
     work (events s') = [Pulled 0]"
proof -
  let ?process = "\<lambda>upd now. adaptor_op upd now (\<lambda>t i logs. RetOther)"
  let ?run = "\<lambda>ms. race_run ?process adaptor_shut ex_net ms"
  have flagged: "case ?run ex_checked (race_start (ex_race (-1))) of None \<Rightarrow> False
    | Some s \<Rightarrow> pw_shutdown (wk s) \<and> loop_at s = PullReady 0 0 \<and> events s = [] \<and>
        (case ?run ex_late_pull s of None \<Rightarrow> False | Some s' \<Rightarrow> close_at s' = GivenBack \<and> loop_at s' = Got (ex_serve 0))"
    by code_simp
  then obtain s s' where s: "?run ex_checked (race_start (ex_race (-1))) = Some s"
    "pw_shutdown (wk s)" "loop_at s = PullReady 0 0" "events s = []" "?run ex_late_pull s = Some s'"
    "close_at s' = GivenBack" "loop_at s' = Got (ex_serve 0)"
    by (auto split: option.splits)
  have len: "length ex_late_pull = 6" by (simp add: ex_late_pull_def ex_close_def)
  have open_pw: "\<not> pw_shutdown (ex_race (-1))" "\<not> pw_closed (ex_race (-1))" by code_simp+
  have steps: "(race_step ?process adaptor_shut ex_net ^^ 6) s s'" using race_run_steps [OF s(5)] len by simp
  have "\<forall>off. \<exists>r. ex_net off r" by (simp add: ex_net_def)
  from closing_terminates [OF race_run_reach [OF s(1)] open_pw s(2) steps this] s(3,4,7)
  have "work (events s') = [Pulled 0]" by auto
  with s(2,4,6) steps show ?thesis by blast
qed

end
