(* ===== verification/Consumer_Pass.thy ===== *)
theory Consumer_Pass
  imports Consumer_Race
begin

text \<open>
  The steps of \<open>Consumer_Race\<close> and the pass of \<open>Partition_Worker\<close> are two models of the body of
  the loop of \<open>ConsumeWithContext\<close>.  Here the consuming goroutine is run alone on the inputs of
  one pass: at every step it gets the answer, the clock reading or the commit call that the
  pass has for it, and the shutdown flag is raised just before a check at which the pass finds
  it set; what the closing goroutine does after that is not part of the run.  Such a run has no
  choice left, and it does what the pass does.
\<close>

section \<open>The run of one pass\<close>

text \<open>The time filter of the pulls.\<close>

definition time_filter :: "'p PartitionConsumerWorker \<Rightarrow> int ptr \<times> int ptr" where
  "time_filter pw =
     (if 0 < pw_StartTime pw \<or> 0 < pw_EndTime pw then (Some (pw_StartTime pw), Some (pw_EndTime pw))
      else (None, None))"

text \<open>What the step at the present point reads from outside; attempt \<open>i\<close> gets the pass's answer to it.\<close>

definition pass_input :: "pass \<Rightarrow> 'p race \<Rightarrow> input" where
  "pass_input ps s =
     (case loop_at s of
        FetchHead \<Rightarrow> Clock (ps_now_ns ps)
      | Pulling i off \<Rightarrow>
          (case time_filter (wk s) of
             (st, en) \<Rightarrow> Answer (ps_pull ps i (pull_request (wk s) st en off)) (ps_ends ps))
      | Taken gs \<Rightarrow> Commit (ps_upd ps) (ps_now ps)
      | Processing logs \<Rightarrow> Commit (ps_upd ps) (ps_now ps)
      | FlushPoint \<Rightarrow> Commit (ps_upd ps) (ps_now ps)
      | _ \<Rightarrow> Go)"

text \<open>Which of the readings of the flag in a pass is made at a point.\<close>

fun flag_read :: "loop_pc \<Rightarrow> nat option" where
  "flag_read FetchHead = Some 0"
| "flag_read (PullHead i off) = Some (Suc i)"
| "flag_read (ProcHead gs) = Some 4"
| "flag_read pc = None"

text \<open>The closing goroutine sets the flag just before a reading that finds it set.\<close>

definition raise_flag :: "pass \<Rightarrow> 'p race \<Rightarrow> 'p race" where
  "raise_flag ps s =
     (case flag_read (loop_at s) of
        Some i \<Rightarrow> if ps_shutdown ps i then start_close s else s
      | None \<Rightarrow> s)"

definition pass_step :: "'p race_process \<Rightarrow> pass \<Rightarrow> 'p race \<Rightarrow> 'p race option" where
  "pass_step process ps s = loop_next process (pass_input ps s) (raise_flag ps s)"

text \<open>At most \<open>n\<close> steps, up to the pause at the end of the pass.\<close>

fun pass_steps :: "'p race_process \<Rightarrow> pass \<Rightarrow> nat \<Rightarrow> 'p race \<Rightarrow> 'p race option" where
  "pass_steps process ps 0 s = Some s"
| "pass_steps process ps (Suc n) s =
     (if loop_at s = Pausing then Some s
      else case pass_step process ps s of None \<Rightarrow> None | Some u \<Rightarrow> pass_steps process ps n u)"

lemma pass_steps_pausing: "loop_at s = Pausing \<Longrightarrow> pass_steps process ps n s = Some s"
  by (cases n) simp_all

lemma pass_steps_add:
  "pass_steps process ps m s = Some u \<Longrightarrow> pass_steps process ps (m + n) s = pass_steps process ps n u"
  by (induction m arbitrary: s) (auto simp: pass_steps_pausing split: if_splits option.splits)

lemma raise_flag_simps [simp]:
  "loop_at (raise_flag ps s) = loop_at s" "processorLock (raise_flag ps s) = processorLock s"
  "flag_read (loop_at s) = None \<Longrightarrow> raise_flag ps s = s"
  "flag_read (loop_at s) = Some i \<Longrightarrow> \<not> ps_shutdown ps i \<Longrightarrow> raise_flag ps s = s"
  "flag_read (loop_at s) = Some i \<Longrightarrow> ps_shutdown ps i \<Longrightarrow> raise_flag ps s = start_close s"
  by (auto simp: raise_flag_def split: option.splits)

lemma start_close_wk: "wk (start_close s) = (wk s)\<lparr>pw_shutdown := True\<rparr>"
  by (simp add: start_close_def)

text \<open>A step of the run is a step of the interleaving, after that of the closing goroutine if there is one.\<close>

lemma pass_step_reach:
  assumes "pass_step process ps s = Some s'" and "race_reach process shut (\<lambda>off r. True) pw s"
    and "\<not> pw_shutdown pw" and "\<not> pw_closed pw"
  shows "race_reach process shut (\<lambda>off r. True) pw s'"
proof -
  let ?reach = "race_reach process shut (\<lambda>off r. True) pw"
  have raised: "?reach (raise_flag ps s)"
  proof (cases "raise_flag ps s = s")
    case False
    then have up: "raise_flag ps s = start_close s" by (auto simp: raise_flag_def split: option.splits if_splits)
    have "pw_shutdown (wk s) \<longleftrightarrow> close_at s \<noteq> Open"
      using race_inv_reach [OF assms(2-4)] by (simp add: race_inv_def)
    moreover have "wk s = (wk s)\<lparr>pw_shutdown := True\<rparr> \<longleftrightarrow> pw_shutdown (wk s)"
      by (cases "wk s") simp
    ultimately have "close_at s = Open" using False up by (cases s) (auto simp: start_close_def)
    then have "close_next shut Go s = Some (start_close s)" by (simp add: close_next_def)
    with up race_next [OF assms(2) by_close] show ?thesis by metis
  qed (use assms(2) in simp)
  have "input_ok (\<lambda>off r. True) pc inp" for pc inp by (cases pc; cases inp) simp_all
  then show ?thesis using race_next [OF raised by_loop] assms(1) unfolding pass_step_def by blast
qed

lemma pass_steps_reach:
  assumes "pass_steps process ps n s = Some s'" and "race_reach process shut (\<lambda>off r. True) pw s"
    and "\<not> pw_shutdown pw" and "\<not> pw_closed pw"
  shows "race_reach process shut (\<lambda>off r. True) pw s'"
  using assms(1,2)
proof (induction n arbitrary: s)
  case (Suc n)
  then show ?case using pass_step_reach [OF _ _ assms(3,4)] by (auto split: if_splits option.splits)
qed simp

section \<open>Where the run gets to\<close>

text \<open>Within \<open>k\<close> steps the run from \<open>s\<close> is at \<open>pc\<close>, with the worker \<open>pw\<close> and a free mutex.\<close>

definition arrives ::
    "'p race_process \<Rightarrow> pass \<Rightarrow> 'p race \<Rightarrow> nat \<Rightarrow> loop_pc \<Rightarrow> 'p PartitionConsumerWorker \<Rightarrow> bool" where
  "arrives process ps s k pc pw \<longleftrightarrow>
     (\<exists>j\<le>k. \<exists>s'. pass_steps process ps j s = Some s' \<and> loop_at s' = pc \<and> wk s' = pw \<and> \<not> processorLock s')"

text \<open>It is at the flush, where the flag can be set if a reading of the pass finds it set.\<close>

definition flushes ::
    "'p race_process \<Rightarrow> pass \<Rightarrow> 'p race \<Rightarrow> nat \<Rightarrow> 'p PartitionConsumerWorker \<Rightarrow> bool" where
  "flushes process ps s k pw \<longleftrightarrow>
     (\<exists>b. (b \<longrightarrow> (\<exists>i. ps_shutdown ps i)) \<and> arrives process ps s k FlushPoint (pw\<lparr>pw_shutdown := b\<rparr>))"

lemma arrives_mono: "arrives process ps s j pc pw \<Longrightarrow> j \<le> k \<Longrightarrow> arrives process ps s k pc pw"
  unfolding arrives_def using order_trans by blast

lemma flushes_mono: "flushes process ps s j pw \<Longrightarrow> j \<le> k \<Longrightarrow> flushes process ps s k pw"
  unfolding flushes_def by (meson arrives_mono)

lemma arrives_steps:
  assumes "arrives process ps s k pc pw"
    and "\<And>u. loop_at u = pc \<Longrightarrow> wk u = pw \<Longrightarrow> \<not> processorLock u \<Longrightarrow>
      \<exists>u'. pass_steps process ps n u = Some u' \<and> loop_at u' = pc' \<and> wk u' = pw' \<and> \<not> processorLock u'"
  shows "arrives process ps s (k + n) pc' pw'"
proof -
  obtain j u where j: "j \<le> k" "pass_steps process ps j s = Some u" "loop_at u = pc" "wk u = pw" "\<not> processorLock u"
    using assms(1) unfolding arrives_def by blast
  from assms(2) [OF j(3-5)] obtain u' where u':
    "pass_steps process ps n u = Some u'" "loop_at u' = pc'" "wk u' = pw'" "\<not> processorLock u'" by blast
  have "pass_steps process ps (j + n) s = Some u'" using pass_steps_add [OF j(2)] u'(1) by simp
  with u' j(1) show ?thesis unfolding arrives_def by (intro exI [of _ "j + n"]) auto
qed

lemma arrives_step:
  assumes "arrives process ps s k pc pw" and "pc \<noteq> Pausing"
    and "\<And>u. loop_at u = pc \<Longrightarrow> wk u = pw \<Longrightarrow> \<not> processorLock u \<Longrightarrow>
      \<exists>u'. pass_step process ps u = Some u' \<and> loop_at u' = pc' \<and> wk u' = pw' \<and> \<not> processorLock u'"
  shows "arrives process ps s (Suc k) pc' pw'"
proof -
  have "arrives process ps s (k + 1) pc' pw'"
    by (rule arrives_steps [OF assms(1)]) (use assms(2,3) in fastforce)
  then show ?thesis by simp
qed

text \<open>A flag that is not raised stays down.\<close>

lemma down_self: "\<not> pw_shutdown pw \<Longrightarrow> pw\<lparr>pw_shutdown := False\<rparr> = pw"
  by (cases pw) simp

lemma flushes_down: "arrives process ps s k FlushPoint pw \<Longrightarrow> \<not> pw_shutdown pw \<Longrightarrow> flushes process ps s k pw"
  unfolding flushes_def by (rule exI [of _ False]) (simp add: down_self)

lemma flushes_raised:
  "arrives process ps s k FlushPoint (pw\<lparr>pw_shutdown := True\<rparr>) \<Longrightarrow> ps_shutdown ps i \<Longrightarrow> flushes process ps s k pw"
  unfolding flushes_def by (rule exI [of _ True]) auto

section \<open>Fetching\<close>

lemma time_filter_ops:
  "begin_fetch ns pw = (pc, pw') \<Longrightarrow> time_filter pw' = time_filter pw"
  "end_pull i off r ends pw = (pc, pw') \<Longrightarrow> time_filter pw' = time_filter pw"
  by (auto simp: begin_fetch_def end_pull_def time_filter_def Let_def
      split: if_splits sum.splits option.splits)

text \<open>The retry loop from attempt \<open>i\<close> on, with \<open>n\<close> attempts left.\<close>

lemma arrives_fetch_loop:
  assumes "arrives process ps s k (PullHead i off) pw" and "i + n = 3" and "0 < n" and "\<not> pw_shutdown pw"
    and "time_filter pw = (st, en)" and "fetch_loop ps st en n i off pw = (r, pw')"
  shows "\<not> pw_shutdown pw' \<and>
    (case r of None \<Rightarrow> flushes process ps s (k + 3 * n) pw'
     | Some resp \<Rightarrow> arrives process ps s (k + 3 * n) (Got resp) pw')"
  using assms
proof (induction n arbitrary: k i off pw)
  case (Suc n)
  show ?case
  proof (cases "ps_shutdown ps (Suc i)")
    case True
    have "arrives process ps s (Suc k) FlushPoint (pw\<lparr>pw_shutdown := True\<rparr>)"
      by (rule arrives_step [OF Suc.prems(1)])
        (use True in \<open>auto simp: pass_step_def pass_input_def loop_next_def pw_IsShutdown_def start_close_wk\<close>)
    then have "flushes process ps s (k + 3 * Suc n) pw"
      using flushes_mono flushes_raised [OF _ True] by (metis add.commute add_Suc_right le_add1 mult_Suc_right numeral_3_eq_3 plus_nat.simps(2))
    with True Suc.prems(4,6) show ?thesis by auto
  next
    case False
    let ?answer = "ps_pull ps i (pull_request pw st en off)"
    have "arrives process ps s (Suc k) (PullReady i off) pw"
      by (rule arrives_step [OF Suc.prems(1)])
        (use False Suc.prems(4) in \<open>auto simp: pass_step_def pass_input_def loop_next_def pw_IsShutdown_def\<close>)
    then have sent: "arrives process ps s (Suc (Suc k)) (Pulling i off) pw"
      by (rule arrives_step) (auto simp: pass_step_def pass_input_def loop_next_def)
    obtain pc u where e: "end_pull i off ?answer (ps_ends ps) pw = (pc, u)" by force
    have got: "arrives process ps s (k + 3) pc u"
    proof -
      have "arrives process ps s (Suc (Suc (Suc k))) pc u"
        by (rule arrives_step [OF sent])
          (use e Suc.prems(5) in \<open>auto simp: pass_step_def pass_input_def loop_next_def\<close>)
      then show ?thesis by (simp add: numeral_3_eq_3)
    qed
    have u: "\<not> pw_shutdown u" using flags_end_pull [OF e] Suc.prems(4) by simp
    have filter: "time_filter u = (st, en)" using time_filter_ops(2) [OF e] Suc.prems(5) by simp
    show ?thesis
    proof (cases "\<exists>x. pc = PullHead (Suc i) x")
      case True
      then obtain x where x: "pc = PullHead (Suc i) x" by blast
      with e False have loop: "fetch_loop ps st en n (Suc i) x u = (r, pw')"
        using Suc.prems(6) by (auto simp: end_pull_def split: sum.splits option.splits if_splits)
      have "0 < n"
        using e x Suc.prems(2) by (cases n) (auto simp: end_pull_def split: sum.splits option.splits if_splits)
      moreover have "k + 3 + 3 * n = k + 3 * Suc n" by simp
      ultimately show ?thesis
        using Suc.IH [OF got [unfolded x] _ _ u filter loop] Suc.prems(2) by (metis add_Suc_shift)
    next
      case no: False
      have "k + 3 \<le> k + 3 * Suc n" by simp
      with e Suc.prems(6) False got u no show ?thesis
        by (auto simp: end_pull_def intro: flushes_mono [OF flushes_down] arrives_mono
            split: sum.splits option.splits if_splits)
    qed
  qed
qed simp

lemma idle_flush_at_pass: "idle_flush (at_pass (ps_upd ps) (ps_now ps)) gs pw = idle_flush ps gs pw"
  by (simp add: idle_flush_def at_pass_def)

text \<open>What follows the fetch: the processing of what it returned, or the flush.\<close>

definition fetched ::
    "'p race_process \<Rightarrow> pass \<Rightarrow> 'p race \<Rightarrow> nat \<Rightarrow> LogGroup ptr list \<Rightarrow> 'p PartitionConsumerWorker \<Rightarrow> bool" where
  "fetched process ps s k gs pw \<longleftrightarrow> \<not> pw_shutdown pw \<and>
     (if 0 < length gs then arrives process ps s k (ProcHead gs) pw else flushes process ps s k pw)"

lemma arrives_end_fetch:
  assumes "arrives process ps s k (Got resp) pw" and "\<not> pw_shutdown pw" and "gs = GetLogGroups resp"
    and "pw' = (idle_flush ps gs (accept_response resp pw))\<lparr>LastFetchCount := int (length gs)\<rparr>"
  shows "fetched process ps s (k + 2) gs pw'"
proof -
  have taken: "arrives process ps s (Suc k) (Taken gs) (accept_response resp pw)"
    by (rule arrives_step [OF assms(1)]) (auto simp: pass_step_def pass_input_def loop_next_def assms(3))
  have e: "end_fetch (ps_upd ps) (ps_now ps) gs (accept_response resp pw) =
      (if 0 < length gs then ProcHead gs else FlushPoint, pw')"
    using assms(4) by (simp add: end_fetch_def idle_flush_at_pass)
  have "arrives process ps s (Suc (Suc k)) (if 0 < length gs then ProcHead gs else FlushPoint) pw'"
    by (rule arrives_step [OF taken]) (use e in \<open>auto simp: pass_step_def pass_input_def loop_next_def\<close>)
  moreover have "\<not> pw_shutdown pw'" using flags_eqD [OF flags_end_fetch [OF e]] assms(2) by simp
  ultimately show ?thesis unfolding fetched_def by (auto intro: flushes_down)
qed

lemma arrives_fetchData:
  assumes "arrives process ps s k FetchHead pw" and "\<not> pw_shutdown pw" and "fetchData ps pw = (gs, pw')"
  shows "fetched process ps s (k + 12) gs pw'"
proof (cases "ps_shutdown ps 0")
  case True
  obtain pc u where b: "begin_fetch (ps_now_ns ps) (pw\<lparr>pw_shutdown := True\<rparr>) = (pc, u)" by force
  then have pc: "pc = FlushPoint" "u = pw\<lparr>pw_shutdown := True\<rparr>"
    by (auto simp: begin_fetch_def pw_IsShutdown_def Let_def)
  have "arrives process ps s (Suc k) FlushPoint (pw\<lparr>pw_shutdown := True\<rparr>)"
    by (rule arrives_step [OF assms(1)])
      (use True b pc in \<open>auto simp: pass_step_def pass_input_def loop_next_def start_close_wk\<close>)
  then have "flushes process ps s (k + 12) pw" by (rule flushes_mono [OF flushes_raised [OF _ True]]) simp
  with True assms(2,3) show ?thesis by (auto simp: fetched_def fetchData_unfold Let_def)
next
  case False
  obtain pc u where b: "begin_fetch (ps_now_ns ps) pw = (pc, u)" by force
  have u: "\<not> pw_shutdown u" using flags_eqD [OF flags_begin_fetch [OF b]] assms(2) by simp
  have start: "arrives process ps s (Suc k) pc u"
    by (rule arrives_step [OF assms(1)]) (use False b in \<open>auto simp: pass_step_def pass_input_def loop_next_def\<close>)
  obtain st en where filter: "time_filter pw = (st, en)" by force
  define loop where "loop = fetch_loop ps st en 3 0 (NextFetchOffset pw) u"
  have filter': "(if 0 < pw_StartTime pw \<or> 0 < pw_EndTime pw then Some (pw_StartTime pw) else None) = st"
    "(if 0 < pw_StartTime pw \<or> 0 < pw_EndTime pw then Some (pw_EndTime pw) else None) = en"
    using filter by (auto simp: time_filter_def split: if_splits)
  consider "pc = FlushPoint" "gs = []" "pw' = u"
    | "pc = PullHead 0 (NextFetchOffset pw)" "fst loop = None" "gs = []" "pw' = snd loop"
    | resp where "pc = PullHead 0 (NextFetchOffset pw)" "fst loop = Some resp" "gs = GetLogGroups resp"
        "pw' = (idle_flush ps gs (accept_response resp (snd loop)))\<lparr>LastFetchCount := int (length gs)\<rparr>"
    using b assms(2,3) False unfolding fetchData_unfold begin_fetch_def Let_def filter'
    by (cases loop) (auto simp: loop_def pw_IsShutdown_def split: if_splits option.splits)
  then show ?thesis
  proof cases
    case 1
    with flushes_mono [OF flushes_down, of process ps s "Suc k" u "k + 12"] start u show ?thesis
      by (simp add: fetched_def)
  next
    case 2
    obtain w where l: "loop = (None, w)" using 2(2) by (cases loop) simp
    from arrives_fetch_loop [OF start [unfolded 2(1)] _ _ u time_filter_ops(1) [OF b, unfolded filter] l [unfolded loop_def]]
    have "\<not> pw_shutdown w" "flushes process ps s (Suc k + 3 * 3) w" by simp_all
    with l 2(3,4) show ?thesis by (auto simp: fetched_def intro: flushes_mono)
  next
    case (3 resp)
    obtain w where l: "loop = (Some resp, w)" using 3(2) by (cases loop) simp
    from arrives_fetch_loop [OF start [unfolded 3(1)] _ _ u time_filter_ops(1) [OF b, unfolded filter] l [unfolded loop_def]]
    have w: "\<not> pw_shutdown w" and got: "arrives process ps s (k + 10) (Got resp) w"
      by (simp_all add: add.commute)
    have "fetched process ps s (k + 10 + 2) gs pw'"
      by (rule arrives_end_fetch [OF got w 3(3)]) (use 3(4) l in simp)
    then show ?thesis by (simp add: add.commute)
  qed
qed

section \<open>Processing\<close>

lemma flag_after_run:
  "run_process process logs (pw\<lparr>pw_shutdown := b\<rparr>) = (run_process process logs pw)\<lparr>pw_shutdown := b\<rparr>"
  by (simp add: run_process_def split: prod.splits)

lemma flag_after_flush: "flush_check upd now (pw\<lparr>pw_shutdown := b\<rparr>) = (flush_check upd now pw)\<lparr>pw_shutdown := b\<rparr>"
  by (simp add: flush_check_def split: prod.splits)

lemma arrives_processData:
  assumes "fetched process ps s k gs pw" and "0 < length gs"
  shows "flushes process ps s (k + 3) (processData (ps_shutdown ps 4) (process (ps_upd ps) (ps_now ps)) gs pw)"
proof -
  have down: "\<not> pw_shutdown pw" and head: "arrives process ps s k (ProcHead gs) pw"
    using assms by (auto simp: fetched_def)
  let ?process = "process (ps_upd ps) (ps_now ps)"
  consider "ps_shutdown ps 4" | "\<not> ps_shutdown ps 4" "None \<in> set gs" | "\<not> ps_shutdown ps 4" "None \<notin> set gs" by blast
  then show ?thesis
  proof cases
    case 1
    have "arrives process ps s (Suc k) FlushPoint (pw\<lparr>pw_shutdown := True\<rparr>)"
      by (rule arrives_step [OF head])
        (use 1 in \<open>auto simp: pass_step_def pass_input_def loop_next_def begin_process_def pw_IsShutdown_def start_close_wk\<close>)
    then have "flushes process ps s (k + 3) pw" by (rule flushes_mono [OF flushes_raised [OF _ 1]]) simp
    with 1 show ?thesis by (simp add: processData_def)
  next
    case 2
    have "arrives process ps s (Suc k) FlushPoint pw"
      by (rule arrives_step [OF head])
        (use 2 in \<open>auto simp: pass_step_def pass_input_def loop_next_def begin_process_def\<close>)
    then have "flushes process ps s (k + 3) pw" by (rule flushes_mono [OF flushes_down]) (use down in simp_all)
    with 2 show ?thesis by (simp add: processData_def)
  next
    case 3
    let ?logs = "concat (map GetLogs gs)"
    obtain pc u where b: "begin_process gs pw = (pc, u)" by force
    have pc: "pc = LockWait ?logs"
      and pd: "processData (ps_shutdown ps 4) ?process gs pw = run_process ?process ?logs u"
      using b 3 down assms(2) by (auto simp: begin_process_def processData_def run_process_def pw_IsShutdown_def Let_def)
    have u: "\<not> pw_shutdown u" using flags_eqD [OF flags_begin_process [OF b]] down by simp
    have waits: "arrives process ps s (Suc k) (LockWait ?logs) u"
      by (rule arrives_step [OF head]) (use 3 b pc in \<open>auto simp: pass_step_def pass_input_def loop_next_def\<close>)
    have "arrives process ps s (Suc k + 2) FlushPoint (run_process ?process ?logs u)"
      by (rule arrives_steps [OF waits]) (simp add: pass_step_def pass_input_def loop_next_def numeral_2_eq_2)
    then have "flushes process ps s (k + 3) (run_process ?process ?logs u)"
      by (intro flushes_down) (use u in \<open>simp_all add: numeral_2_eq_2 numeral_3_eq_3\<close>)
    then show ?thesis unfolding pd .
  qed
qed

section \<open>The whole pass\<close>

text \<open>
  C33: the steps make exactly the pass.  Run alone from the head of its loop on the inputs of
  a pass, the consuming goroutine is at the pause after at most 17 steps, and the worker is
  what the pass of \<open>Partition_Worker\<close> leaves, up to the shutdown flag: for any answers to the
  pulls of the three attempts, throttling, recovery of an invalid offset and damaged answers
  included, and wherever in the pass the flag is found set, if it is.  The run makes no
  choice, and its steps are steps of the interleavings of \<open>Consumer_Race\<close>.
\<close>

theorem pass_is_its_steps:
  assumes "loop_at s = LoopHead" and "\<not> processorLock s" and "\<not> pw_shutdown (wk s)" and "17 \<le> n"
  shows "\<exists>s'. pass_steps process ps n s = Some s' \<and> loop_at s' = Pausing \<and> \<not> processorLock s' \<and>
    wk s' = (consume_pass (process (ps_upd ps) (ps_now ps)) ps (wk s))\<lparr>pw_shutdown := pw_shutdown (wk s')\<rparr> \<and>
    (pw_shutdown (wk s') \<longrightarrow> (\<exists>i. ps_shutdown ps i)) \<and>
    (\<forall>shut pw. \<not> pw_shutdown pw \<and> \<not> pw_closed pw \<and> race_reach process shut (\<lambda>off r. True) pw s \<longrightarrow>
       race_reach process shut (\<lambda>off r. True) pw s')"
proof -
  let ?process = "process (ps_upd ps) (ps_now ps)"
  have "arrives process ps s 0 LoopHead (wk s)" using assms(1,2) by (auto simp: arrives_def)
  then have head: "arrives process ps s (Suc 0) FetchHead (wk s)"
    by (rule arrives_step) (use assms(3) in \<open>auto simp: pass_step_def pass_input_def loop_next_def pw_IsShutdown_def\<close>)
  obtain gs pw where f: "fetchData ps (wk s) = (gs, pw)" by force
  note fetched = arrives_fetchData [OF head assms(3) f]
  let ?pw = "if 0 < length gs then processData (ps_shutdown ps 4) ?process gs pw else pw"
  have "flushes process ps s (Suc 0 + 12 + 3) ?pw"
  proof (cases "0 < length gs")
    case True
    with arrives_processData [OF fetched] show ?thesis by simp
  next
    case False
    with fetched have "flushes process ps s (Suc 0 + 12) pw" by (simp add: fetched_def)
    with False show ?thesis by (auto intro: flushes_mono)
  qed
  then obtain b where b: "b \<longrightarrow> (\<exists>i. ps_shutdown ps i)"
    "arrives process ps s (Suc 0 + 12 + 3) FlushPoint (?pw\<lparr>pw_shutdown := b\<rparr>)"
    unfolding flushes_def by blast
  have pass: "consume_pass ?process ps (wk s) = flush_check (ps_upd ps) (ps_now ps) ?pw"
    by (simp add: consume_pass_def flush_check_def f Let_def)
  have "arrives process ps s (Suc (Suc 0 + 12 + 3)) Pausing ((consume_pass ?process ps (wk s))\<lparr>pw_shutdown := b\<rparr>)"
    by (rule arrives_step [OF b(2)])
      (simp_all add: pass_step_def pass_input_def loop_next_def pass flag_after_flush)
  then obtain j s' where j: "j \<le> 17" "pass_steps process ps j s = Some s'" "loop_at s' = Pausing" "\<not> processorLock s'"
    "wk s' = (consume_pass ?process ps (wk s))\<lparr>pw_shutdown := b\<rparr>"
    by (auto simp: arrives_def)
  have "pass_steps process ps (j + (n - j)) s = Some s'"
    using pass_steps_add [OF j(2)] pass_steps_pausing [OF j(3)] by metis
  then have run: "pass_steps process ps n s = Some s'" using j(1) assms(4) by simp
  with j b(1) pass_steps_reach [OF run] show ?thesis by auto
qed

text \<open>A pass whose first attempt fails, alone, and the same pass with the flag set before the second.\<close>

definition ex_retried :: "(nat \<Rightarrow> bool) \<Rightarrow> ProcessorBase race option" where
  "ex_retried shutdown = pass_steps (\<lambda>upd now. adaptor_op upd now (\<lambda>t i logs. RetOther))
     ((ex_pass 1)\<lparr>ps_shutdown := shutdown\<rparr>) 17 (race_start (ex_race 0))"

theorem pass_is_its_steps_witness:
  "(\<exists>s. ex_retried (\<lambda>i. False) = Some s \<and> loop_at s = Pausing \<and> NextFetchOffset (wk s) = 7) \<and>
   (\<exists>s. ex_retried (\<lambda>i. i = 2) = Some s \<and> loop_at s = Pausing \<and> NextFetchOffset (wk s) = 0)"
proof -
  let ?process = "\<lambda>upd now. adaptor_op upd now (\<lambda>t i logs. RetOther)"
  let ?s = "race_start (ex_race 0)"
  have start: "loop_at ?s = LoopHead" "\<not> processorLock ?s" "\<not> pw_shutdown (wk ?s)"
    by (simp_all add: race_start_def ex_race_def pw_initialize_def NewPartitionConsumerWorker_def)
  have off: "NextFetchOffset (consume_pass (?process (\<lambda>c. None) 1) ((ex_pass 1)\<lparr>ps_shutdown := \<lambda>i. False\<rparr>) (wk ?s)) = 7"
    "NextFetchOffset (consume_pass (?process (\<lambda>c. None) 1) ((ex_pass 1)\<lparr>ps_shutdown := \<lambda>i. i = 2\<rparr>) (wk ?s)) = 0"
    by code_simp+
  have "\<exists>s. ex_retried shutdown = Some s \<and> loop_at s = Pausing \<and> NextFetchOffset (wk s) =
      NextFetchOffset (consume_pass (?process (\<lambda>c. None) 1) ((ex_pass 1)\<lparr>ps_shutdown := shutdown\<rparr>) (wk ?s))" for shutdown
  proof -
    have inputs: "ps_upd ((ex_pass 1)\<lparr>ps_shutdown := shutdown\<rparr>) = (\<lambda>c. None)"
      "ps_now ((ex_pass 1)\<lparr>ps_shutdown := shutdown\<rparr>) = 1" by (simp_all add: ex_pass_def)
    have offset: "NextFetchOffset (pw\<lparr>pw_shutdown := b\<rparr>) = NextFetchOffset pw"
      for pw :: "ProcessorBase PartitionConsumerWorker" and b by simp
    from pass_is_its_steps [OF start order_refl, of ?process "(ex_pass 1)\<lparr>ps_shutdown := shutdown\<rparr>"]
    show ?thesis unfolding ex_retried_def inputs using offset by metis
  qed
  from this [of "\<lambda>i. False"] this [of "\<lambda>i. i = 2"] show ?thesis unfolding off by blast
qed

end
