(* ===== verification/Heartbeat_Run.thy ===== *)
theory Heartbeat_Run
  imports Heartbeat_Worker
begin

text \<open>
  The heartbeat loop (\<open>run\<close> of \<^verbatim>\<open>consumer/heartbeat_worker.go\<close>) over a whole run: many
  heartbeats, with the main loop giving partitions up and the shutdown coming at any moment in
  between, also while a request is out.
\<close>

section \<open>The loop\<close>

text \<open>What other goroutines do to the worker.\<close>

datatype hb_action = GiveUp string int | StopHeartbeats

fun hb_do :: "hb_action \<Rightarrow> HeartbeatWorker \<Rightarrow> HeartbeatWorker" where
  "hb_do (GiveUp topicID partitionID) hw = RemoveHeartPartition topicID partitionID hw"
| "hb_do StopHeartbeats hw = hb_Shutdown hw"

text \<open>
  What one iteration meets: whether the context is cancelled at its head, the order the merge
  takes, the answer to the request, the actions while it is out and until the next iteration,
  the two readings of the clock, and whether a signal ends the wait.
\<close>

record hb_tick =
  tk_done :: bool
  tk_order :: map_order
  tk_answer :: "PartitionInfo list \<Rightarrow> PartitionInfo list option"
  tk_during :: "hb_action list"
  tk_now :: int
  tk_success :: int
  tk_between :: "hb_action list"
  tk_signal :: bool

text \<open>The answers so far, each with the two clock readings, newest first.\<close>

type_synonym hb_history = "(PartitionInfo list option \<times> int \<times> int) list"

fun hb_run ::
    "ConsumerOption \<Rightarrow> hb_tick list \<Rightarrow> HeartbeatWorker \<times> hb_history \<Rightarrow> HeartbeatWorker \<times> hb_history" where
  "hb_run opt [] st = st"
| "hb_run opt (k # ks) (hw, hist) =
     (if hb_IsShutdown hw \<or> tk_done k then (hw, hist)
      else
        let answer = tk_answer k (buildHeartbeatPartitions opt hw);
            hw1 = hb_round (tk_order k) opt (tk_answer k) (\<lambda>h. fold hb_do (tk_during k) h)
              (tk_now k) (tk_success k) hw;
            st = (fold hb_do (tk_between k) hw1, (answer, tk_now k, tk_success k) # hist)
        in if tk_signal k then st else hb_run opt ks st)"

text \<open>
  \<open>Run\<close> with a context, which tells for each iteration whether it is cancelled by then, or with
  nil; \<open>Start\<close> takes the context that never is.
\<close>

definition Background :: "nat \<Rightarrow> bool" where
  "Background i \<longleftrightarrow> False"

definition hb_Run ::
    "ConsumerOption \<Rightarrow> (nat \<Rightarrow> bool) ptr \<Rightarrow> hb_tick list \<Rightarrow> HeartbeatWorker \<times> hb_history
     \<Rightarrow> HeartbeatWorker \<times> hb_history" where
  "hb_Run opt ctx ks =
     (let done = (case ctx of None \<Rightarrow> Background | Some c \<Rightarrow> c)
      in hb_run opt (map (\<lambda>(i, k). k\<lparr>tk_done := done i\<rparr>) (enumerate 0 ks)))"

definition hb_Start ::
    "ConsumerOption \<Rightarrow> hb_tick list \<Rightarrow> HeartbeatWorker \<times> hb_history \<Rightarrow> HeartbeatWorker \<times> hb_history" where
  "hb_Start opt ks = hb_Run opt (Some Background) ks"

section \<open>What the worker may hold\<close>

text \<open>The last assignment the service answered, and when the last success was noted.\<close>

fun last_assigned :: "hb_history \<Rightarrow> PartitionInfo list" where
  "last_assigned [] = []"
| "last_assigned ((Some ps, t, u) # hist) = ps"
| "last_assigned ((None, t, u) # hist) = last_assigned hist"

fun last_success :: "int \<Rightarrow> hb_history \<Rightarrow> int" where
  "last_success t0 [] = t0"
| "last_success t0 ((Some ps, t, u) # hist) = u"
| "last_success t0 ((None, t, u) # hist) = last_success t0 hist"

fun given_up :: "ConsumerOption \<Rightarrow> int \<Rightarrow> hb_history \<Rightarrow> bool" where
  "given_up opt t0 [] = True"
| "given_up opt t0 ((Some ps, t, u) # hist) = False"
| "given_up opt t0 ((None, t, u) # hist) \<longleftrightarrow>
     given_up opt t0 hist \<or>
     int64 (co_ConsumerGroupTimeout opt + co_HeartbeatInterval opt) < int64 (t - last_success t0 hist)"

definition run_inv :: "ConsumerOption \<Rightarrow> int \<Rightarrow> HeartbeatWorker \<times> hb_history \<Rightarrow> bool" where
  "run_inv opt t0 st \<longleftrightarrow> hb_inv (fst st) \<and> LastHeartbeatSuccessTime (fst st) = last_success t0 (snd st) \<and>
     (\<forall>t p. holds (HeldPartitions (fst st)) t p \<longrightarrow>
        holds (last_assigned (snd st)) t p \<and> \<not> given_up opt t0 (snd st))"

definition tick_ok :: "hb_tick \<Rightarrow> bool" where
  "tick_ok k \<longleftrightarrow> order_ok (tk_order k) \<and> (\<forall>req ps. tk_answer k req = Some ps \<longrightarrow> wf_parts ps)"

text \<open>Other goroutines only take partitions away.\<close>

lemma hb_do_shrinks:
  assumes "hb_inv hw"
  shows "hb_inv (hb_do a hw) \<and> LastHeartbeatSuccessTime (hb_do a hw) = LastHeartbeatSuccessTime hw \<and>
    (holds (HeldPartitions (hb_do a hw)) t p \<longrightarrow> holds (HeldPartitions hw) t p)"
  using assms
  by (cases a) (auto simp: RemoveHeartPartition_def hb_inv_def holds_remove wf_remove hb_Shutdown_def)

lemma hb_do_all_shrinks:
  "hb_inv hw \<Longrightarrow> hb_inv (fold hb_do as hw) \<and>
    LastHeartbeatSuccessTime (fold hb_do as hw) = LastHeartbeatSuccessTime hw \<and>
    (holds (HeldPartitions (fold hb_do as hw)) t p \<longrightarrow> holds (HeldPartitions hw) t p)"
proof (induction as arbitrary: hw)
  case (Cons a as)
  from Cons.IH [of "hb_do a hw"] hb_do_shrinks [OF Cons.prems] show ?case by auto
qed simp

lemma run_inv_actions: "run_inv opt t0 (hw, hist) \<Longrightarrow> run_inv opt t0 (fold hb_do as hw, hist)"
  using hb_do_all_shrinks [of hw as] by (auto simp: run_inv_def)

lemma run_inv_round:
  assumes "run_inv opt t0 (hw, hist)" and "tick_ok k" and "distinct (co_TopicIDs opt)" and "\<not> hb_IsShutdown hw"
  shows "run_inv opt t0 (hb_round (tk_order k) opt (tk_answer k) (\<lambda>h. fold hb_do (tk_during k) h)
      (tk_now k) (tk_success k) hw,
    (tk_answer k (buildHeartbeatPartitions opt hw), tk_now k, tk_success k) # hist)"
proof -
  let ?resp = "tk_answer k (buildHeartbeatPartitions opt hw)" and ?hw = "fold hb_do (tk_during k) hw"
  note pre = run_inv_actions [OF assms(1), of "tk_during k"]
  then have inv: "hb_inv ?hw" and last: "LastHeartbeatSuccessTime ?hw = last_success t0 hist"
    and held: "\<And>t p. holds (HeldPartitions ?hw) t p \<Longrightarrow> holds (last_assigned hist) t p \<and> \<not> given_up opt t0 hist"
    by (auto simp: run_inv_def)
  have wf: "wf_parts ps" if "?resp = Some ps" for ps using assms(2) that by (auto simp: tick_ok_def)
  obtain ok hw' where a: "apply_heartbeat (tk_order k) opt (tk_now k) ?resp ?hw = (ok, hw')" by force
  have ord: "order_ok (tk_order k)" using assms(2) by (simp add: tick_ok_def)
  note facts = heartbeat_view [OF inv ord assms(3) wf a]
  have lst: "LastHeartbeatSuccessTime hw' = LastHeartbeatSuccessTime ?hw"
    using a by (auto simp: apply_heartbeat_def split: option.splits if_splits)
  have round: "hb_round (tk_order k) opt (tk_answer k) (\<lambda>h. fold hb_do (tk_during k) h) (tk_now k) (tk_success k) hw =
      (if ok then hw'\<lparr>LastHeartbeatSuccessTime := tk_success k\<rparr> else hw')"
    using a assms(4) by (simp add: hb_round_def sendHeartbeat_def hb_IsShutdown_def)
  show ?thesis
  proof (cases ?resp)
    case (Some ps)
    with facts round show ?thesis by (auto simp: run_inv_def hb_inv_def)
  next
    case None
    with facts round lst last held show ?thesis
      by (auto simp: run_inv_def lost_contact_def)
  qed
qed

lemma run_inv_run:
  assumes "run_inv opt t0 st" and "\<forall>k\<in>set ticks. tick_ok k" and "distinct (co_TopicIDs opt)"
  shows "run_inv opt t0 (hb_run opt ticks st) \<and>
    length (snd (hb_run opt ticks st)) \<le> length (snd st) + length ticks"
  using assms
proof (induction opt ticks st rule: hb_run.induct)
  case (2 opt k ks hw hist)
  show ?case
  proof (cases "hb_IsShutdown hw \<or> tk_done k")
    case True
    with 2(2) show ?thesis by simp
  next
    case False
    let ?hw = "fold hb_do (tk_between k) (hb_round (tk_order k) opt (tk_answer k)
        (\<lambda>h. fold hb_do (tk_during k) h) (tk_now k) (tk_success k) hw)"
    let ?hist = "(tk_answer k (buildHeartbeatPartitions opt hw), tk_now k, tk_success k) # hist"
    have "tick_ok k" using 2(3) by simp
    then have "run_inv opt t0 (?hw, ?hist)"
      using run_inv_actions run_inv_round [OF 2(2)] False 2(4) by blast
    with 2(1) [OF False refl refl refl] 2(3,4) False show ?thesis by (auto simp: Let_def)
  qed
qed simp

text \<open>
  C13: a consumer never works on a partition it may have lost.  Over any run of the heartbeat
  loop, with any answers, clocks and merge orders, and with partitions given up or the shutdown
  at any moment, what it holds is always part of the last assignment the service answered, and
  it holds nothing at all once a heartbeat has failed later than the group timeout plus the
  interval after the last success, until the service assigns something again; and it sends at
  most one heartbeat per iteration.
\<close>

theorem heartbeat_run_safe:
  assumes "\<forall>k\<in>set ticks. tick_ok k" and "distinct (co_TopicIDs opt)"
    and "hb_run opt ticks (NewHeartbeatWorker opt t0, []) = (hw, hist)"
  shows "hb_inv hw \<and> length hist \<le> length ticks \<and>
    (holds (HeldPartitions hw) t p \<longrightarrow> holds (last_assigned hist) t p \<and> \<not> given_up opt t0 hist)"
proof -
  have new: "wf_parts (map (\<lambda>t. \<lparr>pi_TopicID = t, pi_Partitions = []\<rparr>) (co_TopicIDs opt))"
    "\<not> holds (map (\<lambda>t. \<lparr>pi_TopicID = t, pi_Partitions = []\<rparr>) (co_TopicIDs opt)) t p" for t p
    using wf_emptyPartitions [OF assms(2)] holds_emptyPartitions [of opt t p]
    by (simp_all add: emptyPartitions_def)
  then have "run_inv opt t0 (NewHeartbeatWorker opt t0, [])"
    by (simp add: run_inv_def NewHeartbeatWorker_def hb_inv_def)
  from run_inv_run [OF this assms(1,2)] assms(3) show ?thesis by (simp add: run_inv_def)
qed

definition ex_tick :: "int \<Rightarrow> PartitionInfo list option \<Rightarrow> hb_tick" where
  "ex_tick now resp = \<lparr>tk_done = False, tk_order = rev, tk_answer = \<lambda>req. resp, tk_during = [],
     tk_now = now, tk_success = now, tk_between = [], tk_signal = False\<rparr>"

text \<open>An assignment at 20 s, and no answer at 200 s, which is later than 20 + 60 + 20.\<close>

definition ex_ticks :: "hb_tick list" where
  "ex_ticks = [ex_tick 20 (Some [\<lparr>pi_TopicID = ''t'', pi_Partitions = [1, 2]\<rparr>]), ex_tick 200 None]"

theorem heartbeat_run_safe_witness:
  "\<not> holds (HeldPartitions (fst (hb_run ex_option ex_ticks (NewHeartbeatWorker ex_option 0, [])))) ''t'' 1 \<and>
   holds (HeldPartitions (fst (hb_run ex_option (take 1 ex_ticks) (NewHeartbeatWorker ex_option 0, [])))) ''t'' 1"
proof
  obtain hw hist where r: "hb_run ex_option ex_ticks (NewHeartbeatWorker ex_option 0, []) = (hw, hist)" by force
  have ok: "\<forall>k\<in>set ex_ticks. tick_ok k"
    by (simp add: ex_ticks_def ex_tick_def tick_ok_def order_ok_def wf_parts_def)
  have "given_up ex_option 0 (snd (hb_run ex_option ex_ticks (NewHeartbeatWorker ex_option 0, [])))"
    by code_simp
  then show "\<not> holds (HeldPartitions (fst (hb_run ex_option ex_ticks (NewHeartbeatWorker ex_option 0, [])))) ''t'' 1"
    using heartbeat_run_safe [OF ok _ r, of "''t''" 1] r by (simp add: ex_option_def)
  show "holds (HeldPartitions (fst (hb_run ex_option (take 1 ex_ticks) (NewHeartbeatWorker ex_option 0, [])))) ''t'' 1"
    by code_simp
qed

end
