(* ===== verification/Consumer_Group.thy ===== *)
theory Consumer_Group
  imports Consumer_Ownership
begin

text \<open>
  The main loop and the heartbeat of a consumer together: how a partition that the group takes
  away reaches the worker that runs it, and when it does not; and what an outage of the cloud
  API does to a consumer.
\<close>

section \<open>Runs\<close>

text \<open>
  A heartbeat with what the service answers to a report and its two readings of the clock, an
  iteration of the main loop with its own two, or a pass of the goroutine that consumes a
  partition.  The heartbeat loop ends with the context of the consumer.
\<close>

datatype 'h group_event =
    Beat map_order "PartitionInfo list \<Rightarrow> PartitionInfo list option" int int
  | Round int int
  | Pass string "'h Processor process_op" pass

fun group_step ::
    "commit_call \<Rightarrow> 'h Processor shutdown_op \<Rightarrow> 'h group_event \<Rightarrow> 'h ConsumerWorker \<Rightarrow> 'h ConsumerWorker" where
  "group_step upd shut (Beat ord call now success) cw =
     (if cw_cancelled cw then cw
      else cw\<lparr>cw_Heartbeat := map_option (hb_round ord (cw_Option cw) call (\<lambda>hw. hw) now success)
             (cw_Heartbeat cw)\<rparr>)"
| "group_step upd shut (Round now now') cw = snd (run_round now now' upd shut cw)"
| "group_step upd shut (Pass key process ps) cw =
     cw\<lparr>PartitionWorkers := map (\<lambda>(k, w). (k, if k = key then consume_pass process ps w else w)) (PartitionWorkers cw)\<rparr>"

declare group_step.simps [simp del]

definition group_run ::
    "commit_call \<Rightarrow> 'h Processor shutdown_op \<Rightarrow> 'h group_event list \<Rightarrow> 'h ConsumerWorker \<Rightarrow> 'h ConsumerWorker" where
  "group_run upd shut es cw = fold (group_step upd shut) es cw"

text \<open>A consumer that is running, and what its heartbeat says it holds.\<close>

definition runs_with :: "PartitionInfo list \<Rightarrow> 'h ConsumerWorker \<Rightarrow> bool" where
  "runs_with ps cw \<longleftrightarrow> \<not> cw_isShutdown cw \<and> \<not> cw_cancelled cw \<and>
     (\<exists>hw. cw_Heartbeat cw = Some hw \<and> \<not> hb_IsShutdown hw \<and> HeldPartitions hw = ps)"

lemma beat_answered:
  assumes "runs_with ps cw"
  shows "runs_with (copyPartitions qs) (group_step upd shut (Beat ord (\<lambda>req. Some qs) now success) cw) \<and>
    PartitionWorkers (group_step upd shut (Beat ord (\<lambda>req. Some qs) now success) cw) = PartitionWorkers cw"
  using assms
  by (auto simp: group_step.simps runs_with_def hb_round_def sendHeartbeat_def apply_heartbeat_def hb_IsShutdown_def)

lemma beat_success_time:
  "runs_with ps cw \<Longrightarrow> map_option LastHeartbeatSuccessTime
     (cw_Heartbeat (group_step upd shut (Beat ord (\<lambda>req. Some qs) now success) cw)) = Some success"
  by (auto simp: group_step.simps runs_with_def hb_round_def sendHeartbeat_def apply_heartbeat_def hb_IsShutdown_def)

text \<open>Without an entry in the list the loop only waits.\<close>

lemma round_waits:
  "runs_with [] cw \<Longrightarrow> run_round now now' upd shut cw = (WaitForPartitions, cw)"
  by (auto simp: runs_with_def run_round_def cw_IsShutdown_def GetHeldPartitions_def copyPartitions_def)

text \<open>With a non-empty list the loop goes on to the clean-up.\<close>

lemma round_keeps_assigned:
  assumes "runs_with qs cw" and "qs \<noteq> []" and "gm_ok (PartitionWorkers cw)"
    and "fst (run_round now now' upd shut cw) \<noteq> LoopEnds"
    and "gm_get (PartitionWorkers (snd (run_round now now' upd shut cw))) k \<noteq> None"
  shows "\<exists>t p. k = partition_key t p \<and> holds qs t p"
proof -
  obtain hw where hw: "cw_Heartbeat cw = Some hw" "HeldPartitions hw = qs" "\<not> cw_isShutdown cw" "\<not> cw_cancelled cw"
    using assms(1) by (auto simp: runs_with_def)
  obtain keys cw' where r: "run_round now now' upd shut cw = (Launched keys, cw')"
    using hw assms(2,4) by (auto simp: run_round_def cw_IsShutdown_def GetHeldPartitions_def copyPartitions_def Let_def
        split: prod.splits if_splits)
  from run_round_workers [OF assms(3) hw(1) r] show ?thesis using assms(5) hw(2) r by simp
qed

text \<open>What the passes of its own goroutine make of a worker.\<close>

fun own_passes :: "string \<Rightarrow> 'h group_event list \<Rightarrow> 'h Processor PartitionConsumerWorker
    \<Rightarrow> 'h Processor PartitionConsumerWorker" where
  "own_passes k [] w = w"
| "own_passes k (e # es) w = own_passes k es (case e of
       Pass key process ps \<Rightarrow> if k = key then consume_pass process ps w else w
     | Beat ord call now success \<Rightarrow> w | Round now now' \<Rightarrow> w)"

definition empty_beat :: "'h group_event \<Rightarrow> bool" where
  "empty_beat e \<longleftrightarrow> (case e of Beat ord call now success \<Rightarrow> call = (\<lambda>req. Some []) | Round now now' \<Rightarrow> True | Pass key process ps \<Rightarrow> True)"

lemma empty_run:
  assumes "runs_with [] cw" and "\<forall>e\<in>set es. empty_beat e"
  shows "runs_with [] (group_run upd shut es cw) \<and>
    PartitionWorkers (group_run upd shut es cw) = map (\<lambda>(k, w). (k, own_passes k es w)) (PartitionWorkers cw)"
  using assms
proof (induction es arbitrary: cw)
  case (Cons e es)
  have "runs_with [] (group_step upd shut e cw) \<and>
      PartitionWorkers (group_step upd shut e cw) = map (\<lambda>(k, w). (k, own_passes k [e] w)) (PartitionWorkers cw)"
    using Cons.prems beat_answered [OF Cons.prems(1), of "[]"] round_waits [OF Cons.prems(1)]
    by (cases e) (simp_all add: group_step.simps(2,3) empty_beat_def copyPartitions_def runs_with_def)
  with Cons show ?case by (simp add: group_run_def split_beta comp_def)
qed (simp add: group_run_def)

text \<open>
  C14: partitions that are taken away by an empty answer are never let go.  When a heartbeat is
  answered with no entry at all, the main loop takes that for not having been assigned anything
  yet: however many iterations and further such heartbeats follow, no partition worker is shut
  down or given back, and each is what the passes of its own goroutine make of it, which
  consumes on beside the partition's new owner.  After an answer with an entry in it, be it a
  topic without partitions, an iteration that does not stop the consumer leaves workers for
  partitions of the answer only.
\<close>

theorem revoked_workers_run_on:
  assumes "runs_with ps cw" and "\<forall>e\<in>set es. empty_beat e" and "gm_ok (PartitionWorkers cw)"
  shows "(let cw' = group_run upd shut (Beat ord (\<lambda>req. Some []) now success # es) cw in
      PartitionWorkers cw' = map (\<lambda>(k, w). (k, own_passes k es w)) (PartitionWorkers cw) \<and>
      run_round t t' upd shut cw' = (WaitForPartitions, cw')) \<and>
    (let (r, cw') = run_round t t' upd shut (group_step upd shut (Beat ord (\<lambda>req. Some (q # qs)) now success) cw) in
      r = LoopEnds \<or>
      (\<forall>k. gm_get (PartitionWorkers cw') k \<noteq> None \<longrightarrow> (\<exists>u p. k = partition_key u p \<and> holds (q # qs) u p)))"
proof
  let ?cw = "group_step upd shut (Beat ord (\<lambda>req. Some []) now success) cw"
  note b = beat_answered [OF assms(1), of "[]" upd shut ord now success]
  have "group_run upd shut (Beat ord (\<lambda>req. Some []) now success # es) cw = group_run upd shut es ?cw"
    by (simp add: group_run_def)
  moreover have run: "runs_with [] (group_run upd shut es ?cw)"
    and "PartitionWorkers (group_run upd shut es ?cw) = map (\<lambda>(k, w). (k, own_passes k es w)) (PartitionWorkers cw)"
    using b empty_run [of ?cw es upd shut] assms(2) by (simp_all add: copyPartitions_def)
  ultimately show "let cw' = group_run upd shut (Beat ord (\<lambda>req. Some []) now success # es) cw in
      PartitionWorkers cw' = map (\<lambda>(k, w). (k, own_passes k es w)) (PartitionWorkers cw) \<and>
      run_round t t' upd shut cw' = (WaitForPartitions, cw')"
    using round_waits [OF run] by (simp add: Let_def)
next
  let ?cw = "group_step upd shut (Beat ord (\<lambda>req. Some (q # qs)) now success) cw"
  have "runs_with (q # qs) ?cw" and "gm_ok (PartitionWorkers ?cw)"
    using beat_answered [OF assms(1), of "q # qs" upd shut ord now success] assms(3)
    by (simp_all add: copyPartitions_def)
  from round_keeps_assigned [OF this(1) _ this(2), of t t' upd shut]
  show "let (r, cw') = run_round t t' upd shut ?cw in r = LoopEnds \<or>
      (\<forall>k. gm_get (PartitionWorkers cw') k \<noteq> None \<longrightarrow> (\<exists>u p. k = partition_key u p \<and> holds (q # qs) u p))"
    by (auto simp: split_beta)
qed

text \<open>The worker of partition 3, which went to someone else, pulls and moves on to offset 7.\<close>

definition ex_process :: "unit Processor process_op" where
  "ex_process logs p t = (None, [], p, t)"

definition ex_consuming :: "unit ConsumerWorker" where
  "ex_consuming = ex_cw\<lparr>PartitionWorkers :=
     [(partition_key ''t'' 3, (new_worker 0 ex_cw ''t'' 3)\<lparr>Initialized := True, NextFetchOffset := 0\<rparr>)]\<rparr>"

lemma ex_pass_moves:
  "NextFetchOffset (consume_pass ex_process (ex_pass 30) ((new_worker 0 ex_cw ''t'' 3)\<lparr>Initialized := True, NextFetchOffset := 0\<rparr>)) = 7"
  by code_simp

theorem revoked_workers_run_on_witness:
  "map_option NextFetchOffset (gm_get (PartitionWorkers (group_run (\<lambda>c. None) ex_shut
     [Beat rev (\<lambda>req. Some []) 20 20, Round 25 25, Pass (partition_key ''t'' 3) ex_process (ex_pass 30),
      Beat rev (\<lambda>req. Some []) 40 40, Round 45 45] ex_consuming)) (partition_key ''t'' 3)) = Some 7"
proof -
  have run: "runs_with (HeldPartitions ex_held) ex_consuming" and ok: "gm_ok (PartitionWorkers ex_consuming)"
    by (simp_all add: runs_with_def ex_consuming_def ex_cw_def fresh_ConsumerWorker_def ex_held_def hb_IsShutdown_def gm_ok_def)
  have "\<forall>e\<in>set [Round 25 25, Pass (partition_key ''t'' 3) ex_process (ex_pass 30), Beat rev (\<lambda>req. Some []) 40 40, Round 45 45].
      empty_beat e" by (simp add: empty_beat_def)
  from revoked_workers_run_on [OF run this ok, of "\<lambda>c. None" ex_shut rev 20 20 45 45] show ?thesis
    by (simp add: Let_def ex_consuming_def gm_get_def ex_pass_moves)
qed

section \<open>An outage of the cloud API\<close>

text \<open>
  \<open>DoRequest\<close> gives the body of the tenth 5xx answer in a row to the JSON decoder of the call.
  Whatever JSON object the error page is, it decodes to a response without an error unless it
  has an \<open>Error\<close> in a \<open>Response\<close>.
\<close>

definition api_down :: "ApiEnv \<Rightarrow> byte list \<Rightarrow> bool" where
  "api_down env page \<longleftrightarrow>
     (\<forall>req i. case env_net env req i of
        HttpResponse status body \<Rightarrow> 500 \<le> status \<and> body = page
      | NetworkError e \<Rightarrow> False | ReadError e \<Rightarrow> False) \<and>
     (\<forall>m u. env_new_request env m u = None)"

lemma api_call_down:
  assumes "api_down env page"
  shows "api_call env resp ts c action req = resp (env_unmarshal env) page"
proof -
  have "\<exists>status. env_net env req i = HttpResponse status page \<and> 500 \<le> status" for req i
    using assms [unfolded api_down_def, THEN conjunct1, rule_format, of req i]
    by (cases "env_net env req i") auto
  moreover have "env_new_request env m u = None" for m u using assms by (simp add: api_down_def)
  ultimately have "DoRequest env ts c ''POST'' ''/'' [] h body region action ''cls'' = Inr page" for h body region
    by (rule DoRequest_server_error_swallowed)
  then show ?thesis by (simp add: api_call_def)
qed

text \<open>An event of the consumer in which a heartbeat is answered by the cloud API.\<close>

definition api_event :: "ApiEnv \<Rightarrow> ConsumerClient \<Rightarrow> 'h group_event \<Rightarrow> bool" where
  "api_event env c e \<longleftrightarrow> (case e of
       Beat ord call now success \<Rightarrow> (\<exists>ts. call = Heartbeat env ts c)
     | Round now now' \<Rightarrow> True | Pass key process ps \<Rightarrow> True)"

lemma heartbeat_down:
  assumes "api_down env page" and "json_Heartbeat (env_unmarshal env) page = Inr r"
    and "hbr_Error r = None"
  shows "Heartbeat env ts c req = Some (hbr_TopicPartitionsInfo r)"
  using assms by (simp add: Heartbeat_def api_Heartbeat_def api_call_down)

text \<open>
  C15: an outage of the cloud API looks like good health.  While every request is answered by
  a 5xx status and the error page is a JSON object without a \<open>Response.Error\<close>, committing any
  offsets reports success, and every heartbeat succeeds with an empty assignment: the time of
  the last success keeps moving, so the time-out that makes a consumer let go of its partitions
  never passes, the held partitions become empty at the first beat, and however long the
  outage lasts the partition workers run on.
\<close>

theorem outage_looks_healthy:
  assumes "api_down env page"
    and "json_Heartbeat (env_unmarshal env) page = Inr r" and "hbr_Error r = None" and "hbr_TopicPartitionsInfo r = []"
    and "json_UpdateOffsets (env_unmarshal env) page = Inr u" and "uor_Error u = None"
    and "runs_with ps cw" and "\<forall>e\<in>set es. api_event env c e"
  shows "UpdateOffsets env ts c offsets = None \<and>
    (let cw' = group_run upd shut (Beat ord (Heartbeat env ts c) now success # es @
           [Beat ord' (Heartbeat env ts' c) now' success']) cw in
      PartitionWorkers cw' = map (\<lambda>(k, w). (k, own_passes k es w)) (PartitionWorkers cw) \<and> runs_with [] cw' \<and>
      map_option LastHeartbeatSuccessTime (cw_Heartbeat cw') = Some success')"
proof (intro conjI)
  show "UpdateOffsets env ts c offsets = None"
    using assms(1,5,6) by (simp add: UpdateOffsets_def api_UpdateOffsets_def api_call_down)
next
  have hb: "Heartbeat env ts c = (\<lambda>req. Some [])" for ts c
    using heartbeat_down [OF assms(1-3)] assms(4) by (intro ext) simp
  let ?first = "Beat ord (\<lambda>req. Some []) now success" and ?last = "Beat ord' (\<lambda>req. Some []) now' success'"
  let ?cw1 = "group_step upd shut ?first cw"
  let ?cw2 = "group_run upd shut es ?cw1"
  have "\<forall>e\<in>set es. empty_beat e"
    using assms(8) by (force simp: api_event_def empty_beat_def hb split: group_event.splits)
  then have run: "runs_with [] ?cw2" and ws: "PartitionWorkers ?cw2 = map (\<lambda>(k, w). (k, own_passes k es w)) (PartitionWorkers cw)"
    using beat_answered [OF assms(7), of "[]" upd shut ord now success] empty_run [of ?cw1 es upd shut]
    by (simp_all add: copyPartitions_def)
  have "group_run upd shut (?first # es @ [?last]) cw = group_step upd shut ?last ?cw2"
    by (simp add: group_run_def)
  moreover have "map_option LastHeartbeatSuccessTime (cw_Heartbeat (group_step upd shut ?last ?cw2)) = Some success'"
    by (rule beat_success_time [OF run])
  ultimately show "let cw' = group_run upd shut (Beat ord (Heartbeat env ts c) now success # es @
           [Beat ord' (Heartbeat env ts' c) now' success']) cw in
      PartitionWorkers cw' = map (\<lambda>(k, w). (k, own_passes k es w)) (PartitionWorkers cw) \<and> runs_with [] cw' \<and>
      map_option LastHeartbeatSuccessTime (cw_Heartbeat cw') = Some success'"
    using beat_answered [OF run, of "[]" upd shut ord' now' success'] ws
    by (simp add: hb Let_def copyPartitions_def)
qed

text \<open>A gateway that answers 503 with an empty JSON object.\<close>

definition ex_env_gateway :: ApiEnv where
  "ex_env_gateway = ex_env_down\<lparr>env_unmarshal := env_unmarshal ex_env_down
     \<lparr>json_Heartbeat := \<lambda>b. Inr \<lparr>hbr_ConsumerGroup = [], hbr_TopicPartitionsInfo = [], hbr_RequestId = [], hbr_Error = None\<rparr>,
      json_UpdateOffsets := \<lambda>b. Inr \<lparr>uor_RequestId = [], uor_Error = None\<rparr>\<rparr>\<rparr>"

definition ex_consumer_client :: ConsumerClient where
  "ex_consumer_client = \<lparr>cc_YunApi = ex_client, cc_LogsetID = ''l'', cc_TopicIDs = [''t''],
     cc_ConsumerGroup = ''g'', cc_Consumer = ''c'', cc_Region = ''ap-beijing''\<rparr>"

theorem outage_looks_healthy_witness:
  "UpdateOffsets ex_env_gateway 0 ex_consumer_client [] = None \<and>
   map_option LastHeartbeatSuccessTime (cw_Heartbeat (group_run (\<lambda>c. None) ex_shut
     [Beat rev (Heartbeat ex_env_gateway 0 ex_consumer_client) 20 20, Round 25 25,
      Beat rev (Heartbeat ex_env_gateway 4000 ex_consumer_client) 4000 4000] ex_stale)) = Some 4000"
proof -
  have run: "runs_with (HeldPartitions ex_held) ex_stale"
    by (simp add: runs_with_def ex_stale_def ex_cw_def fresh_ConsumerWorker_def ex_held_def hb_IsShutdown_def)
  have down: "api_down ex_env_gateway [123, 125]"
    by (simp add: api_down_def ex_env_gateway_def ex_env_down_def)
  have "\<forall>e\<in>set [Round 25 25]. api_event ex_env_gateway ex_consumer_client e" by (simp add: api_event_def)
  from outage_looks_healthy [OF down _ _ _ _ _ run this, of _ _ 0 "[]" "\<lambda>c. None" ex_shut rev 20 20 rev 4000 4000 4000]
  show ?thesis by (simp add: ex_env_gateway_def Let_def)
qed

end
