(* ===== verification/Consumer_Reports.thy ===== *)
theory Consumer_Reports
  imports Consumer_Group
begin

text \<open>
  What a consumer reports to its group: the request of the next heartbeat.  The heartbeat
  worker keeps two lists, the partitions of the last answer (\<open>HeldPartitions\<close>) and those it has
  not given back yet (\<open>HeartPartitions\<close>); here it is shown which of them the group gets to see.
\<close>

definition reports :: "'h ConsumerWorker \<Rightarrow> PartitionInfo list ptr" where
  "reports cw = map_option (buildHeartbeatPartitions (cw_Option cw)) (cw_Heartbeat cw)"

section \<open>Runs that differ in the heart partitions only\<close>

definition set_heart :: "PartitionInfo list \<Rightarrow> HeartbeatWorker \<Rightarrow> HeartbeatWorker" where
  "set_heart hs hw = hw\<lparr>HeartPartitions := hs\<rparr>"

definition with_heart :: "PartitionInfo list \<Rightarrow> 'h ConsumerWorker \<Rightarrow> 'h ConsumerWorker" where
  "with_heart hs cw = cw\<lparr>cw_Heartbeat := map_option (set_heart hs) (cw_Heartbeat cw)\<rparr>"

lemma with_heart_simps [simp]:
  "cw_Option (with_heart hs cw) = cw_Option cw" "PartitionWorkers (with_heart hs cw) = PartitionWorkers cw"
  "cw_isShutdown (with_heart hs cw) = cw_isShutdown cw" "cw_cancelled (with_heart hs cw) = cw_cancelled cw"
  "cw_Heartbeat (with_heart hs cw) = map_option (set_heart hs) (cw_Heartbeat cw)"
  "cw_Processor (with_heart hs cw) = cw_Processor cw"
  "LastOwnedConsumerFinishTime (with_heart hs cw) = LastOwnedConsumerFinishTime cw"
  "HeldPartitions (set_heart hs hw) = HeldPartitions hw" "hb_isShutdown (set_heart hs hw) = hb_isShutdown hw"
  by (simp_all add: with_heart_def set_heart_def)

lemma reports_with_heart [simp]: "reports (with_heart hs cw) = reports cw"
  by (cases "cw_Heartbeat cw") (simp_all add: reports_def buildHeartbeatPartitions_def)

lemma set_heart_iff:
  "(\<exists>hs. hw' = set_heart hs hw) \<longleftrightarrow> HeldPartitions hw' = HeldPartitions hw \<and>
     hb_isShutdown hw' = hb_isShutdown hw \<and> LastHeartbeatSuccessTime hw' = LastHeartbeatSuccessTime hw"
  by (cases hw; cases hw') (auto simp: set_heart_def)

text \<open>Each operation of the consumer keeps the difference where it is.\<close>

lemma hb_round_heart:
  "\<exists>hs'. hb_round ord opt call (\<lambda>hw. hw) now now' (set_heart hs hw) =
     set_heart hs' (hb_round ord opt call (\<lambda>hw. hw) now now' hw)"
proof -
  have req: "buildHeartbeatPartitions opt (set_heart hs hw) = buildHeartbeatPartitions opt hw"
    by (simp add: buildHeartbeatPartitions_def)
  have "fst (apply_heartbeat ord opt now resp (set_heart hs hw)) = fst (apply_heartbeat ord opt now resp hw) \<and>
      (\<exists>hs'. snd (apply_heartbeat ord opt now resp (set_heart hs hw)) = set_heart hs' (snd (apply_heartbeat ord opt now resp hw)))" for resp
    unfolding set_heart_iff by (cases resp) (simp_all add: apply_heartbeat_def set_heart_def)
  note a = this [of "call (buildHeartbeatPartitions opt hw)"]
  then show ?thesis
    unfolding set_heart_iff by (simp add: hb_round_def sendHeartbeat_def req split_beta Let_def) (simp add: set_heart_def)
qed

lemma start_workers_heart:
  "start_workers now ps (with_heart hs cw) = (let (keys, cw') = start_workers now ps cw in (keys, with_heart hs cw'))"
proof (induction ps arbitrary: cw)
  case (Cons q ps)
  have "getOrCreatePartitionWorker now t p (with_heart hs cw) =
      (let (w, cw') = getOrCreatePartitionWorker now t p cw in (w, with_heart hs cw'))" for t p
    by (simp add: getOrCreatePartitionWorker_def Let_def new_worker_def createProcessorInstance_def with_heart_def
        split: option.split)
  with Cons show ?case by (cases q) (simp add: split_beta Let_def)
qed simp

lemma give_up_heart: "\<exists>hs'. give_up key (map_option (set_heart hs) hb) = map_option (set_heart hs') (give_up key hb)"
  by (cases hb) (auto simp: give_up_def RemoveHeartPartition_def set_heart_def split: option.splits)

lemma cleanup_scan_heart:
  "\<exists>hs'. cleanup_scan upd shut ks m (map_option (set_heart hs) hb) =
     (let (es, hb', r) = cleanup_scan upd shut ks m hb in (es, map_option (set_heart hs') hb', r))"
proof (induction m arbitrary: hb hs)
  case (Cons e m)
  obtain key w where e: "e = (key, w)" by force
  obtain hs' where g: "give_up key (map_option (set_heart hs) hb) = map_option (set_heart hs') (give_up key hb)"
    using give_up_heart by blast
  show ?case
    using Cons.IH [of hs hb] Cons.IH [of hs' "give_up key hb"]
    by (auto simp: e g Let_def split_beta)
next
  case Nil
  show ?case by (intro exI [of _ hs]) simp
qed

lemma cleanup_heart:
  "\<exists>hs'. cleanupUnusedPartitionWorkers upd shut ps (with_heart hs cw) =
     with_heart hs' (cleanupUnusedPartitionWorkers upd shut ps cw)"
proof -
  let ?ks = "map (\<lambda>(t, p). partition_key t p) (assigned ps)"
  obtain hs' where "cleanup_scan upd shut ?ks (PartitionWorkers cw) (map_option (set_heart hs) (cw_Heartbeat cw)) =
      (let (es, hb', r) = cleanup_scan upd shut ?ks (PartitionWorkers cw) (cw_Heartbeat cw)
       in (es, map_option (set_heart hs') hb', r))" using cleanup_scan_heart by blast
  then show ?thesis
    by (auto simp: cleanupUnusedPartitionWorkers_def Let_def split_beta with_heart_def intro!: exI [of _ hs'])
qed

lemma needStop_heart:
  "needStop now (with_heart hs cw) = (let (stop, cw') = needStop now cw in (stop, with_heart hs cw'))"
  by (simp add: needStop_def snapshotPartitionWorkers_def with_heart_def Let_def)

lemma Shutdown_heart: "cw_Shutdown upd shut (with_heart hs cw) = with_heart hs (cw_Shutdown upd shut cw)"
  by (cases "cw_Heartbeat cw") (simp_all add: cw_Shutdown_def with_heart_def set_heart_def hb_Shutdown_def)

lemma run_round_heart:
  "\<exists>hs'. run_round now now' upd shut (with_heart hs cw) =
     (let (r, cw') = run_round now now' upd shut cw in (r, with_heart hs' cw'))"
proof (cases "cw_Heartbeat cw")
  case None
  then show ?thesis by (auto simp: run_round_def cw_IsShutdown_def Shutdown_heart)
next
  case (Some hw)
  obtain keys cw1 where s: "start_workers now (assigned (HeldPartitions hw)) cw = (keys, cw1)" by force
  obtain hs' where c: "cleanupUnusedPartitionWorkers upd shut (HeldPartitions hw) (with_heart hs cw1) =
      with_heart hs' (cleanupUnusedPartitionWorkers upd shut (HeldPartitions hw) cw1)" using cleanup_heart by blast
  show ?thesis
  proof (cases "cw_isShutdown cw \<or> cw_cancelled cw \<or> HeldPartitions hw = []")
    case True
    with Some show ?thesis
      by (auto simp: run_round_def cw_IsShutdown_def Shutdown_heart GetHeldPartitions_def copyPartitions_def)
  next
    case False
    with Some s c show ?thesis
      by (auto simp: run_round_def cw_IsShutdown_def Shutdown_heart GetHeldPartitions_def copyPartitions_def
          start_workers_heart needStop_heart Let_def split_beta intro!: exI [of _ hs'])
  qed
qed

lemma group_run_heart: "\<exists>hs'. group_run upd shut es (with_heart hs cw) = with_heart hs' (group_run upd shut es cw)"
proof (induction es arbitrary: hs cw)
  case (Cons e es)
  have "\<exists>hs'. group_step upd shut e (with_heart hs cw) = with_heart hs' (group_step upd shut e cw)"
  proof (cases e)
    case (Beat ord call now success)
    show ?thesis
    proof (cases "cw_Heartbeat cw = None \<or> cw_cancelled cw")
      case True
      then show ?thesis by (auto simp: Beat group_step.simps with_heart_def)
    next
      case False
      then obtain hw where hw: "cw_Heartbeat cw = Some hw" by auto
      obtain hs' where "hb_round ord (cw_Option cw) call (\<lambda>hw. hw) now success (set_heart hs hw) =
          set_heart hs' (hb_round ord (cw_Option cw) call (\<lambda>hw. hw) now success hw)" using hb_round_heart by blast
      with hw False show ?thesis by (auto simp: Beat group_step.simps with_heart_def intro!: exI [of _ hs'])
    qed
  next
    case (Round now now')
    obtain hs' where "run_round now now' upd shut (with_heart hs cw) =
       (let (r, cw') = run_round now now' upd shut cw in (r, with_heart hs' cw'))" using run_round_heart by blast
    with Round show ?thesis by (auto simp: group_step.simps split_beta intro!: exI [of _ hs'])
  next
    case (Pass key process ps)
    show ?thesis by (intro exI [of _ hs]) (simp add: Pass group_step.simps with_heart_def)
  qed
  then obtain hs' where "group_step upd shut e (with_heart hs cw) = with_heart hs' (group_step upd shut e cw)" ..
  with Cons.IH [of hs' "group_step upd shut e cw"] show ?case by (simp add: group_run_def)
qed (auto simp: group_run_def)

section \<open>What the group sees\<close>

text \<open>
  C16: the partitions a consumer has not given back yet are never reported to the group.
  Whatever the heart partitions are, in any run of heartbeats, iterations of the main loop and
  passes the reports and the partition workers are the same, so keeping a partition in that list until
  its worker has stopped holds nothing back: from the answer that takes a partition away on,
  the next report does not have it, although its worker is still there as it was.
\<close>

theorem heart_partitions_unreported:
  assumes "runs_with ps cw" and "gm_get (PartitionWorkers cw) (partition_key t p) = Some w"
    and "\<not> holds (q # qs) t p"
  shows "reports (group_run upd shut es (with_heart hs cw)) = reports (group_run upd shut es cw) \<and>
    PartitionWorkers (group_run upd shut es (with_heart hs cw)) = PartitionWorkers (group_run upd shut es cw) \<and>
    (let cw' = group_step upd shut (Beat ord (\<lambda>req. Some (q # qs)) now success) cw in
      gm_get (PartitionWorkers cw') (partition_key t p) = Some w \<and>
      reports cw' = Some (q # qs) \<and> \<not> holds (the (reports cw')) t p)"
proof -
  obtain hs' where "group_run upd shut es (with_heart hs cw) = with_heart hs' (group_run upd shut es cw)"
    using group_run_heart by blast
  moreover have run: "runs_with (q # qs) (group_step upd shut (Beat ord (\<lambda>req. Some (q # qs)) now success) cw)"
    and "PartitionWorkers (group_step upd shut (Beat ord (\<lambda>req. Some (q # qs)) now success) cw) = PartitionWorkers cw"
    using beat_answered [OF assms(1), of "q # qs" upd shut ord now success] by (simp_all add: copyPartitions_def)
  moreover have "reports (group_step upd shut (Beat ord (\<lambda>req. Some (q # qs)) now success) cw) = Some (q # qs)"
    using run by (auto simp: runs_with_def reports_def buildHeartbeatPartitions_def copyPartitions_def)
  ultimately show ?thesis using assms(2,3) by (simp add: Let_def)
qed

text \<open>Partition 3 is consumed, and the group answers with partition 1 only.\<close>

theorem heart_partitions_unreported_witness:
  "let cw' = group_step (\<lambda>c. None) ex_shut
       (Beat rev (\<lambda>req. Some [\<lparr>pi_TopicID = ''t'', pi_Partitions = [1]\<rparr>]) 20 20) ex_stale in
    gm_get (PartitionWorkers cw') (partition_key ''t'' 3) = Some (new_worker 0 ex_cw ''t'' 3) \<and>
    reports cw' = Some [\<lparr>pi_TopicID = ''t'', pi_Partitions = [1]\<rparr>]"
proof -
  have "runs_with (HeldPartitions ex_held) ex_stale"
    by (simp add: runs_with_def ex_stale_def ex_cw_def fresh_ConsumerWorker_def ex_held_def hb_IsShutdown_def)
  from heart_partitions_unreported [OF this, of "''t''" 3 "new_worker 0 ex_cw ''t'' 3"
      "\<lparr>pi_TopicID = ''t'', pi_Partitions = [1]\<rparr>" "[]" "\<lambda>c. None" ex_shut "[]" "[]" rev 20 20]
  show ?thesis by (simp add: ex_stale_simps(3) Let_def)
qed

end
