(* ===== verification/Cls_Encode.thy ===== *)
theory Cls_Encode
  imports Cls_Proto
begin

text \<open>
  The \<open>Marshal\<close> methods of \<^verbatim>\<open>cls.pb.go\<close>.  They fill a buffer of exactly \<open>Size ()\<close>
  bytes from its end to its start; the model keeps the buffer and the write position, and
  every write outside the buffer is a panic.  The reference is the protobuf wire format,
  written front to back.
\<close>

section \<open>Writing backwards\<close>

text \<open>The buffer \<open>dAtA\<close> and the position \<open>i\<close>: what lies behind \<open>i\<close> is written.\<close>

type_synonym wbuf = "byte list \<times> nat"

definition out_of_range :: failure where
  "out_of_range = Panic ''index out of range''"

definition required_not_set :: failure where
  "required_not_set = Errorf ''proto: required field not set''"

definition and_then :: "('a \<Rightarrow> 'b outcome) \<Rightarrow> ('b \<Rightarrow> 'c outcome) \<Rightarrow> 'a \<Rightarrow> 'c outcome" where
  "and_then f g a = (case f a of Inl e \<Rightarrow> Inl e | Inr b \<Rightarrow> g b)"

text \<open>\<open>i -= len (s); copy (dAtA[i:], s)\<close>, and, for one byte, \<open>i--; dAtA[i] = b\<close>.\<close>

definition put_bytes :: "byte list \<Rightarrow> wbuf \<Rightarrow> wbuf outcome" where
  "put_bytes bs w = (case w of (dAtA, i) \<Rightarrow>
     if i < length bs then Inl out_of_range
     else Inr (take (i - length bs) dAtA @ bs @ drop i dAtA, i - length bs))"

text \<open>The loop of \<open>encodeVarintCls\<close>, which writes forwards.\<close>

function varint_loop :: "byte list \<Rightarrow> nat \<Rightarrow> 64 word \<Rightarrow> byte list outcome" where
  "varint_loop dAtA offset v =
     (if offset < length dAtA then
        (if 128 \<le> v
         then varint_loop (dAtA[offset := ucast (v AND 127 OR 128)]) (offset + 1) (drop_bit 7 v)
         else Inr (dAtA[offset := ucast v]))
      else Inl out_of_range)"
  by auto

termination varint_loop
  by (relation "measure (\<lambda>(dAtA, offset, v). length dAtA - offset)") auto

declare varint_loop.simps [simp del]

definition encodeVarintCls :: "64 word \<Rightarrow> wbuf \<Rightarrow> wbuf outcome" where
  "encodeVarintCls v w = (case w of (dAtA, offset) \<Rightarrow>
     if offset < sovCls v then Inl out_of_range
     else (case varint_loop dAtA (offset - sovCls v) v of
        Inl e \<Rightarrow> Inl e
      | Inr dAtA' \<Rightarrow> Inr (dAtA', offset - sovCls v)))"

section \<open>Fields\<close>

definition string_bytes :: "string \<Rightarrow> byte list" where
  "string_bytes s = map of_char s"

definition wr_string :: "byte \<Rightarrow> string \<Rightarrow> wbuf \<Rightarrow> wbuf outcome" where
  "wr_string tag s = and_then (put_bytes (string_bytes s))
     (and_then (encodeVarintCls (of_nat (length s))) (put_bytes [tag]))"

definition wr_optional :: "byte \<Rightarrow> string ptr \<Rightarrow> wbuf \<Rightarrow> wbuf outcome" where
  "wr_optional tag f w = (case f of None \<Rightarrow> Inr w | Some s \<Rightarrow> wr_string tag s w)"

definition wr_required :: "byte \<Rightarrow> string ptr \<Rightarrow> wbuf \<Rightarrow> wbuf outcome" where
  "wr_required tag f w = (case f of None \<Rightarrow> Inl required_not_set | Some s \<Rightarrow> wr_string tag s w)"

definition wr_varint :: "byte \<Rightarrow> 64 word \<Rightarrow> wbuf \<Rightarrow> wbuf outcome" where
  "wr_varint tag v = and_then (encodeVarintCls v) (put_bytes [tag])"

text \<open>An embedded message, marshalled into \<open>dAtA[:i]\<close>, then its size and its tag.\<close>

definition wr_sub :: "byte \<Rightarrow> (wbuf \<Rightarrow> wbuf outcome) \<Rightarrow> wbuf \<Rightarrow> wbuf outcome" where
  "wr_sub tag marshal w = (case marshal w of
       Inl e \<Rightarrow> Inl e
     | Inr w' \<Rightarrow> and_then (encodeVarintCls (of_nat (snd w - snd w'))) (put_bytes [tag]) w')"

fun wr_subs :: "byte \<Rightarrow> ('m \<Rightarrow> wbuf \<Rightarrow> wbuf outcome) \<Rightarrow> 'm list \<Rightarrow> wbuf \<Rightarrow> wbuf outcome" where
  "wr_subs tag marshal [] w = Inr w"
| "wr_subs tag marshal (m # ms) w = and_then (wr_subs tag marshal ms) (wr_sub tag (marshal m)) w"

section \<open>Messages\<close>

text \<open>A nil message panics when its first field is read.\<close>

definition nil_message :: failure where
  "nil_message = Panic ''invalid memory address or nil pointer dereference''"

definition Log_Content_MarshalToSizedBuffer :: "Log_Content ptr \<Rightarrow> wbuf \<Rightarrow> wbuf outcome" where
  "Log_Content_MarshalToSizedBuffer m w = (case m of None \<Rightarrow> Inl nil_message | Some c \<Rightarrow>
     and_then (put_bytes (Content_XXX_unrecognized c))
       (and_then (wr_required 18 (Content_Value c)) (wr_required 10 (Content_Key c))) w)"

definition LogTag_MarshalToSizedBuffer :: "LogTag ptr \<Rightarrow> wbuf \<Rightarrow> wbuf outcome" where
  "LogTag_MarshalToSizedBuffer m w = (case m of None \<Rightarrow> Inl nil_message | Some c \<Rightarrow>
     and_then (put_bytes (Tag_XXX_unrecognized c))
       (and_then (wr_required 18 (Tag_Value c)) (wr_required 10 (Tag_Key c))) w)"

definition Log_MarshalToSizedBuffer :: "Log ptr \<Rightarrow> wbuf \<Rightarrow> wbuf outcome" where
  "Log_MarshalToSizedBuffer m w = (case m of None \<Rightarrow> Inl nil_message | Some l \<Rightarrow>
     and_then (put_bytes (Log_XXX_unrecognized l))
       (and_then (\<lambda>w. case Log_CollectTime l of None \<Rightarrow> Inr w | Some v \<Rightarrow> wr_varint 24 v w)
         (and_then (wr_subs 18 Log_Content_MarshalToSizedBuffer (Log_Contents l))
           (\<lambda>w. case Log_Time l of None \<Rightarrow> Inl required_not_set | Some v \<Rightarrow> wr_varint 8 v w))) w)"

definition LogGroup_MarshalToSizedBuffer :: "LogGroup ptr \<Rightarrow> wbuf \<Rightarrow> wbuf outcome" where
  "LogGroup_MarshalToSizedBuffer m w = (case m of None \<Rightarrow> Inl nil_message | Some g \<Rightarrow>
     and_then (put_bytes (Group_XXX_unrecognized g))
       (and_then (wr_optional 50 (Group_Hostname g))
         (and_then (wr_subs 42 LogTag_MarshalToSizedBuffer (Group_LogTags g))
           (and_then (wr_optional 34 (Group_Source g))
             (and_then (wr_optional 26 (Group_Filename g))
               (and_then (wr_optional 18 (Group_ContextFlow g))
                 (wr_subs 10 Log_MarshalToSizedBuffer (Group_Logs g))))))) w)"

definition LogGroupList_MarshalToSizedBuffer :: "LogGroupList ptr \<Rightarrow> wbuf \<Rightarrow> wbuf outcome" where
  "LogGroupList_MarshalToSizedBuffer m w = (case m of None \<Rightarrow> Inl nil_message | Some g \<Rightarrow>
     and_then (put_bytes (List_XXX_unrecognized g))
       (wr_subs 10 LogGroup_MarshalToSizedBuffer (List_LogGroupList g)) w)"

text \<open>\<open>Marshal\<close>: a fresh buffer of \<open>Size ()\<close> zero bytes; the first \<open>n\<close> of it are the answer.\<close>

definition Marshal_with :: "nat \<Rightarrow> (wbuf \<Rightarrow> wbuf outcome) \<Rightarrow> byte list outcome" where
  "Marshal_with sz marshal = (case marshal (replicate sz 0, sz) of
       Inl e \<Rightarrow> Inl e
     | Inr (dAtA, i) \<Rightarrow> Inr (take (sz - i) dAtA))"

definition Log_Content_Marshal :: "Log_Content ptr \<Rightarrow> byte list outcome" where
  "Log_Content_Marshal m = Marshal_with (Log_Content_Size m) (Log_Content_MarshalToSizedBuffer m)"

definition Log_Marshal :: "Log ptr \<Rightarrow> byte list outcome" where
  "Log_Marshal m = Marshal_with (Log_Size m) (Log_MarshalToSizedBuffer m)"

definition LogTag_Marshal :: "LogTag ptr \<Rightarrow> byte list outcome" where
  "LogTag_Marshal m = Marshal_with (LogTag_Size m) (LogTag_MarshalToSizedBuffer m)"

definition LogGroup_Marshal :: "LogGroup ptr \<Rightarrow> byte list outcome" where
  "LogGroup_Marshal m = Marshal_with (LogGroup_Size m) (LogGroup_MarshalToSizedBuffer m)"

definition LogGroupList_Marshal :: "LogGroupList ptr \<Rightarrow> byte list outcome" where
  "LogGroupList_Marshal m = Marshal_with (LogGroupList_Size m) (LogGroupList_MarshalToSizedBuffer m)"

section \<open>The wire format\<close>

fun varint :: "nat \<Rightarrow> byte list" where
  "varint n = (if n < 128 then [of_nat n] else of_nat (n mod 128 + 128) # varint (n div 128))"

declare varint.simps [simp del]

definition enc_bytes :: "byte \<Rightarrow> byte list \<Rightarrow> byte list" where
  "enc_bytes tag bs = tag # varint (length bs) @ bs"

definition enc_string :: "byte \<Rightarrow> string ptr \<Rightarrow> byte list" where
  "enc_string tag f = (case f of None \<Rightarrow> [] | Some s \<Rightarrow> enc_bytes tag (string_bytes s))"

definition enc_varint :: "byte \<Rightarrow> 64 word ptr \<Rightarrow> byte list" where
  "enc_varint tag f = (case f of None \<Rightarrow> [] | Some v \<Rightarrow> tag # varint (unat v))"

definition enc_Content :: "Log_Content ptr \<Rightarrow> byte list" where
  "enc_Content m = (case m of None \<Rightarrow> [] | Some c \<Rightarrow>
     enc_string 10 (Content_Key c) @ enc_string 18 (Content_Value c) @ Content_XXX_unrecognized c)"

definition enc_Tag :: "LogTag ptr \<Rightarrow> byte list" where
  "enc_Tag m = (case m of None \<Rightarrow> [] | Some c \<Rightarrow>
     enc_string 10 (Tag_Key c) @ enc_string 18 (Tag_Value c) @ Tag_XXX_unrecognized c)"

definition enc_Log :: "Log ptr \<Rightarrow> byte list" where
  "enc_Log m = (case m of None \<Rightarrow> [] | Some l \<Rightarrow>
     enc_varint 8 (Log_Time l) @ concat (map (\<lambda>c. enc_bytes 18 (enc_Content c)) (Log_Contents l)) @
     enc_varint 24 (Log_CollectTime l) @ Log_XXX_unrecognized l)"

definition enc_Group :: "LogGroup ptr \<Rightarrow> byte list" where
  "enc_Group m = (case m of None \<Rightarrow> [] | Some g \<Rightarrow>
     concat (map (\<lambda>l. enc_bytes 10 (enc_Log l)) (Group_Logs g)) @
     enc_string 18 (Group_ContextFlow g) @ enc_string 26 (Group_Filename g) @
     enc_string 34 (Group_Source g) @ concat (map (\<lambda>t. enc_bytes 42 (enc_Tag t)) (Group_LogTags g)) @
     enc_string 50 (Group_Hostname g) @ Group_XXX_unrecognized g)"

definition enc_GroupList :: "LogGroupList ptr \<Rightarrow> byte list" where
  "enc_GroupList m = (case m of None \<Rightarrow> [] | Some g \<Rightarrow>
     concat (map (\<lambda>x. enc_bytes 10 (enc_Group x)) (List_LogGroupList g)) @ List_XXX_unrecognized g)"

end
