(* ===== verification/Cls_Encode_Correct.thy ===== *)
theory Cls_Encode_Correct
  imports Cls_Encode
begin

text \<open>
  The backward writers of \<^verbatim>\<open>cls.pb.go\<close> produce the wire format, and exactly as many
  bytes as \<open>Size ()\<close> says: no write leaves the buffer and no byte of it stays unwritten.
\<close>

section \<open>Varints\<close>

lemma varint_small [simp]: "n < 128 \<Longrightarrow> varint n = [of_nat n]"
  by (simp add: varint.simps)

lemma varint_large: "128 \<le> n \<Longrightarrow> varint n = of_nat (n mod 128 + 128) # varint (n div 128)"
  by (subst varint.simps) simp

lemma Len64_div_pow: "2 ^ k \<le> n \<Longrightarrow> Len64 n = Len64 (n div 2 ^ k) + k"
proof (induction k arbitrary: n)
  case (Suc k)
  then have "2 ^ k \<le> n div 2" by (simp add: less_eq_div_iff_mult_less_eq mult.commute)
  moreover from this have "0 < n" by (cases n) simp_all
  ultimately show ?case using Suc.IH [of "n div 2"] by (simp add: Len64_pos [of n] div_mult2_eq)
qed simp

lemma Len64_div_128: "128 \<le> n \<Longrightarrow> Len64 n = Len64 (n div 128) + 7"
  using Len64_div_pow [of 7 n] by simp

lemma length_varint: "length (varint n) = (if n = 0 then 1 else (Len64 n + 6) div 7)"
proof (induction n rule: varint.induct)
  case (1 n)
  show ?case
  proof (cases "n < 128")
    case True
    then have "Len64 n \<le> 7" by (intro Len64_le) simp
    moreover have "n \<noteq> 0 \<Longrightarrow> 1 \<le> Len64 n" by (simp add: Len64_pos)
    ultimately show ?thesis using True by (auto simp: div_le_mono)
  next
    case False
    then have "0 < n div 128" by (simp add: div_greater_zero_iff)
    moreover have "Suc ((k + 6) div 7) = (k + 7 + 6) div 7" for k :: nat by presburger
    ultimately show ?thesis using 1 False by (simp add: varint_large Len64_div_128)
  qed
qed

lemma Len64_or_1: "Len64 (unat (x OR 1 :: 64 word)) = (if x = 0 then 1 else Len64 (unat x))"
proof (cases "x = 0")
  case False
  have "unat (x OR 1) = unat x OR 1" by (simp add: unsigned_or_eq)
  moreover have "(unat x OR 1) div 2 = unat x div 2"
    using drop_bit_or [of 1 "unat x" 1] by (simp add: drop_bit_eq_div)
  moreover have "0 < unat x" using False by (simp add: unat_gt_0)
  moreover have "unat x OR 1 \<noteq> 0" by (simp add: or_eq_0_iff)
  ultimately show ?thesis using False by (simp add: Len64_pos)
qed simp

lemma sovCls_length: "sovCls v = length (varint (unat v))"
  by (simp add: sovCls_def length_varint Len64_or_1 unat_eq_0)

section \<open>Writers\<close>

text \<open>A writer puts the bytes \<open>e\<close> in front of what is written and touches nothing else.\<close>

definition writes :: "(wbuf \<Rightarrow> wbuf outcome) \<Rightarrow> byte list \<Rightarrow> bool" where
  "writes f e \<longleftrightarrow> (\<forall>dAtA i. length e \<le> i \<and> i \<le> length dAtA \<longrightarrow>
     f (dAtA, i) = Inr (take (i - length e) dAtA @ e @ drop i dAtA, i - length e))"

named_theorems writer

lemma writesD: "writes f e \<Longrightarrow> length e \<le> i \<Longrightarrow> i \<le> length dAtA \<Longrightarrow>
    f (dAtA, i) = Inr (take (i - length e) dAtA @ e @ drop i dAtA, i - length e)"
  by (simp add: writes_def)

lemma writes_put_bytes [writer]: "writes (put_bytes bs) bs"
  by (simp add: writes_def put_bytes_def)

lemma writes_skip: "writes Inr []"
  by (simp add: writes_def)

lemma writes_then [writer]:
  assumes "writes f e" and "writes g d"
  shows "writes (and_then f g) (d @ e)"
proof (unfold writes_def, intro allI impI)
  fix dAtA :: "byte list" and i
  assume i: "length (d @ e) \<le> i \<and> i \<le> length dAtA"
  let ?j = "i - length e" and ?b = "take (i - length e) dAtA @ e @ drop i dAtA"
  have j: "length d \<le> ?j" "?j \<le> length ?b" "length ?b = length dAtA" using i by auto
  have "take (?j - length d) ?b = take (i - length (d @ e)) dAtA" using i by (simp add: take_take min_def add.commute [of "length d"])
  moreover have "drop ?j ?b = e @ drop i dAtA"
  proof -
    have "length (take ?j dAtA) = ?j" using i by auto
    then show ?thesis by (metis append_eq_conv_conj)
  qed
  moreover have "f (dAtA, i) = Inr (?b, ?j)" using writesD [OF assms(1), of i dAtA] i by simp
  ultimately show "and_then f g (dAtA, i) =
      Inr (take (i - length (d @ e)) dAtA @ (d @ e) @ drop i dAtA, i - length (d @ e))"
    using writesD [OF assms(2) j(1,2)] i by (simp add: and_then_def add.commute [of "length d"])
qed

lemma writes_cong: "writes f e \<Longrightarrow> (\<And>w. g w = f w) \<Longrightarrow> writes g e"
  by (simp add: writes_def)

lemma byte_bits: "(ucast (v AND 127 OR 128 :: 64 word) :: byte) = of_nat (unat v mod 128 + 128)"
proof -
  let ?x = "v AND 127"
  have x: "?x = take_bit 7 v" by (simp add: take_bit_eq_mask mask_eq_exp_minus_1)
  have "bit (128 :: 64 word) n \<longleftrightarrow> n = 7" for n
    using bit_exp_iff [of 7 n, where 'a = "64 word"] by auto
  then have "\<not> bit ?x n \<or> \<not> bit (128 :: 64 word) n" for n
    by (cases "n = 7") (simp_all add: x bit_take_bit_iff)
  then have "?x OR 128 = ?x + 128" by (rule disjunctive_add [symmetric])
  also have "?x + 128 = of_nat (unat v mod 128 + 128)"
  proof -
    have "?x = of_nat (unat v mod 128)"
    by (simp add: x word_eq_iff_unsigned [where 'a = nat] unsigned_take_bit_eq unsigned_of_nat take_bit_eq_mod unat_mod)
    then show ?thesis by simp
  qed
  finally have "?x OR 128 = of_nat (unat v mod 128 + 128)" .
  moreover have "take_bit 64 k = k" if "k < 256" for k :: nat
    using that by (simp add: take_bit_eq_mod)
  then have "(ucast (of_nat k :: 64 word) :: byte) = of_nat k" if "k < 256" for k
    using that by (simp add: unsigned_of_nat)
  moreover have "unat v mod 128 + 128 < 256" by simp
  ultimately show ?thesis by (simp only:)
qed

lemma varint_loop_correct:
  "offset + length (varint (unat v)) \<le> length dAtA \<Longrightarrow>
   varint_loop dAtA offset v =
     Inr (take offset dAtA @ varint (unat v) @ drop (offset + length (varint (unat v))) dAtA)"
proof (induction dAtA offset v rule: varint_loop.induct)
  case (1 dAtA offset v)
  have "0 < length (varint (unat v))" by (simp add: varint.simps [of "unat v"])
  then have off: "offset < length dAtA" using 1(2) by linarith
  show ?case
  proof (cases "128 \<le> v")
    case False
    then have small: "unat v < 128" by (simp add: word_le_nat_alt)
    then have "(ucast v :: byte) = of_nat (unat v)" by simp
    with small False off show ?thesis
      by (simp add: varint_loop.simps [of dAtA] upd_conv_take_nth_drop)
  next
    case True
    then have large: "128 \<le> unat v" by (simp add: word_le_nat_alt)
    define b :: byte where "b = ucast (v AND 127 OR 128)"
    have b: "b = of_nat (unat v mod 128 + 128)" unfolding b_def by (rule byte_bits)
    have d: "unat (drop_bit 7 v) = unat v div 128" by (simp add: drop_bit_eq_div unat_div)
    have v: "varint (unat v) = b # varint (unat (drop_bit 7 v))" using varint_large [OF large] b d by simp
    have fits: "offset + 1 + length (varint (unat (drop_bit 7 v))) \<le> length (dAtA[offset := b])"
      using 1(2) v by simp
    have "(take offset dAtA @ [x])[offset := b] = take offset dAtA @ [b]" for x
      using off by (simp add: list_update_append)
    then show ?thesis
      using 1(1) [OF off True, folded b_def, OF fits] True off
      by (simp add: varint_loop.simps [of dAtA] b_def [symmetric] v take_Suc_conv_app_nth take_update_swap
          drop_update_cancel)
  qed
qed

lemma writes_encodeVarintCls [writer]: "writes (encodeVarintCls v) (varint (unat v))"
  unfolding writes_def encodeVarintCls_def sovCls_length
proof (intro allI impI)
  fix dAtA :: "byte list" and i
  assume "length (varint (unat v)) \<le> i \<and> i \<le> length dAtA"
  then show "(case (dAtA, i) of (dAtA, offset) \<Rightarrow>
        if offset < length (varint (unat v)) then Inl out_of_range
        else (case varint_loop dAtA (offset - length (varint (unat v))) v of
           Inl e \<Rightarrow> Inl e | Inr dAtA' \<Rightarrow> Inr (dAtA', offset - length (varint (unat v))))) =
      Inr (take (i - length (varint (unat v))) dAtA @ varint (unat v) @ drop i dAtA, i - length (varint (unat v)))"
    using varint_loop_correct [of "i - length (varint (unat v))" v dAtA] by simp
qed

section \<open>Fields\<close>

lemma unat_of_nat_small: "n < 2 ^ 64 \<Longrightarrow> unat (of_nat n :: 64 word) = n"
  by (simp add: unsigned_of_nat take_bit_eq_mod)

lemma length_string_bytes [simp]: "length (string_bytes s) = length s"
  by (simp add: string_bytes_def)

lemma writes_bytes:
  assumes "writes f bs" and "length bs < 2 ^ 64"
  shows "writes (and_then f (and_then (encodeVarintCls (of_nat (length bs))) (put_bytes [tag])))
    (enc_bytes tag bs)"
  using writes_then [OF assms(1) writes_then [OF writes_encodeVarintCls writes_put_bytes],
      of "of_nat (length bs)" "[tag]"]
    unat_of_nat_small [OF assms(2)] by (simp add: enc_bytes_def)

lemma writes_string [writer]: "length s < 2 ^ 64 \<Longrightarrow> writes (wr_string tag s) (enc_bytes tag (string_bytes s))"
  unfolding wr_string_def using writes_bytes [OF writes_put_bytes, of "string_bytes s" tag] by simp

text \<open>All strings short enough for the machine.\<close>

definition fits :: "string ptr \<Rightarrow> bool" where
  "fits f \<longleftrightarrow> (case f of None \<Rightarrow> True | Some s \<Rightarrow> length s < 2 ^ 64)"

lemma fits_simps [simp]: "fits None" "fits (Some s) = (length s < 2 ^ 64)"
  by (simp_all add: fits_def)

lemma writes_optional [writer]: "fits f \<Longrightarrow> writes (wr_optional tag f) (enc_string tag f)"
  by (cases f) (auto simp: wr_optional_def enc_string_def intro: writes_cong [OF writes_skip] writes_cong [OF writes_string])

lemma writes_required [writer]: "fits f \<Longrightarrow> f \<noteq> None \<Longrightarrow> writes (wr_required tag f) (enc_string tag f)"
  by (cases f) (auto simp: wr_required_def enc_string_def intro: writes_cong [OF writes_string])

lemma writes_varint [writer]: "writes (wr_varint tag v) (tag # varint (unat v))"
  unfolding wr_varint_def using writes_then [OF writes_encodeVarintCls writes_put_bytes, of v "[tag]"] by simp

lemma writes_sub:
  assumes "writes m e" and "length e < 2 ^ 64"
  shows "writes (wr_sub tag m) (enc_bytes tag e)"
proof (unfold writes_def, intro allI impI)
  fix dAtA :: "byte list" and i
  assume i: "length (enc_bytes tag e) \<le> i \<and> i \<le> length dAtA"
  then have e: "length e \<le> i" "i \<le> length dAtA" by (simp_all add: enc_bytes_def)
  have "wr_sub tag m (dAtA, i) =
      and_then m (and_then (encodeVarintCls (of_nat (length e))) (put_bytes [tag])) (dAtA, i)"
    using e by (simp add: wr_sub_def and_then_def writesD [OF assms(1) e])
  then show "wr_sub tag m (dAtA, i) = Inr (take (i - length (enc_bytes tag e)) dAtA @
      enc_bytes tag e @ drop i dAtA, i - length (enc_bytes tag e))"
    using writesD [OF writes_bytes [OF assms]] i by simp
qed

lemma writes_subs:
  assumes "\<And>m. m \<in> set ms \<Longrightarrow> writes (marshal m) (enc m) \<and> length (enc m) < 2 ^ 64"
  shows "writes (wr_subs tag marshal ms) (concat (map (\<lambda>m. enc_bytes tag (enc m)) ms))"
  using assms
proof (induction ms)
  case Nil
  show ?case by (auto intro: writes_cong [OF writes_skip])
next
  case (Cons m ms)
  have "writes (and_then (wr_subs tag marshal ms) (wr_sub tag (marshal m)))
      (enc_bytes tag (enc m) @ concat (map (\<lambda>m. enc_bytes tag (enc m)) ms))"
    using Cons by (intro writes_then writes_sub) simp_all
  then show ?case by (simp add: writes_cong)
qed

section \<open>Messages\<close>

text \<open>What \<open>Marshal\<close> asks of a message: no nil messages inside, required fields set.\<close>

definition valid_Content :: "Log_Content ptr \<Rightarrow> bool" where
  "valid_Content m \<longleftrightarrow> (case m of None \<Rightarrow> False | Some c \<Rightarrow> Content_Key c \<noteq> None \<and> Content_Value c \<noteq> None)"

definition valid_Tag :: "LogTag ptr \<Rightarrow> bool" where
  "valid_Tag m \<longleftrightarrow> (case m of None \<Rightarrow> False | Some c \<Rightarrow> Tag_Key c \<noteq> None \<and> Tag_Value c \<noteq> None)"

definition valid_Log :: "Log ptr \<Rightarrow> bool" where
  "valid_Log m \<longleftrightarrow> (case m of None \<Rightarrow> False | Some l \<Rightarrow>
     Log_Time l \<noteq> None \<and> list_all valid_Content (Log_Contents l))"

definition valid_Group :: "LogGroup ptr \<Rightarrow> bool" where
  "valid_Group m \<longleftrightarrow> (case m of None \<Rightarrow> False | Some g \<Rightarrow>
     list_all valid_Log (Group_Logs g) \<and> list_all valid_Tag (Group_LogTags g))"

definition valid_GroupList :: "LogGroupList ptr \<Rightarrow> bool" where
  "valid_GroupList m \<longleftrightarrow> (case m of None \<Rightarrow> False | Some g \<Rightarrow> list_all valid_Group (List_LogGroupList g))"

lemma fits_enc: "length (enc_string tag f) < 2 ^ 64 \<Longrightarrow> fits f"
  by (cases f) (auto simp: enc_string_def enc_bytes_def)

lemma length_member_le: "x \<in> set xs \<Longrightarrow> length (f x) \<le> length (concat (map f xs))"
  by (induction xs) auto

lemma sub_small:
  "length (concat (map (\<lambda>m. enc_bytes tag (enc m)) ms)) < 2 ^ 64 \<Longrightarrow> m \<in> set ms \<Longrightarrow> length (enc m) < 2 ^ 64"
  using length_member_le [of m ms "\<lambda>m. enc_bytes tag (enc m)"] by (simp add: enc_bytes_def)

lemma writes_Content:
  assumes "valid_Content m" and "length (enc_Content m) < 2 ^ 64"
  shows "writes (Log_Content_MarshalToSizedBuffer m) (enc_Content m)"
proof -
  obtain c where m: "m = Some c" and req: "Content_Key c \<noteq> None" "Content_Value c \<noteq> None"
    using assms(1) by (auto simp: valid_Content_def split: option.splits)
  have "fits (Content_Key c)" "fits (Content_Value c)"
    using assms(2) fits_enc [of 10 "Content_Key c"] fits_enc [of 18 "Content_Value c"]
    by (simp_all add: enc_Content_def m)
  then have "writes (and_then (put_bytes (Content_XXX_unrecognized c))
       (and_then (wr_required 18 (Content_Value c)) (wr_required 10 (Content_Key c)))) (enc_Content m)"
    using writes_then [OF writes_put_bytes writes_then [OF writes_required writes_required]] req
    by (simp add: enc_Content_def m)
  then show ?thesis by (rule writes_cong) (simp add: Log_Content_MarshalToSizedBuffer_def m)
qed

lemma writes_Tag:
  assumes "valid_Tag m" and "length (enc_Tag m) < 2 ^ 64"
  shows "writes (LogTag_MarshalToSizedBuffer m) (enc_Tag m)"
proof -
  obtain c where m: "m = Some c" and req: "Tag_Key c \<noteq> None" "Tag_Value c \<noteq> None"
    using assms(1) by (auto simp: valid_Tag_def split: option.splits)
  have "fits (Tag_Key c)" "fits (Tag_Value c)"
    using assms(2) fits_enc [of 10 "Tag_Key c"] fits_enc [of 18 "Tag_Value c"]
    by (simp_all add: enc_Tag_def m)
  then have "writes (and_then (put_bytes (Tag_XXX_unrecognized c))
       (and_then (wr_required 18 (Tag_Value c)) (wr_required 10 (Tag_Key c)))) (enc_Tag m)"
    using writes_then [OF writes_put_bytes writes_then [OF writes_required writes_required]] req
    by (simp add: enc_Tag_def m)
  then show ?thesis by (rule writes_cong) (simp add: LogTag_MarshalToSizedBuffer_def m)
qed

lemma writes_varint_field:
  "writes (\<lambda>w. case f of None \<Rightarrow> Inr w | Some v \<Rightarrow> wr_varint tag v w) (enc_varint tag f)"
  by (cases f) (auto simp: enc_varint_def intro: writes_cong [OF writes_skip] writes_cong [OF writes_varint])

lemma writes_Log:
  assumes "valid_Log m" and "length (enc_Log m) < 2 ^ 64"
  shows "writes (Log_MarshalToSizedBuffer m) (enc_Log m)"
proof -
  obtain l t where m: "m = Some l" and t: "Log_Time l = Some t" and cs: "list_all valid_Content (Log_Contents l)"
    using assms(1) by (auto simp: valid_Log_def split: option.splits)
  have small: "length (concat (map (\<lambda>c. enc_bytes 18 (enc_Content c)) (Log_Contents l))) < 2 ^ 64"
    using assms(2) by (simp add: enc_Log_def m)
  have subs: "writes (wr_subs 18 Log_Content_MarshalToSizedBuffer (Log_Contents l))
      (concat (map (\<lambda>c. enc_bytes 18 (enc_Content c)) (Log_Contents l)))"
    using cs sub_small [OF small] by (intro writes_subs conjI writes_Content) (auto simp: list_all_iff)
  have "writes (\<lambda>w. case Log_Time l of None \<Rightarrow> Inl required_not_set | Some v \<Rightarrow> wr_varint 8 v w)
      (enc_varint 8 (Log_Time l))"
    by (simp add: t enc_varint_def writes_cong [OF writes_varint])
  from writes_then [OF writes_put_bytes writes_then [OF writes_varint_field writes_then [OF subs this]]]
  show ?thesis by (rule_tac writes_cong) (simp_all add: Log_MarshalToSizedBuffer_def m enc_Log_def)
qed

lemma writes_Group:
  assumes "valid_Group m" and "length (enc_Group m) < 2 ^ 64"
  shows "writes (LogGroup_MarshalToSizedBuffer m) (enc_Group m)"
proof -
  obtain g where m: "m = Some g" and v: "list_all valid_Log (Group_Logs g)" "list_all valid_Tag (Group_LogTags g)"
    using assms(1) by (auto simp: valid_Group_def split: option.splits)
  have fits: "fits (Group_ContextFlow g)" "fits (Group_Filename g)" "fits (Group_Source g)" "fits (Group_Hostname g)"
    using assms(2) fits_enc [of 18 "Group_ContextFlow g"] fits_enc [of 26 "Group_Filename g"]
      fits_enc [of 34 "Group_Source g"] fits_enc [of 50 "Group_Hostname g"]
    by (simp_all add: enc_Group_def m)
  have small: "length (concat (map (\<lambda>l. enc_bytes 10 (enc_Log l)) (Group_Logs g))) < 2 ^ 64"
    "length (concat (map (\<lambda>t. enc_bytes 42 (enc_Tag t)) (Group_LogTags g))) < 2 ^ 64"
    using assms(2) by (simp_all add: enc_Group_def m)
  have logs: "writes (wr_subs 10 Log_MarshalToSizedBuffer (Group_Logs g))
      (concat (map (\<lambda>l. enc_bytes 10 (enc_Log l)) (Group_Logs g)))"
    using v(1) sub_small [OF small(1)] by (intro writes_subs conjI writes_Log) (auto simp: list_all_iff)
  have tags: "writes (wr_subs 42 LogTag_MarshalToSizedBuffer (Group_LogTags g))
      (concat (map (\<lambda>t. enc_bytes 42 (enc_Tag t)) (Group_LogTags g)))"
    using v(2) sub_small [OF small(2)] by (intro writes_subs conjI writes_Tag) (auto simp: list_all_iff)
  note all = writes_then [OF writes_put_bytes [of "Group_XXX_unrecognized g"]
      writes_then [OF writes_optional [OF fits(4), of 50] writes_then [OF tags
        writes_then [OF writes_optional [OF fits(3), of 34] writes_then [OF writes_optional [OF fits(2), of 26]
          writes_then [OF writes_optional [OF fits(1), of 18] logs]]]]]]
  have "writes (LogGroup_MarshalToSizedBuffer (Some g))
      (((((((concat (map (\<lambda>l. enc_bytes 10 (enc_Log l)) (Group_Logs g)) @ enc_string 18 (Group_ContextFlow g)) @
        enc_string 26 (Group_Filename g)) @ enc_string 34 (Group_Source g)) @
        concat (map (\<lambda>t. enc_bytes 42 (enc_Tag t)) (Group_LogTags g))) @
        enc_string 50 (Group_Hostname g)) @ Group_XXX_unrecognized g))"
    by (rule writes_cong [OF all]) (simp add: LogGroup_MarshalToSizedBuffer_def)
  then show ?thesis by (simp add: enc_Group_def m)
qed

lemma writes_GroupList:
  assumes "valid_GroupList m" and "length (enc_GroupList m) < 2 ^ 64"
  shows "writes (LogGroupList_MarshalToSizedBuffer m) (enc_GroupList m)"
proof -
  obtain g where m: "m = Some g" and v: "list_all valid_Group (List_LogGroupList g)"
    using assms(1) by (auto simp: valid_GroupList_def split: option.splits)
  have small: "length (concat (map (\<lambda>x. enc_bytes 10 (enc_Group x)) (List_LogGroupList g))) < 2 ^ 64"
    using assms(2) by (simp add: enc_GroupList_def m)
  have groups: "writes (wr_subs 10 LogGroup_MarshalToSizedBuffer (List_LogGroupList g))
      (concat (map (\<lambda>x. enc_bytes 10 (enc_Group x)) (List_LogGroupList g)))"
    using v sub_small [OF small] by (intro writes_subs conjI writes_Group) (auto simp: list_all_iff)
  show ?thesis
    using writes_then [OF writes_put_bytes groups, of "List_XXX_unrecognized g"]
    by (simp add: enc_GroupList_def m LogGroupList_MarshalToSizedBuffer_def writes_cong)
qed

section \<open>Sizes\<close>

lemma length_enc_bytes: "length bs < 2 ^ 64 \<Longrightarrow> length (enc_bytes tag bs) = size_delimited (length bs)"
  by (simp add: enc_bytes_def size_delimited_def sovCls_length unat_of_nat_small)

lemma length_enc_string: "fits f \<Longrightarrow> length (enc_string tag f) = size_string_field f"
  by (cases f) (simp_all add: enc_string_def size_string_field_def length_enc_bytes)

lemma length_enc_varint: "length (enc_varint tag f) = size_varint_field f"
  by (cases f) (simp_all add: enc_varint_def size_varint_field_def sovCls_length)

lemma length_subs:
  assumes "length (concat (map (\<lambda>m. enc_bytes tag (enc m)) ms)) < 2 ^ 64"
    and "\<And>m. length (enc m) < 2 ^ 64 \<Longrightarrow> length (enc m) = sz m"
  shows "length (concat (map (\<lambda>m. enc_bytes tag (enc m)) ms)) = (\<Sum>m\<leftarrow>ms. size_delimited (sz m))"
  using assms(1)
proof (induction ms)
  case (Cons a ms)
  have a: "length (enc a) < 2 ^ 64" by (rule sub_small [OF Cons.prems]) simp
  have "length (concat (map (\<lambda>m. enc_bytes tag (enc m)) ms)) < 2 ^ 64" using Cons.prems by simp
  from Cons.IH [OF this] show ?case
    using length_enc_bytes [OF a, of tag] assms(2) [OF a] by simp
qed simp

lemma Content_Size: "length (enc_Content m) < 2 ^ 64 \<Longrightarrow> length (enc_Content m) = Log_Content_Size m"
  using fits_enc [of 10 "Content_Key (the m)"] fits_enc [of 18 "Content_Value (the m)"]
  by (cases m) (simp_all add: enc_Content_def Log_Content_Size_def length_enc_string)

lemma Tag_Size: "length (enc_Tag m) < 2 ^ 64 \<Longrightarrow> length (enc_Tag m) = LogTag_Size m"
  using fits_enc [of 10 "Tag_Key (the m)"] fits_enc [of 18 "Tag_Value (the m)"]
  by (cases m) (simp_all add: enc_Tag_def LogTag_Size_def length_enc_string)

lemma Log_Size_length:
  assumes "length (enc_Log m) < 2 ^ 64" shows "length (enc_Log m) = Log_Size m"
proof (cases m)
  case (Some l)
  have "length (concat (map (\<lambda>c. enc_bytes 18 (enc_Content c)) (Log_Contents l))) < 2 ^ 64"
    using assms by (simp add: enc_Log_def Some)
  from length_subs [OF this Content_Size]
  show ?thesis by (simp add: enc_Log_def Some Log_Size_def length_enc_varint)
qed (simp add: enc_Log_def Log_Size_def)

lemma Group_Size_length:
  assumes "length (enc_Group m) < 2 ^ 64" shows "length (enc_Group m) = LogGroup_Size m"
proof (cases m)
  case (Some g)
  have small: "length (concat (map (\<lambda>l. enc_bytes 10 (enc_Log l)) (Group_Logs g))) < 2 ^ 64"
    "length (concat (map (\<lambda>t. enc_bytes 42 (enc_Tag t)) (Group_LogTags g))) < 2 ^ 64"
    using assms by (simp_all add: enc_Group_def Some)
  have fits: "fits (Group_ContextFlow g)" "fits (Group_Filename g)" "fits (Group_Source g)" "fits (Group_Hostname g)"
    using assms fits_enc [of 18 "Group_ContextFlow g"] fits_enc [of 26 "Group_Filename g"]
      fits_enc [of 34 "Group_Source g"] fits_enc [of 50 "Group_Hostname g"]
    by (simp_all add: enc_Group_def Some)
  show ?thesis
    using length_subs [OF small(1) Log_Size_length] length_subs [OF small(2) Tag_Size] fits
    by (simp add: enc_Group_def Some LogGroup_Size_def length_enc_string)
qed (simp add: enc_Group_def LogGroup_Size_def)

lemma GroupList_Size_length:
  assumes "length (enc_GroupList m) < 2 ^ 64" shows "length (enc_GroupList m) = LogGroupList_Size m"
proof (cases m)
  case (Some g)
  have "length (concat (map (\<lambda>x. enc_bytes 10 (enc_Group x)) (List_LogGroupList g))) < 2 ^ 64"
    using assms by (simp add: enc_GroupList_def Some)
  from length_subs [OF this Group_Size_length]
  show ?thesis by (simp add: enc_GroupList_def Some LogGroupList_Size_def)
qed (simp add: enc_GroupList_def LogGroupList_Size_def)

lemma Marshal_with_writes:
  assumes "writes f e" and "length e = sz" shows "Marshal_with sz f = Inr e"
  using writesD [OF assms(1), of sz "replicate sz 0"] assms(2) by (simp add: Marshal_with_def)

section \<open>Errors\<close>

lemma and_then_Inr [simp]: "and_then f g a = Inr c \<longleftrightarrow> (\<exists>b. f a = Inr b \<and> g b = Inr c)"
  by (auto simp: and_then_def split: sum.splits)

lemma wr_subs_valid:
  assumes "\<And>m w w'. marshal m w = Inr w' \<Longrightarrow> P m"
  shows "wr_subs tag marshal ms w = Inr w' \<Longrightarrow> list_all P ms"
proof (induction ms arbitrary: w')
  case (Cons m ms)
  then obtain b where "wr_subs tag marshal ms w = Inr b" "wr_sub tag (marshal m) b = Inr w'" by auto
  moreover from this(2) obtain u where "marshal m b = Inr u"
    by (cases "marshal m b") (simp_all add: wr_sub_def)
  ultimately show ?case using Cons.IH assms by simp
qed simp

lemma Content_valid: "Log_Content_MarshalToSizedBuffer m w = Inr w' \<Longrightarrow> valid_Content m"
  by (auto simp: Log_Content_MarshalToSizedBuffer_def valid_Content_def wr_required_def split: option.splits)

lemma Contents_valid: "wr_subs tag Log_Content_MarshalToSizedBuffer ms w = Inr w' \<Longrightarrow> list_all valid_Content ms"
  using wr_subs_valid [of Log_Content_MarshalToSizedBuffer valid_Content] Content_valid by blast

lemma Tag_valid: "LogTag_MarshalToSizedBuffer m w = Inr w' \<Longrightarrow> valid_Tag m"
  by (auto simp: LogTag_MarshalToSizedBuffer_def valid_Tag_def wr_required_def split: option.splits)

lemma Tags_valid: "wr_subs tag LogTag_MarshalToSizedBuffer ms w = Inr w' \<Longrightarrow> list_all valid_Tag ms"
  using wr_subs_valid [of LogTag_MarshalToSizedBuffer valid_Tag] Tag_valid by blast

lemma Log_valid: "Log_MarshalToSizedBuffer m w = Inr w' \<Longrightarrow> valid_Log m"
  by (auto simp: Log_MarshalToSizedBuffer_def valid_Log_def split: option.splits
      dest: Contents_valid)

lemma Logs_valid: "wr_subs tag Log_MarshalToSizedBuffer ms w = Inr w' \<Longrightarrow> list_all valid_Log ms"
  using wr_subs_valid [of Log_MarshalToSizedBuffer valid_Log] Log_valid by blast

lemma Group_valid: "LogGroup_MarshalToSizedBuffer m w = Inr w' \<Longrightarrow> valid_Group m"
  by (auto simp: LogGroup_MarshalToSizedBuffer_def valid_Group_def split: option.splits
      dest: Logs_valid
        Tags_valid)

lemma Groups_valid: "wr_subs tag LogGroup_MarshalToSizedBuffer ms w = Inr w' \<Longrightarrow> list_all valid_Group ms"
  using wr_subs_valid [of LogGroup_MarshalToSizedBuffer valid_Group] Group_valid by blast

lemma GroupList_valid: "LogGroupList_MarshalToSizedBuffer m w = Inr w' \<Longrightarrow> valid_GroupList m"
  by (auto simp: LogGroupList_MarshalToSizedBuffer_def valid_GroupList_def split: option.splits
      dest: Groups_valid)

section \<open>The contract of a message type\<close>

text \<open>
  What \<open>Marshal\<close> needs of a message type: a complete message is written at the end of the
  buffer as its wire format, its size is known beforehand, and an incomplete one is refused.
\<close>

locale message_writer =
  fixes message_size :: "'m \<Rightarrow> nat" and marshal :: "'m \<Rightarrow> wbuf \<Rightarrow> wbuf outcome"
    and enc :: "'m \<Rightarrow> byte list" and valid :: "'m \<Rightarrow> bool"
  assumes writes_valid: "valid m \<Longrightarrow> length (enc m) < 2 ^ 64 \<Longrightarrow> writes (marshal m) (enc m)"
    and size_enc: "length (enc m) < 2 ^ 64 \<Longrightarrow> length (enc m) = message_size m"
    and refuses: "marshal m w = Inr w' \<Longrightarrow> valid m"
begin

lemma Marshal_valid:
  "valid m \<Longrightarrow> length (enc m) < 2 ^ 64 \<Longrightarrow> Marshal_with (message_size m) (marshal m) = Inr (enc m)"
  by (rule Marshal_with_writes [OF writes_valid size_enc])

lemma Marshal_invalid: "\<not> valid m \<Longrightarrow> \<exists>e. Marshal_with (message_size m) (marshal m) = Inl e"
  using refuses [of m] by (auto simp: Marshal_with_def split: sum.splits)

lemma Marshal_correct:
  assumes "length (enc m) < 2 ^ 64"
  shows "case Marshal_with (message_size m) (marshal m) of
      Inr bs \<Rightarrow> valid m \<and> bs = enc m \<and> length bs = message_size m
    | Inl e \<Rightarrow> \<not> valid m"
proof (cases "valid m")
  case True
  then show ?thesis using Marshal_valid [OF True assms] size_enc [OF assms] by simp
next
  case False
  then show ?thesis using Marshal_invalid [OF False] by auto
qed

end

interpretation content_writer: message_writer Log_Content_Size Log_Content_MarshalToSizedBuffer enc_Content valid_Content
  by unfold_locales (rule writes_Content Content_Size Content_valid; assumption)+

interpretation tag_writer: message_writer LogTag_Size LogTag_MarshalToSizedBuffer enc_Tag valid_Tag
  by unfold_locales (rule writes_Tag Tag_Size Tag_valid; assumption)+

interpretation log_writer: message_writer Log_Size Log_MarshalToSizedBuffer enc_Log valid_Log
  by unfold_locales (rule writes_Log Log_Size_length Log_valid; assumption)+

interpretation group_writer: message_writer LogGroup_Size LogGroup_MarshalToSizedBuffer enc_Group valid_Group
  by unfold_locales (rule writes_Group Group_Size_length Group_valid; assumption)+

interpretation list_writer:
  message_writer LogGroupList_Size LogGroupList_MarshalToSizedBuffer enc_GroupList valid_GroupList
  by unfold_locales (rule writes_GroupList GroupList_Size_length GroupList_valid; assumption)+

text \<open>The same for a message sent on its own.\<close>

lemmas part_Marshal_correct =
  content_writer.Marshal_correct [folded Log_Content_Marshal_def]
  tag_writer.Marshal_correct [folded LogTag_Marshal_def]
  log_writer.Marshal_correct [folded Log_Marshal_def]
  group_writer.Marshal_correct [folded LogGroup_Marshal_def]

text \<open>
  C28: \<open>Marshal\<close> is the protobuf encoding.  For every message that fits into memory, the
  buffer that is filled from its end holds afterwards exactly the wire format written front
  to back, no write leaves the buffer, and its length is what \<open>Size ()\<close> computed beforehand;
  and \<open>Marshal\<close> fails exactly when a required field is missing or a message inside is nil.
\<close>

theorem LogGroupList_Marshal_correct:
  assumes "length (enc_GroupList m) < 2 ^ 64"
  shows "case LogGroupList_Marshal m of
      Inr bs \<Rightarrow> valid_GroupList m \<and> bs = enc_GroupList m \<and> length bs = LogGroupList_Size m
    | Inl e \<Rightarrow> \<not> valid_GroupList m"
  unfolding LogGroupList_Marshal_def by (rule list_writer.Marshal_correct [OF assms])

definition ex_message :: "LogGroupList ptr" where
  "ex_message = Some \<lparr>List_LogGroupList = [Some \<lparr>Group_Logs =
     [Some \<lparr>Log_Time = Some 300, Log_Contents = [Some \<lparr>Content_Key = Some ''k'', Content_Value = Some ''v'',
        Content_XXX_unrecognized = []\<rparr>], Log_CollectTime = None, Log_XXX_unrecognized = []\<rparr>],
     Group_ContextFlow = None, Group_Filename = None, Group_Source = None, Group_LogTags = [],
     Group_Hostname = None, Group_XXX_unrecognized = []\<rparr>], List_XXX_unrecognized = []\<rparr>"

lemma ex_message_bytes: "enc_GroupList ex_message =
    [10, 13, 10, 11, 8, 172, 2, 18, 6, 10, 1, 107, 18, 1, 118]"
  by (simp add: ex_message_def enc_GroupList_def enc_Group_def enc_Log_def enc_Content_def enc_string_def
      enc_varint_def enc_bytes_def string_bytes_def varint_large)

theorem LogGroupList_Marshal_correct_witness:
  "LogGroupList_Marshal ex_message = Inr [10, 13, 10, 11, 8, 172, 2, 18, 6, 10, 1, 107, 18, 1, 118]"
proof -
  have "length (enc_GroupList ex_message) < 2 ^ 64" by (simp add: ex_message_bytes)
  from LogGroupList_Marshal_correct [OF this] show ?thesis
    by (auto simp: ex_message_bytes split: sum.splits)
      (simp add: ex_message_def valid_GroupList_def valid_Group_def valid_Log_def valid_Content_def)
qed

end
