(* ===== verification/Cls_Decode.thy ===== *)
theory Cls_Decode
  imports Cls_Encode Utils
begin

text \<open>
  The \<open>Unmarshal\<close> methods of \<^verbatim>\<open>cls.pb.go\<close>.  The five methods are the same loop
  over the fields of a message, which differ in the fields they know: the loop is written
  once, and a schema names the fields.
\<close>

section \<open>Reading\<close>

definition int_overflow :: failure where
  "int_overflow = Errorf ''proto: integer overflow''"

definition unexpected_eof :: failure where
  "unexpected_eof = Errorf ''unexpected EOF''"

definition invalid_length :: failure where
  "invalid_length = Errorf ''proto: negative length found during unmarshaling''"

text \<open>The loop that reads a varint at \<open>i\<close>: the value, and the index behind it.\<close>

function read_varint :: "byte list \<Rightarrow> nat \<Rightarrow> nat \<Rightarrow> 64 word \<Rightarrow> (64 word \<times> nat) outcome" where
  "read_varint dAtA i shift v =
     (if 64 \<le> shift then Inl int_overflow
      else if length dAtA \<le> i then Inl unexpected_eof
      else
        let b = dAtA ! i; v' = v OR push_bit shift (ucast (b AND 127)) in
        if b < 128 then Inr (v', i + 1) else read_varint dAtA (i + 1) (shift + 7) v')"
  by auto

termination read_varint by (relation "measure (\<lambda>(dAtA, i, shift, v). 64 - shift)") auto

declare read_varint.simps [simp del]

text \<open>
  Indices are sums of two numbers below \<open>2 ^ 63\<close>: as an \<open>int\<close> of Go, such a sum is
  negative exactly when it is \<open>2 ^ 63\<close> or more.
\<close>

definition negative_index :: "nat \<Rightarrow> bool" where
  "negative_index i \<longleftrightarrow> 9223372036854775808 \<le> i"

text \<open>A length and the bytes it covers, with the index behind them.\<close>

definition read_bytes :: "byte list \<Rightarrow> nat \<Rightarrow> (byte list \<times> nat) outcome" where
  "read_bytes dAtA i =
     (case read_varint dAtA i 0 0 of
        Inl e \<Rightarrow> Inl e
      | Inr (v, j) \<Rightarrow>
          let msglen = sint v; postIndex = j + nat msglen in
          if msglen < 0 then Inl invalid_length
          else if negative_index postIndex then Inl invalid_length
          else if length dAtA < postIndex then Inl unexpected_eof
          else Inr (take (nat msglen) (drop j dAtA), postIndex))"

lemma read_varint_index: "read_varint dAtA i shift v = Inr (w, j) \<Longrightarrow> i < j"
proof (induction dAtA i shift v rule: read_varint.induct)
  case (1 dAtA i shift v)
  from 1(2) show ?case
    by (subst (asm) read_varint.simps) (auto simp: Let_def split: if_splits dest!: 1(1) [OF _ _ refl refl])
qed

section \<open>Unknown fields\<close>

text \<open>
  \<open>skipCls\<close> measures the field at the start of the data, a group with all it contains.  An
  index that leaves \<open>int\<close> is negative.
\<close>

definition skip_value :: "byte list \<Rightarrow> nat \<Rightarrow> nat \<Rightarrow> nat \<Rightarrow> (nat \<times> nat) outcome" where
  "skip_value dAtA wireType i depth =
     (if wireType = 0 then (case read_varint dAtA i 0 0 of Inl e \<Rightarrow> Inl e | Inr (_, j) \<Rightarrow> Inr (j, depth))
      else if wireType = 1 then Inr (i + 8, depth)
      else if wireType = 2 then
        (case read_varint dAtA i 0 0 of
           Inl e \<Rightarrow> Inl e
         | Inr (v, j) \<Rightarrow> if sint v < 0 then Inl invalid_length else Inr (j + nat (sint v), depth))
      else if wireType = 3 then Inr (i, depth + 1)
      else if wireType = 4 then
        (if depth = 0 then Inl (Errorf ''proto: unexpected end of group'') else Inr (i, depth - 1))
      else if wireType = 5 then Inr (i + 4, depth)
      else Inl (Errorf (''proto: illegal wireType '' @ decimal (int wireType))))"

lemma skip_value_index: "skip_value dAtA wt i depth = Inr (j, depth') \<Longrightarrow> i \<le> j"
  by (auto simp: skip_value_def split: if_splits sum.splits dest: read_varint_index)

function skip_loop :: "byte list \<Rightarrow> nat \<Rightarrow> nat \<Rightarrow> nat outcome" where
  "skip_loop dAtA i depth =
     (if length dAtA \<le> i then Inl unexpected_eof
      else case read_varint dAtA i 0 0 of
        Inl e \<Rightarrow> Inl e
      | Inr (wire, j) \<Rightarrow>
          (case skip_value dAtA (unat (wire AND 7)) j depth of
             Inl e \<Rightarrow> Inl e
           | Inr (k, depth') \<Rightarrow>
               if negative_index k then Inl invalid_length
               else if depth' = 0 then Inr k else skip_loop dAtA k depth'))"
  by auto

termination skip_loop
  by (relation "measure (\<lambda>(dAtA, i, depth). length dAtA - i)")
    (fastforce dest: read_varint_index skip_value_index)+

declare skip_loop.simps [simp del]

definition skipCls :: "byte list \<Rightarrow> nat outcome" where
  "skipCls dAtA = skip_loop dAtA 0 0"

lemma skip_loop_index: "skip_loop dAtA i depth = Inr n \<Longrightarrow> i < n"
proof (induction dAtA i depth rule: skip_loop.induct)
  case (1 dAtA i depth)
  from 1(2) show ?case
    by (subst (asm) skip_loop.simps)
      (fastforce split: if_splits sum.splits dest: read_varint_index skip_value_index 1(1))
qed

section \<open>The loop over the fields\<close>

text \<open>A field the message knows, with its name and what its value does to the message.\<close>

datatype 'm field =
    VarintField string "64 word \<Rightarrow> 'm \<Rightarrow> 'm"
  | BytesField string "byte list \<Rightarrow> 'm \<Rightarrow> 'm outcome"

record 'm schema =
  sch_name :: string
  sch_field :: "int \<Rightarrow> 'm field option"
  sch_unknown :: "byte list \<Rightarrow> 'm \<Rightarrow> 'm"

definition wrong_wiretype :: "nat \<Rightarrow> string \<Rightarrow> failure" where
  "wrong_wiretype wt name = Errorf (''proto: wrong wireType = '' @ decimal (int wt) @ '' for field '' @ name)"

definition unknown_field :: "'m schema \<Rightarrow> byte list \<Rightarrow> nat \<Rightarrow> 'm \<Rightarrow> ('m \<times> nat) outcome" where
  "unknown_field s dAtA i m =
     (case skipCls (drop i dAtA) of
        Inl e \<Rightarrow> Inl e
      | Inr skippy \<Rightarrow>
          if negative_index (i + skippy) then Inl invalid_length
          else if length dAtA < i + skippy then Inl unexpected_eof
          else Inr (sch_unknown s (take skippy (drop i dAtA)) m, i + skippy))"

definition read_field :: "'m schema \<Rightarrow> byte list \<Rightarrow> nat \<Rightarrow> 'm \<Rightarrow> ('m \<times> nat) outcome" where
  "read_field s dAtA i m =
     (case read_varint dAtA i 0 0 of
        Inl e \<Rightarrow> Inl e
      | Inr (wire, j) \<Rightarrow>
          let fieldNum = sint (ucast (drop_bit 3 wire) :: 32 word); wireType = unat (wire AND 7) in
          if wireType = 4 then Inl (Errorf (''proto: '' @ sch_name s @ '': wiretype end group for non-group''))
          else if fieldNum \<le> 0 then Inl (Errorf (''proto: '' @ sch_name s @ '': illegal tag '' @ decimal fieldNum @
            '' (wire type '' @ decimal (int (unat wire)) @ '')''))
          else (case sch_field s fieldNum of
              None \<Rightarrow> unknown_field s dAtA i m
            | Some (VarintField name f) \<Rightarrow>
                if wireType \<noteq> 0 then Inl (wrong_wiretype wireType name)
                else (case read_varint dAtA j 0 0 of
                    Inl e \<Rightarrow> Inl e
                  | Inr (v, k) \<Rightarrow> Inr (f v m, k))
            | Some (BytesField name f) \<Rightarrow>
                if wireType \<noteq> 2 then Inl (wrong_wiretype wireType name)
                else (case read_bytes dAtA j of
                    Inl e \<Rightarrow> Inl e
                  | Inr (bs, k) \<Rightarrow> (case f bs m of Inl e \<Rightarrow> Inl e | Inr m' \<Rightarrow> Inr (m', k)))))"

lemma read_bytes_index: "read_bytes dAtA i = Inr (bs, k) \<Longrightarrow> i < k"
  by (auto simp: read_bytes_def Let_def split: if_splits sum.splits dest!: read_varint_index)

lemma read_field_index: "read_field s dAtA i m = Inr (m', k) \<Longrightarrow> i < k"
  by (auto simp: read_field_def unknown_field_def skipCls_def Let_def split: if_splits sum.splits option.splits field.splits
      dest!: read_varint_index read_bytes_index skip_loop_index)

function fields_loop :: "'m schema \<Rightarrow> byte list \<Rightarrow> nat \<Rightarrow> 'm \<Rightarrow> 'm outcome" where
  "fields_loop s dAtA i m =
     (if i < length dAtA then
        (case read_field s dAtA i m of Inl e \<Rightarrow> Inl e | Inr (m', k) \<Rightarrow> fields_loop s dAtA k m')
      else if length dAtA < i then Inl unexpected_eof
      else Inr m)"
  by auto

termination fields_loop
  by (relation "measure (\<lambda>(s, dAtA, i, m). length dAtA - i)") (auto dest!: read_field_index)

declare fields_loop.simps [simp del]

section \<open>The messages\<close>

text \<open>
  A message being filled, with its word \<open>hasFields\<close> of the required fields seen.  Reading
  into a fresh message, \<open>Unmarshal\<close> answers the message or its error.
\<close>

type_synonym 'm filling = "'m \<times> 64 word"

definition required :: "64 word \<Rightarrow> 'm filling outcome \<Rightarrow> 'm outcome" where
  "required need r = (case r of
       Inl e \<Rightarrow> Inl e
     | Inr (m, hasFields) \<Rightarrow> if hasFields AND need = need then Inr m else Inl required_not_set)"

text \<open>\<open>string (dAtA[iNdEx:postIndex])\<close>.\<close>

definition bytes_string :: "byte list \<Rightarrow> string" where
  "bytes_string bs = map (\<lambda>b. char_of (unat b)) bs"

definition Content_schema :: "Log_Content filling schema" where
  "Content_schema = \<lparr>sch_name = ''Content'',
     sch_field = (\<lambda>n.
       if n = 1 then Some (BytesField ''Key'' (\<lambda>bs (m, has).
         Inr (m\<lparr>Content_Key := Some (bytes_string bs)\<rparr>, has OR 1)))
       else if n = 2 then Some (BytesField ''Value'' (\<lambda>bs (m, has).
         Inr (m\<lparr>Content_Value := Some (bytes_string bs)\<rparr>, has OR 2)))
       else None),
     sch_unknown = (\<lambda>bs (m, has). (m\<lparr>Content_XXX_unrecognized := Content_XXX_unrecognized m @ bs\<rparr>, has))\<rparr>"

definition empty_Content :: Log_Content where
  "empty_Content = \<lparr>Content_Key = None, Content_Value = None, Content_XXX_unrecognized = []\<rparr>"

definition Log_Content_Unmarshal :: "byte list \<Rightarrow> Log_Content outcome" where
  "Log_Content_Unmarshal dAtA = required 3 (fields_loop Content_schema dAtA 0 (empty_Content, 0))"

definition Tag_schema :: "LogTag filling schema" where
  "Tag_schema = \<lparr>sch_name = ''LogTag'',
     sch_field = (\<lambda>n.
       if n = 1 then Some (BytesField ''Key'' (\<lambda>bs (m, has).
         Inr (m\<lparr>Tag_Key := Some (bytes_string bs)\<rparr>, has OR 1)))
       else if n = 2 then Some (BytesField ''Value'' (\<lambda>bs (m, has).
         Inr (m\<lparr>Tag_Value := Some (bytes_string bs)\<rparr>, has OR 2)))
       else None),
     sch_unknown = (\<lambda>bs (m, has). (m\<lparr>Tag_XXX_unrecognized := Tag_XXX_unrecognized m @ bs\<rparr>, has))\<rparr>"

definition empty_Tag :: LogTag where
  "empty_Tag = \<lparr>Tag_Key = None, Tag_Value = None, Tag_XXX_unrecognized = []\<rparr>"

definition LogTag_Unmarshal :: "byte list \<Rightarrow> LogTag outcome" where
  "LogTag_Unmarshal dAtA = required 3 (fields_loop Tag_schema dAtA 0 (empty_Tag, 0))"

definition Log_schema :: "Log filling schema" where
  "Log_schema = \<lparr>sch_name = ''Log'',
     sch_field = (\<lambda>n.
       if n = 1 then Some (VarintField ''Time'' (\<lambda>v (m, has). (m\<lparr>Log_Time := Some v\<rparr>, has OR 1)))
       else if n = 2 then Some (BytesField ''Contents'' (\<lambda>bs (m, has).
         (case Log_Content_Unmarshal bs of
            Inl e \<Rightarrow> Inl e
          | Inr c \<Rightarrow> Inr (m\<lparr>Log_Contents := Log_Contents m @ [Some c]\<rparr>, has))))
       else if n = 3 then Some (VarintField ''CollectTime'' (\<lambda>v (m, has). (m\<lparr>Log_CollectTime := Some v\<rparr>, has)))
       else None),
     sch_unknown = (\<lambda>bs (m, has). (m\<lparr>Log_XXX_unrecognized := Log_XXX_unrecognized m @ bs\<rparr>, has))\<rparr>"

definition empty_Log :: Log where
  "empty_Log = \<lparr>Log_Time = None, Log_Contents = [], Log_CollectTime = None, Log_XXX_unrecognized = []\<rparr>"

definition Log_Unmarshal :: "byte list \<Rightarrow> Log outcome" where
  "Log_Unmarshal dAtA = required 1 (fields_loop Log_schema dAtA 0 (empty_Log, 0))"

definition Group_schema :: "LogGroup schema" where
  "Group_schema = \<lparr>sch_name = ''LogGroup'',
     sch_field = (\<lambda>n.
       if n = 1 then Some (BytesField ''Logs'' (\<lambda>bs m.
         (case Log_Unmarshal bs of
            Inl e \<Rightarrow> Inl e
          | Inr l \<Rightarrow> Inr (m\<lparr>Group_Logs := Group_Logs m @ [Some l]\<rparr>))))
       else if n = 2 then Some (BytesField ''ContextFlow'' (\<lambda>bs m. Inr (m\<lparr>Group_ContextFlow := Some (bytes_string bs)\<rparr>)))
       else if n = 3 then Some (BytesField ''Filename'' (\<lambda>bs m. Inr (m\<lparr>Group_Filename := Some (bytes_string bs)\<rparr>)))
       else if n = 4 then Some (BytesField ''Source'' (\<lambda>bs m. Inr (m\<lparr>Group_Source := Some (bytes_string bs)\<rparr>)))
       else if n = 5 then Some (BytesField ''LogTags'' (\<lambda>bs m.
         (case LogTag_Unmarshal bs of
            Inl e \<Rightarrow> Inl e
          | Inr t \<Rightarrow> Inr (m\<lparr>Group_LogTags := Group_LogTags m @ [Some t]\<rparr>))))
       else if n = 6 then Some (BytesField ''Hostname'' (\<lambda>bs m. Inr (m\<lparr>Group_Hostname := Some (bytes_string bs)\<rparr>)))
       else None),
     sch_unknown = (\<lambda>bs m. m\<lparr>Group_XXX_unrecognized := Group_XXX_unrecognized m @ bs\<rparr>)\<rparr>"

definition empty_Group :: LogGroup where
  "empty_Group = \<lparr>Group_Logs = [], Group_ContextFlow = None, Group_Filename = None, Group_Source = None,
     Group_LogTags = [], Group_Hostname = None, Group_XXX_unrecognized = []\<rparr>"

definition LogGroup_Unmarshal :: "byte list \<Rightarrow> LogGroup outcome" where
  "LogGroup_Unmarshal dAtA = fields_loop Group_schema dAtA 0 empty_Group"

definition GroupList_schema :: "LogGroupList schema" where
  "GroupList_schema = \<lparr>sch_name = ''LogGroupList'',
     sch_field = (\<lambda>n.
       if n = 1 then Some (BytesField ''LogGroupList'' (\<lambda>bs m.
         (case LogGroup_Unmarshal bs of
            Inl e \<Rightarrow> Inl e
          | Inr g \<Rightarrow> Inr (m\<lparr>List_LogGroupList := List_LogGroupList m @ [Some g]\<rparr>))))
       else None),
     sch_unknown = (\<lambda>bs m. m\<lparr>List_XXX_unrecognized := List_XXX_unrecognized m @ bs\<rparr>)\<rparr>"

definition empty_GroupList :: LogGroupList where
  "empty_GroupList = \<lparr>List_LogGroupList = [], List_XXX_unrecognized = []\<rparr>"

definition LogGroupList_Unmarshal :: "byte list \<Rightarrow> LogGroupList outcome" where
  "LogGroupList_Unmarshal dAtA = fields_loop GroupList_schema dAtA 0 empty_GroupList"

end
