(* ===== verification/Cls_Library.thy ===== *)
theory Cls_Library
  imports Cls_Encode_Correct Cls_Decode
begin

text \<open>
  What \<^verbatim>\<open>cls.pb.go\<close> offers the protobuf library and callers with a buffer of their own:
  \<open>MarshalTo\<close>, \<open>XXX_Marshal\<close>, \<open>XXX_Unmarshal\<close>, \<open>XXX_Size\<close> and \<open>Reset\<close> of every message.
  A slice is given by all the bytes of its capacity.
\<close>

section \<open>The shape of the methods\<close>

text \<open>\<open>m.MarshalToSizedBuffer (dAtA[:size])\<close>: the number of bytes, and the caller's buffer afterwards.\<close>

definition MarshalTo_with ::
    "nat \<Rightarrow> (wbuf \<Rightarrow> wbuf outcome) \<Rightarrow> byte list \<Rightarrow> (nat \<times> byte list) outcome" where
  "MarshalTo_with sz marshal dAtA =
     (if length dAtA < sz then Inl (Panic ''slice bounds out of range'')
      else case marshal (take sz dAtA, sz) of
        Inl e \<Rightarrow> Inl e
      | Inr (buf, i) \<Rightarrow> Inr (sz - i, buf @ drop sz dAtA))"

text \<open>
  \<open>XXX_Marshal\<close>: the library's own coder when the output has to be deterministic, else the
  message is written at the end of the whole capacity and the first \<open>n\<close> bytes are the answer.
\<close>

definition XXX_Marshal_with ::
    "(byte list \<Rightarrow> byte list outcome) \<Rightarrow> (wbuf \<Rightarrow> wbuf outcome) \<Rightarrow> byte list \<Rightarrow> bool \<Rightarrow> byte list outcome" where
  "XXX_Marshal_with info marshal b deterministic =
     (if deterministic then info b
      else case marshal (b, length b) of
        Inl e \<Rightarrow> Inl e
      | Inr (buf, i) \<Rightarrow> Inr (take (length b - i) buf))"

section \<open>The messages\<close>

definition Log_MarshalTo :: "Log ptr \<Rightarrow> byte list \<Rightarrow> (nat \<times> byte list) outcome" where
  "Log_MarshalTo m = MarshalTo_with (Log_Size m) (Log_MarshalToSizedBuffer m)"

definition Log_XXX_Marshal ::
    "(byte list \<Rightarrow> Log ptr \<Rightarrow> byte list outcome) \<Rightarrow> Log ptr \<Rightarrow> byte list \<Rightarrow> bool \<Rightarrow> byte list outcome" where
  "Log_XXX_Marshal info m = XXX_Marshal_with (\<lambda>b. info b m) (Log_MarshalToSizedBuffer m)"

definition Log_XXX_Unmarshal :: "byte list \<Rightarrow> Log outcome" where
  "Log_XXX_Unmarshal b = Log_Unmarshal b"

definition Log_XXX_Size :: "Log ptr \<Rightarrow> nat" where
  "Log_XXX_Size m = Log_Size m"

definition Log_Reset :: "Log \<Rightarrow> Log" where
  "Log_Reset m = empty_Log"

definition Log_Content_MarshalTo :: "Log_Content ptr \<Rightarrow> byte list \<Rightarrow> (nat \<times> byte list) outcome" where
  "Log_Content_MarshalTo m = MarshalTo_with (Log_Content_Size m) (Log_Content_MarshalToSizedBuffer m)"

definition Log_Content_XXX_Marshal ::
    "(byte list \<Rightarrow> Log_Content ptr \<Rightarrow> byte list outcome) \<Rightarrow> Log_Content ptr \<Rightarrow> byte list \<Rightarrow> bool \<Rightarrow> byte list outcome" where
  "Log_Content_XXX_Marshal info m = XXX_Marshal_with (\<lambda>b. info b m) (Log_Content_MarshalToSizedBuffer m)"

definition Log_Content_XXX_Unmarshal :: "byte list \<Rightarrow> Log_Content outcome" where
  "Log_Content_XXX_Unmarshal b = Log_Content_Unmarshal b"

definition Log_Content_XXX_Size :: "Log_Content ptr \<Rightarrow> nat" where
  "Log_Content_XXX_Size m = Log_Content_Size m"

definition Log_Content_Reset :: "Log_Content \<Rightarrow> Log_Content" where
  "Log_Content_Reset m = empty_Content"

definition LogTag_MarshalTo :: "LogTag ptr \<Rightarrow> byte list \<Rightarrow> (nat \<times> byte list) outcome" where
  "LogTag_MarshalTo m = MarshalTo_with (LogTag_Size m) (LogTag_MarshalToSizedBuffer m)"

definition LogTag_XXX_Marshal ::
    "(byte list \<Rightarrow> LogTag ptr \<Rightarrow> byte list outcome) \<Rightarrow> LogTag ptr \<Rightarrow> byte list \<Rightarrow> bool \<Rightarrow> byte list outcome" where
  "LogTag_XXX_Marshal info m = XXX_Marshal_with (\<lambda>b. info b m) (LogTag_MarshalToSizedBuffer m)"

definition LogTag_XXX_Unmarshal :: "byte list \<Rightarrow> LogTag outcome" where
  "LogTag_XXX_Unmarshal b = LogTag_Unmarshal b"

definition LogTag_XXX_Size :: "LogTag ptr \<Rightarrow> nat" where
  "LogTag_XXX_Size m = LogTag_Size m"

definition LogTag_Reset :: "LogTag \<Rightarrow> LogTag" where
  "LogTag_Reset m = empty_Tag"

definition LogGroup_MarshalTo :: "LogGroup ptr \<Rightarrow> byte list \<Rightarrow> (nat \<times> byte list) outcome" where
  "LogGroup_MarshalTo m = MarshalTo_with (LogGroup_Size m) (LogGroup_MarshalToSizedBuffer m)"

definition LogGroup_XXX_Marshal ::
    "(byte list \<Rightarrow> LogGroup ptr \<Rightarrow> byte list outcome) \<Rightarrow> LogGroup ptr \<Rightarrow> byte list \<Rightarrow> bool \<Rightarrow> byte list outcome" where
  "LogGroup_XXX_Marshal info m = XXX_Marshal_with (\<lambda>b. info b m) (LogGroup_MarshalToSizedBuffer m)"

definition LogGroup_XXX_Unmarshal :: "byte list \<Rightarrow> LogGroup outcome" where
  "LogGroup_XXX_Unmarshal b = LogGroup_Unmarshal b"

definition LogGroup_XXX_Size :: "LogGroup ptr \<Rightarrow> nat" where
  "LogGroup_XXX_Size m = LogGroup_Size m"

definition LogGroup_Reset :: "LogGroup \<Rightarrow> LogGroup" where
  "LogGroup_Reset m = empty_Group"

definition LogGroupList_MarshalTo :: "LogGroupList ptr \<Rightarrow> byte list \<Rightarrow> (nat \<times> byte list) outcome" where
  "LogGroupList_MarshalTo m = MarshalTo_with (LogGroupList_Size m) (LogGroupList_MarshalToSizedBuffer m)"

definition LogGroupList_XXX_Marshal ::
    "(byte list \<Rightarrow> LogGroupList ptr \<Rightarrow> byte list outcome) \<Rightarrow> LogGroupList ptr \<Rightarrow> byte list \<Rightarrow> bool \<Rightarrow> byte list outcome" where
  "LogGroupList_XXX_Marshal info m = XXX_Marshal_with (\<lambda>b. info b m) (LogGroupList_MarshalToSizedBuffer m)"

definition LogGroupList_XXX_Unmarshal :: "byte list \<Rightarrow> LogGroupList outcome" where
  "LogGroupList_XXX_Unmarshal b = LogGroupList_Unmarshal b"

definition LogGroupList_XXX_Size :: "LogGroupList ptr \<Rightarrow> nat" where
  "LogGroupList_XXX_Size m = LogGroupList_Size m"

definition LogGroupList_Reset :: "LogGroupList \<Rightarrow> LogGroupList" where
  "LogGroupList_Reset m = empty_GroupList"

section \<open>Buffers of the caller\<close>

context message_writer
begin

text \<open>\<open>MarshalTo\<close> writes the front of a large enough buffer and leaves the rest alone.\<close>

lemma MarshalTo_valid:
  assumes "valid m" and "length (enc m) < 2 ^ 64" and "message_size m \<le> length dAtA"
  shows "MarshalTo_with (message_size m) (marshal m) dAtA =
    Inr (message_size m, enc m @ drop (message_size m) dAtA)"
  using writesD [OF writes_valid [OF assms(1,2)], of "message_size m" "take (message_size m) dAtA"]
    size_enc [OF assms(2)] assms(3) by (simp add: MarshalTo_with_def)

lemma MarshalTo_small:
  "length dAtA < message_size m \<Longrightarrow>
    MarshalTo_with (message_size m) (marshal m) dAtA = Inl (Panic ''slice bounds out of range'')"
  by (simp add: MarshalTo_with_def)

text \<open>
  \<open>XXX_Marshal\<close> is \<open>Marshal\<close> exactly when the capacity of the buffer is the size of the
  message; the bytes it answers for a larger one begin with what was in the buffer before.
\<close>

lemma XXX_Marshal_valid:
  assumes "valid m" and "length (enc m) < 2 ^ 64" and "message_size m \<le> length b"
  shows "XXX_Marshal_with info (marshal m) b False =
    Inr (take (message_size m) (take (length b - message_size m) b @ enc m))"
  using writesD [OF writes_valid [OF assms(1,2)], of "length b" b] size_enc [OF assms(2)] assms(3)
  by (simp add: XXX_Marshal_with_def)

lemma XXX_Marshal_exact:
  assumes "valid m" and "length (enc m) < 2 ^ 64" and "length b = message_size m"
  shows "XXX_Marshal_with info (marshal m) b False = Marshal_with (message_size m) (marshal m)"
  using XXX_Marshal_valid [OF assms(1,2)] assms(3) Marshal_valid [OF assms(1,2)] size_enc [OF assms(2)] by simp

end

text \<open>What a caller of \<open>MarshalTo\<close> gets, for every message.\<close>

lemmas part_MarshalTo =
  log_writer.MarshalTo_valid [folded Log_MarshalTo_def]
  content_writer.MarshalTo_valid [folded Log_Content_MarshalTo_def]
  tag_writer.MarshalTo_valid [folded LogTag_MarshalTo_def]
  group_writer.MarshalTo_valid [folded LogGroup_MarshalTo_def]
  list_writer.MarshalTo_valid [folded LogGroupList_MarshalTo_def]

lemmas part_MarshalTo_small =
  log_writer.MarshalTo_small [folded Log_MarshalTo_def]
  content_writer.MarshalTo_small [folded Log_Content_MarshalTo_def]
  tag_writer.MarshalTo_small [folded LogTag_MarshalTo_def]
  group_writer.MarshalTo_small [folded LogGroup_MarshalTo_def]
  list_writer.MarshalTo_small [folded LogGroupList_MarshalTo_def]

text \<open>What the library gets when it has asked for the size before.\<close>

lemma LogGroupList_XXX_Marshal_sized:
  assumes "valid_GroupList m" and "length (enc_GroupList m) < 2 ^ 64" and "length b = LogGroupList_XXX_Size m"
  shows "LogGroupList_XXX_Marshal info m b False = LogGroupList_Marshal m"
  using list_writer.XXX_Marshal_exact [OF assms(1,2) assms(3) [unfolded LogGroupList_XXX_Size_def]]
  by (simp add: LogGroupList_XXX_Marshal_def LogGroupList_Marshal_def)

end
