(* ===== verification/Signature_Order.thy ===== *)
theory Signature_Order
  imports Signature
begin

text \<open>
  Go leaves the order of a \<open>range\<close> over a map open.  The signatures are built from maps, and
  the server computes them from its own copy of the request: they must not depend on it.
\<close>

section \<open>Maps up to order\<close>

lemma gm_ok_put_any: "gm_ok m \<Longrightarrow> gm_ok (values_Add k v m)"
  by (simp add: values_Add_def)

lemma gm_get_map_of: "gm_get m = map_of m"
  by (rule ext) (simp add: gm_get_def)

lemma dom_gm_get: "dom (gm_get m) = fst ` set m"
  by (simp add: gm_get_map_of dom_map_of_conv_image_fst)

lemma sort_keys: "gm_ok m \<Longrightarrow> sort (map fst m) = sorted_list_of_set (dom (gm_get m))"
  by (metis dom_gm_get finite_set gm_ok_def list.set_map sorted_list_of_set_sort_remdups distinct_remdups_id)

text \<open>The encoding is a function of the abstract map.\<close>

lemma values_Encode_cong:
  "gm_ok m \<Longrightarrow> gm_ok m' \<Longrightarrow> gm_get m = gm_get m' \<Longrightarrow> values_Encode m = values_Encode m'"
  by (simp add: values_Encode_def sort_keys)

lemma mset_of_gm_get:
  assumes "gm_ok m" and "gm_ok m'" and "gm_get m = gm_get m'"
  shows "mset m = mset m'"
proof -
  have "set m = set m'"
    using assms map_of_inject_set [of m m'] by (simp add: gm_ok_def gm_get_map_of)
  moreover have "distinct m" "distinct m'" using assms(1,2) by (simp_all add: gm_ok_def distinct_map)
  ultimately show ?thesis by (simp add: set_eq_iff_mset_eq_distinct)
qed

section \<open>Collecting values\<close>

definition add_all :: "(string \<Rightarrow> string) \<Rightarrow> (string \<times> string) list \<Rightarrow> url_values \<Rightarrow> url_values" where
  "add_all f es acc = fold (\<lambda>(k, x). values_Add (f k) x) es acc"

lemma gm_get_add_all:
  "gm_get (add_all f es acc) k' =
     (let xs = map snd (filter (\<lambda>(k, x). f k = k') es) in
      if xs = [] then gm_get acc k'
      else Some ((case gm_get acc k' of None \<Rightarrow> [] | Some vs \<Rightarrow> vs) @ xs))"
proof (induction es arbitrary: acc)
  case (Cons e es)
  obtain k x where e: "e = (k, x)" by (cases e)
  have "add_all f (e # es) acc = add_all f es (values_Add (f k) x acc)" by (simp add: add_all_def e)
  moreover have "gm_get (values_Add (f k) x acc) k' = (if k' = f k
      then Some ((case gm_get acc k' of None \<Rightarrow> [] | Some vs \<Rightarrow> vs) @ [x]) else gm_get acc k')"
    by (simp add: values_Add_def)
  ultimately show ?case
    by (cases "f k = k'") (simp_all add: Cons.IH e Let_def)
qed (simp add: add_all_def)

lemma gm_ok_add_all: "gm_ok acc \<Longrightarrow> gm_ok (add_all f es acc)"
  by (induction es arbitrary: acc) (auto simp: add_all_def gm_ok_put_any)

lemma entries_Cons: "entries ((k, vs) # m) = map (\<lambda>v. (k, v)) vs @ entries m"
  by (simp add: entries_def)

lemma entries_none: "k' \<notin> f ` fst ` set m \<Longrightarrow> filter (\<lambda>(k, x). f k = k') (entries m) = []"
proof (induction m)
  case (Cons e m)
  then show ?case by (cases e) (auto simp: entries_Cons filter_empty_conv)
qed (simp add: entries_def)

text \<open>With keys that stay apart under \<open>f\<close>, every key keeps the values of its only entry.\<close>

lemma entries_of_key:
  assumes "distinct (map (f \<circ> fst) m)" and "(k, vs) \<in> set m"
  shows "map snd (filter (\<lambda>(j, x). f j = f k) (entries m)) = vs"
  using assms
proof (induction m)
  case (Cons e m)
  obtain j ws where e: "e = (j, ws)" by (cases e)
  show ?case
  proof (cases "(k, vs) = e")
    case True
    with Cons.prems(1) e have "f k \<notin> f ` fst ` set m" by (auto simp: image_image comp_def)
    from entries_none [OF this] True e show ?thesis
      by (simp add: entries_Cons filter_map comp_def)
  next
    case False
    then have m: "(k, vs) \<in> set m" "distinct (map (f \<circ> fst) m)" using Cons.prems e by (auto simp: comp_def)
    then have "f j \<noteq> f k" using Cons.prems(1) e by (force simp: image_iff)
    with Cons.IH [OF m(2,1)] e show ?thesis by (simp add: entries_Cons filter_map comp_def)
  qed
qed simp

lemma add_all_order:
  assumes "distinct (map (f \<circ> fst) m)" and "mset m = mset m'"
  shows "gm_get (add_all f (entries m) []) = gm_get (add_all f (entries m') [])"
proof
  fix k'
  have set: "set m = set m'" by (rule mset_eq_setD [OF assms(2)])
  have dist: "distinct (map (f \<circ> fst) m')"
    using assms by (metis mset_map mset_eq_imp_distinct_iff)
  have "map snd (filter (\<lambda>(k, x). f k = k') (entries m)) = map snd (filter (\<lambda>(k, x). f k = k') (entries m'))"
  proof (cases "k' \<in> f ` fst ` set m")
    case False
    then show ?thesis using set by (simp add: entries_none)
  next
    case True
    then obtain k vs where "(k, vs) \<in> set m" "k' = f k" by auto
    then show ?thesis
      using entries_of_key [OF assms(1), of k vs] entries_of_key [OF dist, of k vs] set by simp
  qed
  then show "gm_get (add_all f (entries m) []) k' = gm_get (add_all f (entries m') []) k'"
    by (simp only: gm_get_add_all)
qed

lemma mset_entries: "mset m = mset m' \<Longrightarrow> mset (entries m) = mset (entries m')"
proof -
  have "mset (entries n) = (\<Sum>e\<in>#mset n. mset (map (\<lambda>v. (fst e, v)) (snd e)))" for n :: url_values
    by (induction n) (auto simp: entries_def)
  then show "mset m = mset m' \<Longrightarrow> mset (entries m) = mset (entries m')" by simp
qed

text \<open>The encoding of the lower-cased values does not depend on the order of the map.\<close>

lemma getURLEncode_order:
  assumes "distinct (map (ToLower \<circ> fst) m)" and "mset m = mset m'"
  shows "getURLEncode m = getURLEncode m'"
proof -
  have "values_Encode (add_all ToLower (entries m) []) = values_Encode (add_all ToLower (entries m') [])"
    by (rule values_Encode_cong [OF _ _ add_all_order [OF assms]]) (simp_all add: gm_ok_add_all)
  moreover have "sort (map (\<lambda>(k, x). ToLower k) (entries m)) = sort (map (\<lambda>(k, x). ToLower k) (entries m'))"
    using mset_entries [OF assms(2)] by (intro properties_for_sort) (simp_all add: mset_map)
  ultimately show ?thesis by (simp add: getURLEncode_def add_all_def)
qed

lemma entries_filter: "filter (\<lambda>(k, x). C k) (entries m) = entries (filter (\<lambda>(k, vs). C k) m)"
  by (induction m) (auto simp: entries_def filter_map comp_def)

lemma signed_headers_add_all:
  "signed_headers m = add_all id (entries (filter (\<lambda>(k, vs). checkHeaderKey k) m)) []"
proof -
  have "fold (\<lambda>(k, x) hv. if C k then values_Add k x hv else hv) es acc =
      add_all id (filter (\<lambda>(k, x). C k) es) acc" for C es acc
    by (induction es arbitrary: acc) (auto simp: add_all_def)
  then show ?thesis by (simp add: signed_headers_def entries_filter)
qed

lemma keys_add_all: "fst ` set (add_all f es []) \<subseteq> f ` fst ` set es"
proof
  fix k' assume "k' \<in> fst ` set (add_all f es [])"
  then have "gm_get (add_all f es []) k' \<noteq> None" by (simp add: gm_get_map_of map_of_eq_None_iff)
  then have "filter (\<lambda>(k, x). f k = k') es \<noteq> []" by (auto simp: gm_get_add_all Let_def)
  then show "k' \<in> f ` fst ` set es" by (force simp: filter_empty_conv)
qed

lemma signed_headers_order:
  assumes "distinct (map (ToLower \<circ> fst) m)" and "mset m = mset m'"
  shows "distinct (map (ToLower \<circ> fst) (signed_headers m))" and "mset (signed_headers m) = mset (signed_headers m')"
proof -
  let ?F = "filter (\<lambda>(k, vs). checkHeaderKey k)"
  have d: "distinct (map (id \<circ> fst) (?F m))"
    using assms(1) by (force simp: distinct_map inj_on_def)
  have ok: "gm_ok (signed_headers n)" for n by (simp add: signed_headers_add_all gm_ok_add_all)
  show "mset (signed_headers m) = mset (signed_headers m')"
  proof (intro mset_of_gm_get ok)
    have "mset (?F m) = mset (?F m')" using assms(2) by simp
    from add_all_order [OF d this] show "gm_get (signed_headers m) = gm_get (signed_headers m')"
      by (simp add: signed_headers_add_all)
  qed
  have "fst ` set (signed_headers m) \<subseteq> fst ` set m"
    using keys_add_all [of id "entries (?F m)"] by (force simp: signed_headers_add_all entries_def)
  moreover have "inj_on ToLower (fst ` set m)"
    using assms(1) by (auto simp: distinct_map inj_on_def)
  ultimately have "inj_on ToLower (fst ` set (signed_headers m))" by (rule inj_on_subset [rotated])
  then show "distinct (map (ToLower \<circ> fst) (signed_headers m))"
    using ok [of m] unfolding gm_ok_def by (simp add: distinct_map comp_inj_on)
qed

text \<open>
  C39: the signature of a request is a function of its headers and parameters, not of the
  order in which Go happens to walk the two maps, as long as no two keys of a map differ only
  in case (the keys of one HTTP request do not).
\<close>

theorem signature_order_independent:
  assumes "distinct (map (ToLower \<circ> fst) headers)" and "mset headers = mset headers'"
    and "distinct (map (ToLower \<circ> fst) params)" and "mset params = mset params'"
  shows "signature h t1 t2 secretID secretKey method path params headers expire =
    signature h t1 t2 secretID secretKey method path params' headers' expire"
proof -
  have "set (entries headers) = set (entries headers')"
    using mset_entries [OF assms(2)] by (rule mset_eq_setD)
  then show ?thesis
    using getURLEncode_order [OF signed_headers_order [OF assms(1,2)]] getURLEncode_order [OF assms(3,4)]
    by (simp add: signature_def)
qed

definition ex_sha1 :: Sha1 where
  "ex_sha1 = \<lparr>calSha1sum = (\<lambda>m. decimal (int (length m))), calSha1HMACDigest = (\<lambda>k m. k @ ''|'' @ m)\<rparr>"

theorem signature_order_independent_witness:
  "signature ex_sha1 100 100 ''id'' ''key'' ''POST'' ''/p'' [(''topic_id'', [''t''])]
     [(''Host'', [''h'']), (''Content-Type'', [''c''])] 300 =
   signature ex_sha1 100 100 ''id'' ''key'' ''POST'' ''/p'' [(''topic_id'', [''t''])]
     [(''Content-Type'', [''c'']), (''Host'', [''h''])] 300"
  by (rule signature_order_independent) (simp_all add: ToLower_def ToLower_char_def add_mset_commute)

section \<open>The cloud API signature\<close>

text \<open>The last value of every selected key.\<close>

definition collect_last :: "(string \<Rightarrow> bool) \<Rightarrow> (string, string) gomap \<Rightarrow> (string, string) gomap
    \<Rightarrow> (string, string) gomap" where
  "collect_last S es acc = fold (\<lambda>(k, v) m. if S (ToLower k) then gm_put (ToLower k) (TrimSpace v) m else m) es acc"

lemma tc3_headers_collect:
  "tc3_headers m = collect_last (\<lambda>k. k = ''content-type'' \<or> k = ''host'') m []"
  by (simp add: tc3_headers_def collect_last_def Let_def)

lemma gm_get_collect_last:
  "gm_get (collect_last S es acc) k' =
   (case map_of (rev (map (\<lambda>(k, v). (ToLower k, v)) es)) k' of
      Some v \<Rightarrow> if S k' then Some (TrimSpace v) else gm_get acc k'
    | None \<Rightarrow> gm_get acc k')"
proof (induction es arbitrary: acc)
  case (Cons e es)
  obtain k v where e: "e = (k, v)" by (cases e)
  have "collect_last S (e # es) acc =
      collect_last S es (if S (ToLower k) then gm_put (ToLower k) (TrimSpace v) acc else acc)"
    by (simp add: collect_last_def e)
  then show ?case by (auto simp: Cons.IH e map_add_def split: option.splits)
qed (simp add: collect_last_def)

lemma gm_ok_collect_last: "gm_ok acc \<Longrightarrow> gm_ok (collect_last S es acc)"
  by (induction es arbitrary: acc) (auto simp: collect_last_def)

lemma tc3_headers_order:
  assumes "distinct (map (ToLower \<circ> fst) m)" and "mset m = mset m'"
  shows "gm_get (tc3_headers m) = gm_get (tc3_headers m')"
proof -
  let ?L = "map (\<lambda>(k, v). (ToLower k, v))"
  have eq: "map_of (rev (?L m)) = map_of (rev (?L m'))"
  proof (rule map_of_inject_set [THEN iffD2])
    have keys: "fst \<circ> (\<lambda>(k, v). (ToLower k, v)) = (ToLower \<circ> fst :: string \<times> string \<Rightarrow> string)"
      by (auto simp: fun_eq_iff)
    have "distinct (map (ToLower \<circ> fst) m')" using assms by (metis mset_map mset_eq_imp_distinct_iff)
    then show "distinct (map fst (rev (?L m)))" "distinct (map fst (rev (?L m')))"
      using assms(1) unfolding rev_map [symmetric] by (simp_all add: keys)
    show "set (rev (?L m)) = set (rev (?L m'))" using mset_eq_setD [OF assms(2)] by simp
  qed
  show ?thesis
    by (rule ext) (simp only: tc3_headers_collect gm_get_collect_last eq)
qed

text \<open>The same holds for the cloud API's signature, which signs the content type and the host.\<close>

lemma SignatureWithTC3_order_independent:
  assumes "distinct (map (ToLower \<circ> fst) headers)" and "mset headers = mset headers'"
  shows "SignatureWithTC3 h secretID secretKey service method path query headers payload ts =
    SignatureWithTC3 h secretID secretKey service method path query headers' payload ts"
proof -
  have ok: "gm_ok (tc3_headers n)" for n by (simp add: tc3_headers_collect gm_ok_collect_last)
  note eq = tc3_headers_order [OF assms]
  have "sort (map fst (tc3_headers headers)) = sort (map fst (tc3_headers headers'))"
    by (simp add: sort_keys ok eq)
  then show ?thesis unfolding SignatureWithTC3_def Let_def by (simp only: eq)
qed

end
