(* ===== verification/Go_Hash.thy ===== *)
theory Go_Hash
  imports Signature
begin

text \<open>
  The parts of Go's \<^verbatim>\<open>crypto/sha1\<close>, \<^verbatim>\<open>crypto/sha256\<close>, \<^verbatim>\<open>crypto/hmac\<close>,
  \<^verbatim>\<open>hash/crc64\<close>, \<^verbatim>\<open>encoding/hex\<close> and \<^verbatim>\<open>time\<close> that the SDK uses, on bytes and
  32- and 64-bit words, and with them the hash functions of \<^verbatim>\<open>signature.go\<close>,
  \<^verbatim>\<open>tc3_signature.go\<close> and \<^verbatim>\<open>utils.go\<close>, which the other theories leave open.
\<close>

unbundle bit_operations_syntax

section \<open>Bytes and words\<close>

definition put_be32 :: "32 word \<Rightarrow> byte list" where
  "put_be32 w = [ucast (drop_bit 24 w), ucast (drop_bit 16 w), ucast (drop_bit 8 w), ucast w]"

definition get_be32 :: "byte list \<Rightarrow> 32 word" where
  "get_be32 bs = foldl (\<lambda>a b. push_bit 8 a OR ucast b) 0 bs"

definition put_be64 :: "64 word \<Rightarrow> byte list" where
  "put_be64 w = put_be32 (ucast (drop_bit 32 w)) @ put_be32 (ucast w)"

function blocks :: "nat \<Rightarrow> 'a list \<Rightarrow> 'a list list" where
  "blocks n xs = (if n = 0 \<or> xs = [] then [] else take n xs # blocks n (drop n xs))"
  by auto
termination by (relation "measure (\<lambda>(n, xs). length xs)") auto

declare blocks.simps [simp del]

definition hex_encode :: "byte list \<Rightarrow> string" where
  "hex_encode bs = concat (map (\<lambda>b. [hex_digit (unat b div 16), hex_digit (unat b mod 16)]) bs)"

text \<open>Merkle-Damgard padding: a one bit, zeros, and the length in bits.\<close>

definition md_pad :: "byte list \<Rightarrow> byte list" where
  "md_pad msg = msg @ [128] @ replicate ((119 - length msg mod 64) mod 64) 0 @
     put_be64 (of_nat (8 * length msg))"

definition rotl32 :: "nat \<Rightarrow> 32 word \<Rightarrow> 32 word" where
  "rotl32 n w = push_bit n w OR drop_bit (32 - n) w"

definition rotr32 :: "nat \<Rightarrow> 32 word \<Rightarrow> 32 word" where
  "rotr32 n w = drop_bit n w OR push_bit (32 - n) w"

section \<open>SHA-1\<close>

type_synonym sha1_state = "32 word \<times> 32 word \<times> 32 word \<times> 32 word \<times> 32 word"

definition sha1_f :: "nat \<Rightarrow> 32 word \<Rightarrow> 32 word \<Rightarrow> 32 word \<Rightarrow> 32 word" where
  "sha1_f t b c d =
     (if t < 20 then (b AND c) OR (NOT b AND d)
      else if t < 40 then b XOR c XOR d
      else if t < 60 then (b AND c) OR (b AND d) OR (c AND d)
      else b XOR c XOR d)"

definition sha1_k :: "nat \<Rightarrow> 32 word" where
  "sha1_k t = (if t < 20 then 0x5A827999 else if t < 40 then 0x6ED9EBA1
     else if t < 60 then 0x8F1BBCDC else 0xCA62C1D6)"

text \<open>\<open>n\<close> rounds left, the next one being \<open>80 - n\<close>; \<open>ws\<close> is the window of 16 words.\<close>

fun sha1_rounds :: "nat \<Rightarrow> 32 word list \<Rightarrow> sha1_state \<Rightarrow> sha1_state" where
  "sha1_rounds 0 ws st = st"
| "sha1_rounds (Suc n) ws (a, b, c, d, e) =
     (let t = 79 - n;
          tmp = rotl32 5 a + sha1_f t b c d + e + ws ! 0 + sha1_k t;
          w = rotl32 1 (ws ! 13 XOR ws ! 8 XOR ws ! 2 XOR ws ! 0)
      in sha1_rounds n (tl ws @ [w]) (tmp, a, rotl32 30 b, c, d))"

definition sha1_block :: "sha1_state \<Rightarrow> byte list \<Rightarrow> sha1_state" where
  "sha1_block st block =
     (let (a, b, c, d, e) = st;
          (a', b', c', d', e') = sha1_rounds 80 (map get_be32 (blocks 4 block)) st
      in (a + a', b + b', c + c', d + d', e + e'))"

definition sha1 :: "byte list \<Rightarrow> byte list" where
  "sha1 msg =
     (let (a, b, c, d, e) = foldl sha1_block
            (0x67452301, 0xEFCDAB89, 0x98BADCFE, 0x10325476, 0xC3D2E1F0) (blocks 64 (md_pad msg))
      in put_be32 a @ put_be32 b @ put_be32 c @ put_be32 d @ put_be32 e)"

section \<open>SHA-256\<close>

text \<open>
  The round constants are the first 32 bits behind the binary point of the cube roots of the
  first 64 primes; the root is found bit by bit.
\<close>

fun cube_root :: "nat \<Rightarrow> int \<Rightarrow> int \<Rightarrow> int" where
  "cube_root 0 r x = r"
| "cube_root (Suc k) r x = cube_root k (if (r + 2 ^ k) ^ 3 \<le> x then r + 2 ^ k else r) x"

lemma cube_root_correct:
  "r ^ 3 \<le> x \<Longrightarrow> x < (r + 2 ^ k) ^ 3 \<Longrightarrow>
   cube_root k r x ^ 3 \<le> x \<and> x < (cube_root k r x + 1) ^ 3"
proof (induction k arbitrary: r)
  case (Suc k)
  let ?r = "if (r + 2 ^ k) ^ 3 \<le> x then r + 2 ^ k else r"
  have double: "r + 2 ^ Suc k = (r + 2 ^ k) + 2 ^ k" by simp
  have "?r ^ 3 \<le> x \<and> x < (?r + 2 ^ k) ^ 3"
    using Suc.prems unfolding double by (cases "(r + 2 ^ k) ^ 3 \<le> x") simp_all
  then show ?case using Suc.IH [of ?r] by (simp only: cube_root.simps)
qed simp

definition small_primes :: "int list" where
  "small_primes = filter (\<lambda>p. list_all (\<lambda>d. p mod d \<noteq> 0) [2..p - 1]) [2..311]"

definition sha256_k :: "32 word list" where
  "sha256_k = map (\<lambda>p. of_int (cube_root 36 0 (p * 2 ^ 96))) small_primes"

type_synonym sha256_state =
  "32 word \<times> 32 word \<times> 32 word \<times> 32 word \<times> 32 word \<times> 32 word \<times> 32 word \<times> 32 word"

fun sha256_rounds :: "32 word list \<Rightarrow> 32 word list \<Rightarrow> sha256_state \<Rightarrow> sha256_state" where
  "sha256_rounds [] ws st = st"
| "sha256_rounds (k # ks) ws (a, b, c, d, e, f, g, h) =
     (let t1 = h + (rotr32 6 e XOR rotr32 11 e XOR rotr32 25 e) + ((e AND f) XOR (NOT e AND g)) + k + ws ! 0;
          t2 = (rotr32 2 a XOR rotr32 13 a XOR rotr32 22 a) + ((a AND b) XOR (a AND c) XOR (b AND c));
          w = (rotr32 17 (ws ! 14) XOR rotr32 19 (ws ! 14) XOR drop_bit 10 (ws ! 14)) + ws ! 9 +
            (rotr32 7 (ws ! 1) XOR rotr32 18 (ws ! 1) XOR drop_bit 3 (ws ! 1)) + ws ! 0
      in sha256_rounds ks (tl ws @ [w]) (t1 + t2, a, b, c, d + t1, e, f, g))"

definition sha256_block :: "sha256_state \<Rightarrow> byte list \<Rightarrow> sha256_state" where
  "sha256_block st block =
     (let (a, b, c, d, e, f, g, h) = st;
          (a', b', c', d', e', f', g', h') = sha256_rounds sha256_k (map get_be32 (blocks 4 block)) st
      in (a + a', b + b', c + c', d + d', e + e', f + f', g + g', h + h'))"

definition sha256 :: "byte list \<Rightarrow> byte list" where
  "sha256 msg =
     (let (a, b, c, d, e, f, g, h) = foldl sha256_block
            (0x6a09e667, 0xbb67ae85, 0x3c6ef372, 0xa54ff53a, 0x510e527f, 0x9b05688c, 0x1f83d9ab, 0x5be0cd19)
            (blocks 64 (md_pad msg))
      in put_be32 a @ put_be32 b @ put_be32 c @ put_be32 d @ put_be32 e @ put_be32 f @ put_be32 g @ put_be32 h)"

section \<open>HMAC\<close>

text \<open>Both hashes have blocks of 64 bytes; a longer key is hashed first.\<close>

definition hmac :: "(byte list \<Rightarrow> byte list) \<Rightarrow> byte list \<Rightarrow> byte list \<Rightarrow> byte list" where
  "hmac H key msg =
     (let k = (if 64 < length key then H key else key);
          k' = k @ replicate (64 - length k) 0
      in H (map (\<lambda>b. b XOR 0x5c) k' @ H (map (\<lambda>b. b XOR 0x36) k' @ msg)))"

section \<open>CRC-64 (ECMA)\<close>

fun crc64_shift :: "nat \<Rightarrow> 64 word \<Rightarrow> 64 word" where
  "crc64_shift 0 c = c"
| "crc64_shift (Suc n) c =
     crc64_shift n (if c AND 1 = 1 then drop_bit 1 c XOR 0xC96C5795D7870F42 else drop_bit 1 c)"

text \<open>An entry of the table is computed where the code looks it up.\<close>

definition crc64_update :: "64 word \<Rightarrow> byte \<Rightarrow> 64 word" where
  "crc64_update c b = crc64_shift 8 (ucast (ucast c XOR b :: byte)) XOR drop_bit 8 c"

definition crc64 :: "byte list \<Rightarrow> 64 word" where
  "crc64 bs = NOT (foldl crc64_update (NOT 0) bs)"

section \<open>Lengths and digits\<close>

lemma length_put_be32 [simp]: "length (put_be32 w) = 4"
  by (simp add: put_be32_def)

lemma length_sha1: "length (sha1 msg) = 20"
  by (simp add: sha1_def split: prod.split)

lemma length_sha256: "length (sha256 msg) = 32"
  by (simp add: sha256_def split: prod.split)

lemma pad_count: "(n + (9 + (119 - n mod 64) mod 64)) mod 64 = (0 :: nat)"
proof -
  define q r where "q = n div 64" and "r = n mod 64"
  have n: "n = 64 * q + r" and r: "r < 64" by (simp_all add: q_def r_def)
  have "(119 - r) mod 64 = (if r \<le> 55 then 55 - r else 119 - r)"
    using r by (auto simp: mod_if)
  with r have "n + (9 + (119 - r) mod 64) = 64 * q + (if r \<le> 55 then 64 else 128)" using n by simp
  then show ?thesis unfolding r_def by simp
qed

lemma length_md_pad: "length (md_pad msg) mod 64 = 0"
  using pad_count [of "length msg"] by (simp add: md_pad_def put_be64_def ac_simps)

lemma length_hmac: "(\<And>m. length (H m) = n) \<Longrightarrow> length (hmac H key msg) = n"
  by (simp add: hmac_def Let_def)

definition is_hex :: "char \<Rightarrow> bool" where
  "is_hex c \<longleftrightarrow> c \<in> set ''0123456789abcdef''"

lemma is_hex_digit: "d < 16 \<Longrightarrow> is_hex (hex_digit d)"
  unfolding is_hex_def hex_digit_def by (rule nth_mem) simp

lemma hex_encode_format: "length (hex_encode bs) = 2 * length bs \<and> list_all is_hex (hex_encode bs)"
proof (induction bs)
  case (Cons b bs)
  have "unat b < 2 ^ LENGTH(8)" by (rule unsigned_less)
  then have "is_hex (hex_digit (unat b div 16))" "is_hex (hex_digit (unat b mod 16))"
    by (simp_all add: is_hex_digit less_mult_imp_div_less)
  with Cons show ?case by (simp add: hex_encode_def)
qed (simp add: hex_encode_def)

section \<open>Dates\<close>

definition leap :: "nat \<Rightarrow> bool" where
  "leap y \<longleftrightarrow> 4 dvd y \<and> (\<not> 100 dvd y \<or> 400 dvd y)"

definition year_days :: "nat \<Rightarrow> nat" where
  "year_days y = (if leap y then 366 else 365)"

definition month_days :: "nat \<Rightarrow> nat list" where
  "month_days y = [31, if leap y then 29 else 28, 31, 30, 31, 30, 31, 31, 30, 31, 30, 31]"

text \<open>The year, and the day in it, \<open>n\<close> days after the start of year \<open>y\<close>.\<close>

function year_at :: "nat \<Rightarrow> nat \<Rightarrow> nat \<times> nat" where
  "year_at y n = (if n < year_days y then (y, n) else year_at (y + 1) (n - year_days y))"
  by auto
termination by (relation "measure snd") (auto simp: year_days_def)

declare year_at.simps [simp del]

fun month_at :: "nat \<Rightarrow> nat list \<Rightarrow> nat \<Rightarrow> nat \<times> nat" where
  "month_at m [] n = (m, n)"
| "month_at m (d # ds) n = (if n < d then (m, n + 1) else month_at (m + 1) ds (n - d))"

text \<open>\<open>time.Unix (ts, 0).UTC ().Format ("2006-01-02")\<close>, from 1970 on.\<close>

definition utc_ymd :: "int \<Rightarrow> nat \<times> nat \<times> nat" where
  "utc_ymd ts =
     (let (y, n) = year_at 1970 (nat (ts div 86400)); (m, d) = month_at 1 (month_days y) n in (y, m, d))"

definition go_utc_date :: "int \<Rightarrow> string" where
  "go_utc_date ts =
     (let (y, m, d) = utc_ymd ts
      in pad_left 4 (dec_digits y) @ ''-'' @ pad_left 2 (dec_digits m) @ ''-'' @ pad_left 2 (dec_digits d))"

lemma sum_month_days: "sum_list (month_days y) = year_days y"
  by (simp add: month_days_def year_days_def)

text \<open>The date found is a date of the calendar, and it is that many days after 1970-01-01.\<close>

lemma year_at_correct:
  "year_at y n = (y', r) \<Longrightarrow> y \<le> y' \<and> r < year_days y' \<and> n = (\<Sum>i=y..<y'. year_days i) + r"
proof (induction y n arbitrary: y' r rule: year_at.induct)
  case (1 y n)
  show ?case
  proof (cases "n < year_days y")
    case True
    with 1(2) show ?thesis by (simp add: year_at.simps [of y n])
  next
    case False
    have "year_at (y + 1) (n - year_days y) = (y', r)" using 1(2) False by (simp add: year_at.simps [of y n])
    with 1(1) [OF False this] False show ?thesis by (auto simp: sum.atLeast_Suc_lessThan)
  qed
qed

lemma month_at_correct:
  "month_at m ds n = (m', d) \<Longrightarrow> n < sum_list ds \<Longrightarrow>
   m \<le> m' \<and> m' < m + length ds \<and> 0 < d \<and> d \<le> ds ! (m' - m) \<and> n = sum_list (take (m' - m) ds) + d - 1"
proof (induction m ds n arbitrary: m' d rule: month_at.induct)
  case (2 m x ds n)
  show ?case
  proof (cases "n < x")
    case True
    with 2 show ?thesis by auto
  next
    case False
    have IH: "m + 1 \<le> m'" "m' < m + 1 + length ds" "0 < d" "d \<le> ds ! (m' - (m + 1))"
      "n - x = sum_list (take (m' - (m + 1)) ds) + d - 1"
      using 2 False by auto
    have "m' - m = Suc (m' - (m + 1))" using IH(1) by linarith
    moreover have "n = x + sum_list (take (m' - (m + 1)) ds) + d - 1" using IH(3,5) False by linarith
    ultimately show ?thesis using IH by simp
  qed
qed simp

lemma utc_ymd_correct:
  assumes "utc_ymd ts = (y, m, d)" and "0 \<le> ts"
  shows "1970 \<le> y \<and> 1 \<le> m \<and> m \<le> 12 \<and> 1 \<le> d \<and> d \<le> month_days y ! (m - 1) \<and>
    nat (ts div 86400) = (\<Sum>i=1970..<y. year_days i) + sum_list (take (m - 1) (month_days y)) + d - 1"
proof -
  obtain n where y: "year_at 1970 (nat (ts div 86400)) = (y, n)" and m: "month_at 1 (month_days y) n = (m, d)"
    using assms(1) by (auto simp: utc_ymd_def split: prod.splits)
  note yc = year_at_correct [OF y]
  have "n < sum_list (month_days y)" using yc by (simp add: sum_month_days)
  from month_at_correct [OF m this] yc show ?thesis by (auto simp: month_days_def)
qed

section \<open>The hash functions of the SDK\<close>

definition go_calSha1sum :: "string \<Rightarrow> string" where
  "go_calSha1sum msg = hex_encode (sha1 (text_bytes msg))"

definition go_calSha1HMACDigest :: "string \<Rightarrow> string \<Rightarrow> string" where
  "go_calSha1HMACDigest key msg = hex_encode (hmac sha1 (text_bytes key) (text_bytes msg))"

definition go_sha256Hex :: "byte list \<Rightarrow> string" where
  "go_sha256Hex data = hex_encode (sha256 data)"

definition go_hmacSHA256 :: "byte list \<Rightarrow> string \<Rightarrow> byte list" where
  "go_hmacSHA256 key msg = hmac sha256 key (text_bytes msg)"

definition go_hmacSHA256Hex :: "byte list \<Rightarrow> string \<Rightarrow> string" where
  "go_hmacSHA256Hex key msg = hex_encode (hmac sha256 key (text_bytes msg))"

definition go_sha1 :: Sha1 where
  "go_sha1 = \<lparr>calSha1sum = go_calSha1sum, calSha1HMACDigest = go_calSha1HMACDigest\<rparr>"

definition go_sha256 :: Sha256 where
  "go_sha256 = \<lparr>sha256Hex = go_sha256Hex, hmacSHA256 = go_hmacSHA256,
     hmacSHA256Hex = go_hmacSHA256Hex, utc_date = go_utc_date\<rparr>"

text \<open>
  \<open>GenerateProducerHash\<close>, \<open>now\<close> being the Unix time: \<open>%08x\<close> of the checksum and of the time.
  A negative time gets its sign before the padding.
\<close>

definition hex08 :: "int \<Rightarrow> string" where
  "hex08 i = (if i < 0 then ''-'' @ pad_left 7 (hex_digits (nat (- i))) else pad_left 8 (hex_digits (nat i)))"

definition GenerateProducerHash :: "string \<Rightarrow> int \<Rightarrow> string" where
  "GenerateProducerHash instanceID now =
     (let hashString = hex08 (uint (crc64 (text_bytes instanceID)))
      in ToUpper (hashString @ hex08 now))"

lemma go_hmac_format: "length (go_hmacSHA256Hex key msg) = 64 \<and> list_all is_hex (go_hmacSHA256Hex key msg)"
  using hex_encode_format [of "hmac sha256 key (text_bytes msg)"] length_hmac [OF length_sha256]
  by (simp add: go_hmacSHA256Hex_def)

lemma go_sha1_format:
  "length (go_calSha1HMACDigest key msg) = 40 \<and> list_all is_hex (go_calSha1HMACDigest key msg)"
  using hex_encode_format [of "hmac sha1 (text_bytes key) (text_bytes msg)"] length_hmac [OF length_sha1]
  by (simp add: go_calSha1HMACDigest_def)

end
