(* ===== verification/Api_Signature.thy ===== *)
theory Api_Signature
  imports Yun_Api Go_Hash
begin

text \<open>
  The authorization of the cloud API calls (\<^verbatim>\<open>yunapi_log_client.go\<close> with
  \<^verbatim>\<open>tc3_signature.go\<close>), with Go's hash functions: what it says, and what it covers.
\<close>

lemma lower_names: "ToLower ''Host'' = ''host''" "ToLower ''Content-Type'' = ''content-type''"
  "ToLower ''X-TC-Version'' = ''x-tc-version''" "ToLower ''X-TC-Timestamp'' = ''x-tc-timestamp''"
  "ToLower ''X-TC-Action'' = ''x-tc-action''" "ToLower ''X-TC-Region'' = ''x-tc-region''"
  "ToLower ''X-TC-Language'' = ''x-tc-language''" "ToLower ''X-Cls-Token'' = ''x-cls-token''"
  by code_simp+

lemma json_trimmed: "TrimSpace ''application/json'' = ''application/json''"
  by code_simp

text \<open>
  Of an API request only the host and the content type are signed, and neither depends on the
  action, the region or the token.
\<close>

lemma api_signed_headers:
  "sort (map fst (tc3_headers (request_headers env c (api_headers c) ts action region))) =
     [''content-type'', ''host'']"
  "gm_get (tc3_headers (request_headers env c (api_headers c) ts action region)) ''content-type'' =
     Some ''application/json''"
  "gm_get (tc3_headers (request_headers env c (api_headers c) ts action region)) ''host'' =
     Some (TrimSpace (yc_host c))"
  by (simp_all add: request_headers_def api_headers_def tc3_headers_def gm_put_def gm_delete_def gm_get_def
      lower_names Let_def json_trimmed)

text \<open>
  Every cloud API request is signed in the TC3 form, with Go's SHA-256: the credential names
  the key, the UTC date and the service, the signed headers are the content type and the host,
  and the signature has 64 hexadecimal digits.  It covers the method, the resource, the body
  and the time, but not the action, the region or the security token: for all of them the
  header is the same.
\<close>

theorem api_request_signature:
  "\<exists>sig. length sig = 64 \<and> list_all is_hex sig \<and>
     (\<forall>action region token. SignatureWithTC3 go_sha256 (yc_secretId c) (yc_secretKey c) service method resource ''''
        (request_headers env (c\<lparr>yc_token := token\<rparr>) (api_headers c) ts action region) body ts =
      ''TC3-HMAC-SHA256 Credential='' @ yc_secretId c @ ''/'' @ go_utc_date ts @ ''/'' @ service @
      ''/tc3_request, SignedHeaders=content-type;host, Signature='' @ sig)"
proof -
  define canonical where "canonical = method @ ''\<newline>'' @ resource @ ''\<newline>\<newline>'' @
    ''content-type:application/json\<newline>host:'' @ TrimSpace (yc_host c) @ ''\<newline>\<newline>content-type;host\<newline>'' @
    go_sha256Hex body"
  define sig where "sig = go_hmacSHA256Hex (getTC3SignatureKey go_sha256 (yc_secretKey c) (go_utc_date ts) service)
    (''TC3-HMAC-SHA256\<newline>'' @ decimal ts @ ''\<newline>'' @ (go_utc_date ts @ ''/'' @ service @ ''/tc3_request'') @ ''\<newline>'' @
     go_sha256Hex (text_bytes canonical))"
  have "SignatureWithTC3 go_sha256 (yc_secretId c) (yc_secretKey c) service method resource ''''
        (request_headers env (c\<lparr>yc_token := token\<rparr>) (api_headers c) ts action region) body ts =
      ''TC3-HMAC-SHA256 Credential='' @ yc_secretId c @ ''/'' @ go_utc_date ts @ ''/'' @ service @
      ''/tc3_request, SignedHeaders=content-type;host, Signature='' @ sig" for action region token
    using api_signed_headers [of env "c\<lparr>yc_token := token\<rparr>" ts action region]
    by (simp add: SignatureWithTC3_def Let_def go_sha256_def sig_def canonical_def api_headers_def)
  with go_hmac_format show ?thesis unfolding sig_def by blast
qed

end
