(* ===== verification/Cls_Roundtrip.thy ===== *)
theory Cls_Roundtrip
  imports Cls_Decode Cls_Encode_Correct
begin

text \<open>
  \<open>Unmarshal\<close> undoes \<open>Marshal\<close>.  The relation \<open>decodes\<close> says what a piece of the wire
  format does to the message being filled, wherever the piece stands in the data.
\<close>

section \<open>Varints\<close>

lemma of_nat_split7: "(of_nat n :: 64 word) = of_nat (n mod 128) OR push_bit 7 (of_nat (n div 128))"
proof -
  have m: "n mod 128 = take_bit 7 n" "n div 128 = drop_bit 7 n"
    by (simp_all add: take_bit_eq_mod drop_bit_eq_div)
  show ?thesis unfolding m
    by (rule bit_eqI) (auto simp: bit_simps possible_bit_def)
qed

lemma low_bits: "(ucast ((of_nat k :: byte) AND 127) :: 64 word) = of_nat (k mod 128)"
proof -
  have "(of_nat k :: byte) AND 127 = take_bit 7 (of_nat k)"
    by (simp add: take_bit_eq_mask mask_eq_exp_minus_1)
  moreover have "k mod 128 = take_bit 7 k" by (simp add: take_bit_eq_mod)
  ultimately show ?thesis
    by (simp only:) (rule bit_eqI, auto simp: bit_simps)
qed

lemma byte_less_128: "k < 256 \<Longrightarrow> (of_nat k :: byte) < 128 \<longleftrightarrow> k < 128"
  by (simp add: word_less_nat_alt unsigned_of_nat take_bit_eq_mod)

lemma read_varint_varint:
  assumes "n < 2 ^ (64 - s)" and "s < 64" and "dAtA = pre @ varint n @ post"
  shows "read_varint dAtA (length pre) s v = Inr (v OR push_bit s (of_nat n), length pre + length (varint n))"
  using assms
proof (induction n arbitrary: s v pre rule: varint.induct)
  case (1 n)
  show ?case
  proof (cases "n < 128")
    case True
    have b: "dAtA ! length pre = of_nat n" "length pre < length dAtA"
      using 1(4) True by (simp_all add: varint.simps)
    with True 1(3) show ?thesis
      by (simp add: read_varint.simps varint.simps low_bits byte_less_128)
  next
    case False
    let ?b = "of_nat (n mod 128 + 128) :: byte"
    let ?v = "v OR push_bit s (of_nat (n mod 128))"
    have d: "dAtA = (pre @ [?b]) @ varint (n div 128) @ post" using 1(4) False by (simp add: varint.simps)
    have s: "s + 7 < 64"
    proof (rule ccontr)
      assume "\<not> s + 7 < 64"
      then have "(2::nat) ^ (64 - s) \<le> 2 ^ 7" by (intro power_increasing) auto
      with 1(2) False show False by simp
    qed
    have e: "64 - s = 7 + (64 - (s + 7))" using s by simp
    have "(2::nat) ^ (64 - s) = 2 ^ 7 * 2 ^ (64 - (s + 7))"
      by (subst e) (simp only: power_add)
    then have n: "n div 128 < 2 ^ (64 - (s + 7))" using 1(2) by (simp add: div_less_iff_less_mult mult.commute)
    have b: "dAtA ! length pre = ?b" "length pre < length dAtA" unfolding d by (simp_all add: nth_append)
    have big: "\<not> ?b < 128" by (subst byte_less_128) simp_all
    have low: "(ucast (?b AND 127) :: 64 word) = of_nat (n mod 128)" by (subst low_bits) simp
    have "read_varint dAtA (length (pre @ [?b])) (s + 7) ?v =
        Inr (?v OR push_bit (s + 7) (of_nat (n div 128)), length (pre @ [?b]) + length (varint (n div 128)))"
      by (rule 1(1) [OF False n s d])
    moreover have "?v OR push_bit (s + 7) (of_nat (n div 128)) = v OR push_bit s (of_nat n)"
      by (subst of_nat_split7 [of n]) (simp add: push_bit_or or.assoc flip: push_bit_push_bit)
    ultimately show ?thesis
      using b big low s False by (simp add: read_varint.simps [of dAtA "length pre"] varint.simps [of n] Let_def)
  qed
qed

lemma read_varint_at:
  "n < 2 ^ 64 \<Longrightarrow> read_varint (pre @ varint n @ post) (length pre) 0 0 = Inr (of_nat n, length pre + length (varint n))"
  using read_varint_varint [of n 0 _ pre post 0] by simp

lemma read_byte_at:
  "n < 128 \<Longrightarrow> read_varint (pre @ of_nat n # post) (length pre) 0 0 = Inr (of_nat n, length pre + 1)"
  using read_varint_at [of n pre post] by (simp add: varint.simps)

lemma read_bytes_at:
  assumes "length pre + length (varint (length bs)) + length bs < 2 ^ 63"
  shows "read_bytes (pre @ varint (length bs) @ bs @ post) (length pre) =
    Inr (bs, length pre + length (varint (length bs)) + length bs)"
proof -
  have "length bs < 2 ^ 63" using assms by linarith
  then have "sint (of_nat (length bs) :: 64 word) = int (length bs)"
    by (simp add: signed_of_nat signed_take_bit_int_eq_self)
  then show ?thesis
    using assms read_varint_at [of "length bs" pre "bs @ post"]
    by (simp add: read_bytes_def negative_index_def)
qed

section \<open>Fields\<close>

definition decodes :: "'m schema \<Rightarrow> byte list \<Rightarrow> 'm \<Rightarrow> 'm \<Rightarrow> bool" where
  "decodes s bs m m' \<longleftrightarrow> (\<forall>pre post. length (pre @ bs) < 2 ^ 63 \<longrightarrow>
     fields_loop s (pre @ bs @ post) (length pre) m = fields_loop s (pre @ bs @ post) (length (pre @ bs)) m')"

named_theorems decoder

lemma decodes_Nil [decoder]: "decodes s [] m m"
  by (simp add: decodes_def)

lemma decodes_append: "decodes s bs m m' \<Longrightarrow> decodes s bs' m' m'' \<Longrightarrow> decodes s (bs @ bs') m m''"
  unfolding decodes_def
proof (intro allI impI)
  fix pre post
  assume a: "\<forall>pre post. length (pre @ bs) < 2 ^ 63 \<longrightarrow>
      fields_loop s (pre @ bs @ post) (length pre) m = fields_loop s (pre @ bs @ post) (length (pre @ bs)) m'"
    and b: "\<forall>pre post. length (pre @ bs') < 2 ^ 63 \<longrightarrow>
      fields_loop s (pre @ bs' @ post) (length pre) m' = fields_loop s (pre @ bs' @ post) (length (pre @ bs')) m''"
    and len: "length (pre @ bs @ bs') < 2 ^ 63"
  show "fields_loop s (pre @ (bs @ bs') @ post) (length pre) m =
      fields_loop s (pre @ (bs @ bs') @ post) (length (pre @ bs @ bs')) m''"
    using a [rule_format, of pre "bs' @ post"] b [rule_format, of "pre @ bs" post] len by simp
qed

lemma decodes_whole:
  "decodes s bs m m' \<Longrightarrow> length bs < 2 ^ 63 \<Longrightarrow> fields_loop s bs 0 m = Inr m'"
  using fields_loop.simps [of s bs "length bs" m'] unfolding decodes_def
  by (metis append.left_neutral append.right_neutral length_0_conv less_irrefl)

lemma decodesI:
  assumes "bs \<noteq> []" and "\<And>pre post. length (pre @ bs) < 2 ^ 63 \<Longrightarrow>
    read_field s (pre @ bs @ post) (length pre) m = Inr (m', length (pre @ bs))"
  shows "decodes s bs m m'"
  unfolding decodes_def
proof (intro allI impI)
  fix pre post
  assume "length (pre @ bs) < 2 ^ 63"
  from assms(2) [OF this] assms(1)
  show "fields_loop s (pre @ bs @ post) (length pre) m = fields_loop s (pre @ bs @ post) (length (pre @ bs)) m'"
    by (simp add: fields_loop.simps [of s "pre @ bs @ post" "length pre"])
qed

text \<open>The tag of field \<open>k\<close> with wire type \<open>t\<close>.\<close>

lemma read_tag:
  assumes "1 \<le> k" and "k < 8" and "t < 8"
  shows "sint (ucast (drop_bit 3 (of_nat (8 * k + t) :: 64 word)) :: 32 word) = int k"
    and "unat ((of_nat (8 * k + t) :: 64 word) AND 7) = t"
proof -
  have "k \<in> {1, 2, 3, 4, 5, 6, 7}" using assms(1,2) by auto
  moreover have "t \<in> {0, 1, 2, 3, 4, 5, 6, 7}" using assms(3) by auto
  ultimately show "sint (ucast (drop_bit 3 (of_nat (8 * k + t) :: 64 word)) :: 32 word) = int k"
    "unat ((of_nat (8 * k + t) :: 64 word) AND 7) = t"
    by auto
qed

lemma decodes_bytes:
  assumes "sch_field s (int k) = Some (BytesField name f)" and "length bs < 2 ^ 63 \<Longrightarrow> f bs m = Inr m'"
    and "1 \<le> k" and "k < 8"
  shows "decodes s (enc_bytes (of_nat (8 * k + 2)) bs) m m'"
proof (rule decodesI)
  fix pre post
  let ?d = "pre @ enc_bytes (of_nat (8 * k + 2)) bs @ post"
  assume len: "length (pre @ enc_bytes (of_nat (8 * k + 2)) bs) < 2 ^ 63"
  have "read_varint ?d (length pre) 0 0 = Inr (of_nat (8 * k + 2), length pre + 1)"
    using read_byte_at [of "8 * k + 2" pre "varint (length bs) @ bs @ post"] assms(4) by (simp add: enc_bytes_def)
  moreover have "read_bytes ?d (length pre + 1) = Inr (bs, length (pre @ enc_bytes (of_nat (8 * k + 2)) bs))"
    using read_bytes_at [of "pre @ [of_nat (8 * k + 2)]" bs post] len by (simp add: enc_bytes_def)
  moreover have "f bs m = Inr m'" by (rule assms(2)) (use len in \<open>simp add: enc_bytes_def\<close>)
  ultimately show "read_field s ?d (length pre) m = Inr (m', length (pre @ enc_bytes (of_nat (8 * k + 2)) bs))"
    using read_tag [OF assms(3,4), of 2] assms(1,3) by (simp add: read_field_def Let_def)
qed (simp add: enc_bytes_def)

lemma decodes_varint:
  assumes "sch_field s (int k) = Some (VarintField name f)" and "f v m = m'" and "1 \<le> k" and "k < 8"
  shows "decodes s (of_nat (8 * k) # varint (unat v)) m m'"
proof (rule decodesI)
  fix pre post
  let ?d = "pre @ (of_nat (8 * k) # varint (unat v)) @ post"
  have "read_varint ?d (length pre) 0 0 = Inr (of_nat (8 * k), length pre + 1)"
    using read_byte_at [of "8 * k" pre "varint (unat v) @ post"] assms(4) by simp
  moreover have "read_varint ?d (length pre + 1) 0 0 = Inr (v, length (pre @ (of_nat (8 * k) # varint (unat v))))"
    using read_varint_at [of "unat v" "pre @ [of_nat (8 * k)]" post] unsigned_less [of v] by simp
  ultimately show "read_field s ?d (length pre) m = Inr (m', length (pre @ (of_nat (8 * k) # varint (unat v))))"
    using read_tag [OF assms(3,4), of 0] assms(1,2,3) by (simp add: read_field_def Let_def)
qed simp

lemma char_of_byte: "char_of (unat (of_char c :: byte)) = c"
proof -
  have "unat (of_char c :: byte) = of_char c mod 256"
    by (subst of_nat_of_char [symmetric]) (simp add: unsigned_of_nat take_bit_eq_mod del: of_char_mod_256)
  then show ?thesis by simp
qed

lemma bytes_string_bytes [simp]: "bytes_string (string_bytes s) = s"
  by (simp add: bytes_string_def string_bytes_def comp_def char_of_byte)

text \<open>
  What a message type promises to the message that contains it: the messages it accepts are
  there, and are decoded from their encoding.
\<close>

locale message_codec =
  fixes enc :: "'x ptr \<Rightarrow> byte list"
    and dec :: "byte list \<Rightarrow> 'x outcome"
    and ok :: "'x ptr \<Rightarrow> bool"
  assumes dec_enc: "ok m \<Longrightarrow> length (enc m) < 2 ^ 63 \<Longrightarrow> dec (enc m) = Inr (the m)"
    and ok_Some: "ok m \<Longrightarrow> m \<noteq> None"
begin

text \<open>A repeated field: \<open>add\<close> appends what was decoded to the containing message.\<close>

lemma decodes_repeated:
  assumes "sch_field s (int k) = Some (BytesField name f)" and "1 \<le> k" and "k < 8"
    and f: "\<And>bs m. f bs m = (case dec bs of Inl e \<Rightarrow> Inl e | Inr x \<Rightarrow> Inr (add [Some x] m))"
    and add: "\<And>a b m. add b (add a m) = add (a @ b) m" "\<And>m. add [] m = m"
    and "list_all ok xs"
  shows "decodes s (concat (map (\<lambda>x. enc_bytes (of_nat (8 * k + 2)) (enc x)) xs)) m (add xs m)"
  using assms(7)
proof (induction xs arbitrary: m)
  case (Cons x xs)
  then have "ok x" by simp
  then have "Some (the x) = x" using ok_Some by fastforce
  then have "length (enc x) < 2 ^ 63 \<Longrightarrow> f (enc x) m = Inr (add [x] m)"
    using dec_enc [OF \<open>ok x\<close>] by (simp add: f)
  then have "decodes s (enc_bytes (of_nat (8 * k + 2)) (enc x)) m (add [x] m)"
    by (rule decodes_bytes [OF assms(1) _ assms(2,3)])
  moreover have "decodes s (concat (map (\<lambda>x. enc_bytes (of_nat (8 * k + 2)) (enc x)) xs)) (add [x] m) (add xs (add [x] m))"
    using Cons by simp
  ultimately show ?case by (simp add: decodes_append add(1))
qed (simp add: decodes_Nil add(2))

end

section \<open>Messages\<close>

text \<open>A message of the SDK has no bytes that a newer schema left over.\<close>

definition plain_Content :: "Log_Content ptr \<Rightarrow> bool" where
  "plain_Content m = (case m of None \<Rightarrow> True | Some c \<Rightarrow> Content_XXX_unrecognized c = [])"

definition plain_Tag :: "LogTag ptr \<Rightarrow> bool" where
  "plain_Tag m = (case m of None \<Rightarrow> True | Some c \<Rightarrow> Tag_XXX_unrecognized c = [])"

definition plain_Log :: "Log ptr \<Rightarrow> bool" where
  "plain_Log m = (case m of None \<Rightarrow> True | Some l \<Rightarrow>
     Log_XXX_unrecognized l = [] \<and> list_all plain_Content (Log_Contents l))"

definition plain_Group :: "LogGroup ptr \<Rightarrow> bool" where
  "plain_Group m = (case m of None \<Rightarrow> True | Some g \<Rightarrow> Group_XXX_unrecognized g = [] \<and>
     list_all plain_Log (Group_Logs g) \<and> list_all plain_Tag (Group_LogTags g))"

definition plain_GroupList :: "LogGroupList ptr \<Rightarrow> bool" where
  "plain_GroupList m = (case m of None \<Rightarrow> True | Some g \<Rightarrow> List_XXX_unrecognized g = [] \<and>
     list_all plain_Group (List_LogGroupList g))"

lemma valid_Some:
  "valid_Content c \<Longrightarrow> \<exists>y. c = Some y" "valid_Tag t \<Longrightarrow> \<exists>y. t = Some y"
  "valid_Log l \<Longrightarrow> \<exists>y. l = Some y" "valid_Group g \<Longrightarrow> \<exists>y. g = Some y"
  by (auto simp: valid_Content_def valid_Tag_def valid_Log_def valid_Group_def split: option.splits)

lemma Content_Key_field: "decodes Content_schema (enc_bytes 10 (string_bytes v)) (m, has)
    (m\<lparr>Content_Key := Some v\<rparr>, has OR 1)"
  using decodes_bytes [of Content_schema 1] by (simp add: Content_schema_def)

lemma Content_Value_field: "decodes Content_schema (enc_bytes 18 (string_bytes v)) (m, has)
    (m\<lparr>Content_Value := Some v\<rparr>, has OR 2)"
  using decodes_bytes [of Content_schema 2] by (simp add: Content_schema_def)

lemma Content_Unmarshal:
  assumes "valid_Content m" and "plain_Content m" and "length (enc_Content m) < 2 ^ 63"
  shows "Log_Content_Unmarshal (enc_Content m) = Inr (the m)"
proof -
  from assms(1,2) obtain a b where m: "m = Some \<lparr>Content_Key = Some a, Content_Value = Some b,
      Content_XXX_unrecognized = []\<rparr>"
    by (cases m; cases "the m") (auto simp: valid_Content_def plain_Content_def)
  have "decodes Content_schema (enc_Content m) (empty_Content, 0) (the m, 3)"
    using decodes_append [OF Content_Key_field [of a empty_Content 0] Content_Value_field]
    by (simp add: m enc_Content_def enc_string_def empty_Content_def)
  from decodes_whole [OF this assms(3)] show ?thesis by (simp add: Log_Content_Unmarshal_def required_def)
qed

interpretation content: message_codec enc_Content Log_Content_Unmarshal "\<lambda>m. valid_Content m \<and> plain_Content m"
  by unfold_locales (use Content_Unmarshal valid_Some in blast)+

lemma Tag_Key_field: "decodes Tag_schema (enc_bytes 10 (string_bytes v)) (m, has) (m\<lparr>Tag_Key := Some v\<rparr>, has OR 1)"
  using decodes_bytes [of Tag_schema 1] by (simp add: Tag_schema_def)

lemma Tag_Value_field: "decodes Tag_schema (enc_bytes 18 (string_bytes v)) (m, has) (m\<lparr>Tag_Value := Some v\<rparr>, has OR 2)"
  using decodes_bytes [of Tag_schema 2] by (simp add: Tag_schema_def)

lemma Tag_Unmarshal:
  assumes "valid_Tag m" and "plain_Tag m" and "length (enc_Tag m) < 2 ^ 63"
  shows "LogTag_Unmarshal (enc_Tag m) = Inr (the m)"
proof -
  from assms(1,2) obtain a b where m: "m = Some \<lparr>Tag_Key = Some a, Tag_Value = Some b, Tag_XXX_unrecognized = []\<rparr>"
    by (cases m; cases "the m") (auto simp: valid_Tag_def plain_Tag_def)
  have "decodes Tag_schema (enc_Tag m) (empty_Tag, 0) (the m, 3)"
    using decodes_append [OF Tag_Key_field [of a empty_Tag 0] Tag_Value_field]
    by (simp add: m enc_Tag_def enc_string_def empty_Tag_def)
  from decodes_whole [OF this assms(3)] show ?thesis by (simp add: LogTag_Unmarshal_def required_def)
qed

interpretation tag: message_codec enc_Tag LogTag_Unmarshal "\<lambda>m. valid_Tag m \<and> plain_Tag m"
  by unfold_locales (use Tag_Unmarshal valid_Some in blast)+

lemma Log_Time_field: "decodes Log_schema (8 # varint (unat v)) (m, has) (m\<lparr>Log_Time := Some v\<rparr>, has OR 1)"
  using decodes_varint [of Log_schema 1] by (simp add: Log_schema_def)

lemma Log_CollectTime_field:
  "decodes Log_schema (enc_varint 24 f) (m, has) (case f of None \<Rightarrow> m | Some v \<Rightarrow> m\<lparr>Log_CollectTime := Some v\<rparr>, has)"
  using decodes_varint [of Log_schema 3] by (cases f) (simp_all add: enc_varint_def decodes_Nil Log_schema_def)

lemma Log_Contents_field:
  assumes "list_all valid_Content cs" and "list_all plain_Content cs"
  shows "decodes Log_schema (concat (map (\<lambda>c. enc_bytes 18 (enc_Content c)) cs)) (m, has)
    (m\<lparr>Log_Contents := Log_Contents m @ cs\<rparr>, has)"
proof -
  let ?add = "\<lambda>cs (m, has). (m\<lparr>Log_Contents := Log_Contents m @ cs\<rparr>, has :: 64 word)"
  have "decodes Log_schema (concat (map (\<lambda>c. enc_bytes (of_nat (8 * 2 + 2)) (enc_Content c)) cs)) (m, has) (?add cs (m, has))"
  proof (rule content.decodes_repeated)
    show "sch_field Log_schema (int 2) = Some (BytesField ''Contents'' (\<lambda>bs (m, has).
         (case Log_Content_Unmarshal bs of
            Inl e \<Rightarrow> Inl e
          | Inr c \<Rightarrow> Inr (m\<lparr>Log_Contents := Log_Contents m @ [Some c]\<rparr>, has))))"
      by (simp add: Log_schema_def)
  qed (use assms in \<open>auto simp: list_all_iff split: sum.split\<close>)
  then show ?thesis by simp
qed

lemma Log_Unmarshal:
  assumes "valid_Log m" and "plain_Log m" and "length (enc_Log m) < 2 ^ 63"
  shows "Log_Unmarshal (enc_Log m) = Inr (the m)"
proof -
  from assms(1,2) obtain t cs ct where m: "m = Some \<lparr>Log_Time = Some t, Log_Contents = cs, Log_CollectTime = ct,
      Log_XXX_unrecognized = []\<rparr>" and cs: "list_all valid_Content cs" "list_all plain_Content cs"
    by (cases m; cases "the m") (auto simp: valid_Log_def plain_Log_def)
  have "decodes Log_schema (enc_Log m) (empty_Log, 0) (the m, 1)"
    using decodes_append [OF Log_Time_field [of t empty_Log 0]
        decodes_append [OF Log_Contents_field [OF cs] Log_CollectTime_field [of ct]]]
    by (cases ct) (simp_all add: m enc_Log_def enc_varint_def empty_Log_def)
  from decodes_whole [OF this assms(3)] show ?thesis by (simp add: Log_Unmarshal_def required_def)
qed

interpretation log: message_codec enc_Log Log_Unmarshal "\<lambda>m. valid_Log m \<and> plain_Log m"
  by unfold_locales (use Log_Unmarshal valid_Some in blast)+

lemma Group_Logs_field:
  assumes "list_all valid_Log ls" and "list_all plain_Log ls"
  shows "decodes Group_schema (concat (map (\<lambda>l. enc_bytes 10 (enc_Log l)) ls)) g
    (g\<lparr>Group_Logs := Group_Logs g @ ls\<rparr>)"
proof -
  let ?add = "\<lambda>ls g. g\<lparr>Group_Logs := Group_Logs g @ ls\<rparr>"
  have "decodes Group_schema (concat (map (\<lambda>l. enc_bytes (of_nat (8 * 1 + 2)) (enc_Log l)) ls)) g (?add ls g)"
  proof (rule log.decodes_repeated)
    show "sch_field Group_schema (int 1) = Some (BytesField ''Logs'' (\<lambda>bs m.
         (case Log_Unmarshal bs of
            Inl e \<Rightarrow> Inl e
          | Inr l \<Rightarrow> Inr (m\<lparr>Group_Logs := Group_Logs m @ [Some l]\<rparr>))))"
      by (simp add: Group_schema_def)
  qed (use assms in \<open>auto simp: list_all_iff split: sum.split\<close>)
  then show ?thesis by simp
qed

lemma Group_LogTags_field:
  assumes "list_all valid_Tag ts" and "list_all plain_Tag ts"
  shows "decodes Group_schema (concat (map (\<lambda>t. enc_bytes 42 (enc_Tag t)) ts)) g
    (g\<lparr>Group_LogTags := Group_LogTags g @ ts\<rparr>)"
proof -
  let ?add = "\<lambda>ts g. g\<lparr>Group_LogTags := Group_LogTags g @ ts\<rparr>"
  have "decodes Group_schema (concat (map (\<lambda>t. enc_bytes (of_nat (8 * 5 + 2)) (enc_Tag t)) ts)) g (?add ts g)"
  proof (rule tag.decodes_repeated)
    show "sch_field Group_schema (int 5) = Some (BytesField ''LogTags'' (\<lambda>bs m.
         (case LogTag_Unmarshal bs of
            Inl e \<Rightarrow> Inl e
          | Inr t \<Rightarrow> Inr (m\<lparr>Group_LogTags := Group_LogTags m @ [Some t]\<rparr>))))"
      by (simp add: Group_schema_def)
  qed (use assms in \<open>auto simp: list_all_iff split: sum.split\<close>)
  then show ?thesis by simp
qed

text \<open>An optional string: absent, it leaves the message alone.\<close>

lemma Group_string_fields:
  "decodes Group_schema (enc_string 18 f) g (case f of None \<Rightarrow> g | Some v \<Rightarrow> g\<lparr>Group_ContextFlow := Some v\<rparr>)"
  "decodes Group_schema (enc_string 26 f) g (case f of None \<Rightarrow> g | Some v \<Rightarrow> g\<lparr>Group_Filename := Some v\<rparr>)"
  "decodes Group_schema (enc_string 34 f) g (case f of None \<Rightarrow> g | Some v \<Rightarrow> g\<lparr>Group_Source := Some v\<rparr>)"
  "decodes Group_schema (enc_string 50 f) g (case f of None \<Rightarrow> g | Some v \<Rightarrow> g\<lparr>Group_Hostname := Some v\<rparr>)"
  using decodes_bytes [of Group_schema 2] decodes_bytes [of Group_schema 3] decodes_bytes [of Group_schema 4]
    decodes_bytes [of Group_schema 6]
  by (cases f; simp add: Group_schema_def enc_string_def decodes_Nil)+

lemma Group_Unmarshal:
  assumes "valid_Group m" and "plain_Group m" and "length (enc_Group m) < 2 ^ 63"
  shows "LogGroup_Unmarshal (enc_Group m) = Inr (the m)"
proof -
  from assms(1,2) obtain ls cf fn sr ts hn where m: "m = Some \<lparr>Group_Logs = ls, Group_ContextFlow = cf,
      Group_Filename = fn, Group_Source = sr, Group_LogTags = ts, Group_Hostname = hn, Group_XXX_unrecognized = []\<rparr>"
    and ls: "list_all valid_Log ls" "list_all plain_Log ls" and ts: "list_all valid_Tag ts" "list_all plain_Tag ts"
    by (cases m; cases "the m") (auto simp: valid_Group_def plain_Group_def)
  have "decodes Group_schema (enc_Group m) empty_Group (the m)"
    using decodes_append [OF Group_Logs_field [OF ls, of empty_Group]
      decodes_append [OF Group_string_fields(1) [of cf] decodes_append [OF Group_string_fields(2) [of fn]
        decodes_append [OF Group_string_fields(3) [of sr] decodes_append [OF Group_LogTags_field [OF ts]
          Group_string_fields(4) [of hn]]]]]]
    by (cases cf; cases fn; cases sr; cases hn) (simp_all add: m enc_Group_def empty_Group_def)
  from decodes_whole [OF this assms(3)] show ?thesis by (simp add: LogGroup_Unmarshal_def)
qed

interpretation grp: message_codec enc_Group LogGroup_Unmarshal "\<lambda>m. valid_Group m \<and> plain_Group m"
  by unfold_locales (use Group_Unmarshal valid_Some in blast)+

lemma GroupList_Unmarshal:
  assumes "valid_GroupList m" and "plain_GroupList m" and "length (enc_GroupList m) < 2 ^ 63"
  shows "LogGroupList_Unmarshal (enc_GroupList m) = Inr (the m)"
proof -
  from assms(1,2) obtain gs where m: "m = Some \<lparr>List_LogGroupList = gs, List_XXX_unrecognized = []\<rparr>"
    and gs: "list_all valid_Group gs" "list_all plain_Group gs"
    by (cases m; cases "the m") (auto simp: valid_GroupList_def plain_GroupList_def)
  let ?add = "\<lambda>gs m. m\<lparr>List_LogGroupList := List_LogGroupList m @ gs\<rparr>"
  have "decodes GroupList_schema (concat (map (\<lambda>g. enc_bytes (of_nat (8 * 1 + 2)) (enc_Group g)) gs))
      empty_GroupList (?add gs empty_GroupList)"
  proof (rule grp.decodes_repeated)
    show "sch_field GroupList_schema (int 1) = Some (BytesField ''LogGroupList'' (\<lambda>bs m.
         (case LogGroup_Unmarshal bs of
            Inl e \<Rightarrow> Inl e
          | Inr g \<Rightarrow> Inr (m\<lparr>List_LogGroupList := List_LogGroupList m @ [Some g]\<rparr>))))"
      by (simp add: GroupList_schema_def)
  qed (use gs in \<open>auto simp: list_all_iff split: sum.split\<close>)
  then have "decodes GroupList_schema (enc_GroupList m) empty_GroupList (the m)"
    by (simp add: m enc_GroupList_def empty_GroupList_def)
  from decodes_whole [OF this assms(3)] show ?thesis by (simp add: LogGroupList_Unmarshal_def)
qed

text \<open>
  C21: what is marshalled is read back.  For every list of log groups of the SDK (required
  fields set, nothing nil inside, no bytes left over from another schema) whose encoding is
  shorter than \<open>2 ^ 63\<close> bytes, \<open>Marshal\<close> succeeds and \<open>Unmarshal\<close> of its bytes is the
  same list, with every log, content and tag in its order.
\<close>

theorem Marshal_Unmarshal:
  assumes "valid_GroupList (Some m)" and "plain_GroupList (Some m)" and "length (enc_GroupList (Some m)) < 2 ^ 63"
  shows "\<exists>bs. LogGroupList_Marshal (Some m) = Inr bs \<and> LogGroupList_Unmarshal bs = Inr m"
  using GroupList_Unmarshal [OF assms] list_writer.Marshal_valid [OF assms(1), folded LogGroupList_Marshal_def] assms(3) by simp

theorem Marshal_Unmarshal_witness:
  "\<exists>bs. LogGroupList_Marshal ex_message = Inr bs \<and> LogGroupList_Unmarshal bs = Inr (the ex_message)"
proof -
  have "ex_message = Some (the ex_message)" by (simp add: ex_message_def)
  moreover have "valid_GroupList ex_message" "plain_GroupList ex_message"
    by (simp_all add: ex_message_def valid_GroupList_def valid_Group_def valid_Log_def valid_Content_def
        plain_GroupList_def plain_Group_def plain_Log_def plain_Content_def)
  moreover have "length (enc_GroupList ex_message) < 2 ^ 63" by (simp add: ex_message_bytes)
  ultimately show ?thesis using Marshal_Unmarshal [of "the ex_message"] by simp
qed

text \<open>A log built by \<open>NewCLSLog\<close> is always within the round trip.\<close>

lemma NewCLSLog_encodable: "valid_Log (Some (NewCLSLog t m)) \<and> plain_Log (Some (NewCLSLog t m))"
  by (auto simp: NewCLSLog_def valid_Log_def plain_Log_def list_all_iff valid_Content_def plain_Content_def)

end
