(* ===== verification/Pull_Logs.thy ===== *)
theory Pull_Logs
  imports Partition_Worker Cls_Roundtrip Signature
begin

text \<open>
  \<^verbatim>\<open>pull_logs.go\<close>: the signed request that pulls a partition, and the parsing of the
  answer, which is JSON in Snappy and holds one frame in base64 per log group.  Transport,
  JSON, Snappy, base64 and the hashes are arguments; the frames and the groups in them are
  parsed here.
\<close>

section \<open>The request\<close>

record PullLogsClient =
  pl_Endpoint :: string
  pl_SecretId :: string
  pl_SecretKey :: string
  pl_Token :: string
  pl_UserAgent :: string

definition NewPullLogsClient :: "string \<Rightarrow> string \<Rightarrow> string \<Rightarrow> string \<Rightarrow> string \<Rightarrow> PullLogsClient" where
  "NewPullLogsClient endpoint secretId secretKey token userAgent =
     \<lparr>pl_Endpoint = endpoint, pl_SecretId = secretId, pl_SecretKey = secretKey, pl_Token = token,
      pl_UserAgent = userAgent\<rparr>"

text \<open>The body of the request, before it is turned into JSON.\<close>

record PullLogsRequest =
  plr_StartOffset :: int
  plr_Size :: int
  plr_CompressType :: string
  plr_PartitionId :: int
  plr_StartTime :: int
  plr_EndTime :: "int ptr"
  plr_Query :: string

definition pull_body :: "PullRequest \<Rightarrow> PullLogsRequest" where
  "pull_body r =
     \<lparr>plr_StartOffset = pr_offset r, plr_Size = pr_size r, plr_CompressType = ''snappy'',
      plr_PartitionId = pr_partitionID r,
      plr_StartTime = (case pr_startTime r of None \<Rightarrow> 0 | Some t \<Rightarrow> t),
      plr_EndTime = pr_endTime r, plr_Query = pr_query r\<rparr>"

definition pull_headers :: "PullLogsClient \<Rightarrow> url_values" where
  "pull_headers c =
     [(''Host'', [pl_Endpoint c]), (''Content-Type'', [''application/json'']),
      (''User-Agent'', [if pl_UserAgent c \<noteq> '''' then pl_UserAgent c else ''tc-cls-sdk-go/1.0.0''])] @
     (if pl_Token c \<noteq> '''' then [(''X-Cls-Token'', [pl_Token c])] else [])"

record PullHttpRequest =
  plq_url :: string
  plq_headers :: url_values
  plq_body :: "byte list"

text \<open>A failed round trip, or the status and the body (\<open>Inl\<close>: it could not be read).\<close>

datatype pull_result = PullFailed string | PullResponse int "string + byte list"

record PullEnv =
  pe_Marshal :: "PullLogsRequest \<Rightarrow> string + byte list"
  pe_sha1 :: Sha1
  pe_now1 :: int
  pe_now2 :: int
  pe_NewRequest :: "string \<Rightarrow> string ptr"
  pe_Do :: "PullHttpRequest \<Rightarrow> pull_result"
  pe_snappy :: "byte list \<Rightarrow> string + byte list"
  pe_json :: "byte list \<Rightarrow> string + (int \<times> string list)"
  pe_base64 :: "string \<Rightarrow> string + byte list"

text \<open>The error of a status other than 200 quotes the body.\<close>

definition pull_answer :: "pull_result \<Rightarrow> byte list outcome" where
  "pull_answer r = (case r of
       PullFailed e \<Rightarrow> Inl (Errorf e)
     | PullResponse status (Inl e) \<Rightarrow> Inl (Errorf e)
     | PullResponse status (Inr body) \<Rightarrow>
         if status \<noteq> 200 then Inl (Errorf (''pull logs failed, HTTP '' @ decimal status @ '': '' @ bytes_string body))
         else Inr body)"

definition PullLogs :: "PullEnv \<Rightarrow> PullLogsClient \<Rightarrow> PullRequest \<Rightarrow> byte list outcome" where
  "PullLogs env c r =
     (case pe_Marshal env (pull_body r) of
        Inl e \<Rightarrow> Inl (Errorf e)
      | Inr body \<Rightarrow>
          let params = [(''topic_id'', [pr_topicID r])];
              url = ''https://'' @ pl_Endpoint c @ ''/pull_log?'' @ values_Encode params;
              headers = pull_headers c
          in (case signature (pe_sha1 env) (pe_now1 env) (pe_now2 env) (pl_SecretId c) (pl_SecretKey c) ''POST''
                     ''/pull_log'' params headers 300 of
                Inl e \<Rightarrow> Inl e
              | Inr auth \<Rightarrow>
                  (case pe_NewRequest env url of
                     Some e \<Rightarrow> Inl (Errorf e)
                   | None \<Rightarrow> pull_answer (pe_Do env
                       \<lparr>plq_url = url, plq_headers = gm_put ''Authorization'' [auth] headers, plq_body = body\<rparr>))))"

section \<open>The answer\<close>

definition bytesToInt32 :: "byte list \<Rightarrow> 32 word" where
  "bytesToInt32 b = push_bit 24 (ucast (b ! 0)) OR push_bit 16 (ucast (b ! 1)) OR
     push_bit 8 (ucast (b ! 2)) OR ucast (b ! 3)"

text \<open>One message: a header of 96 bytes, with the version first and the length last, and the group.\<close>

definition parse_message :: "(string \<Rightarrow> string + byte list) \<Rightarrow> string \<Rightarrow> LogGroup outcome" where
  "parse_message base64 msg =
     (case base64 msg of
        Inl e \<Rightarrow> Inl (Errorf (''base64 decode failed: '' @ e))
      | Inr bMsg \<Rightarrow>
          if length bMsg < 96 then Inl (Errorf ''Message length is less than 96 bytes'')
          else
            let version = sint (bytesToInt32 (take 4 bMsg));
                contentLen = sint (bytesToInt32 (take 4 (drop 92 bMsg)))
            in if version \<noteq> 130 then Inl (Errorf (''unsupported Message version: '' @ decimal version))
               else if int (length bMsg) < 96 + contentLen
               then Inl (Errorf ''Message length does not match contentLen'')
               else if contentLen < 0 then Inl (Panic ''slice bounds out of range'')
               else (case LogGroup_Unmarshal (take (nat contentLen) (drop 96 bMsg)) of
                   Inl (Errorf e) \<Rightarrow> Inl (Errorf (''protobuf parse failed: '' @ e))
                 | Inl (Panic p) \<Rightarrow> Inl (Panic p)
                 | Inr g \<Rightarrow> Inr g))"

fun parse_messages :: "(string \<Rightarrow> string + byte list) \<Rightarrow> string list \<Rightarrow> LogGroup ptr list outcome" where
  "parse_messages base64 [] = Inr []"
| "parse_messages base64 (m # ms) =
     (case parse_message base64 m of
        Inl e \<Rightarrow> Inl e
      | Inr g \<Rightarrow> (case parse_messages base64 ms of Inl e \<Rightarrow> Inl e | Inr gs \<Rightarrow> Inr (Some g # gs)))"

definition ParsePullLogResponse :: "PullEnv \<Rightarrow> byte list \<Rightarrow> PullLogResponse outcome" where
  "ParsePullLogResponse env respBytes =
     (case pe_snappy env respBytes of
        Inl e \<Rightarrow> Inl (Errorf (''snappy decompression failed: '' @ e))
      | Inr decompressed \<Rightarrow>
          (case pe_json env decompressed of
             Inl e \<Rightarrow> Inl (Errorf (''json parse failed: '' @ e))
           | Inr (nextOffset, messages) \<Rightarrow>
               (case parse_messages (pe_base64 env) messages of
                  Inl e \<Rightarrow> Inl e
                | Inr logGroups \<Rightarrow> Inr \<lparr>NextOffset = nextOffset, LogGroups = logGroups\<rparr>)))"

definition PullLogsAndParse :: "PullEnv \<Rightarrow> PullLogsClient \<Rightarrow> PullRequest \<Rightarrow> PullLogResponse outcome" where
  "PullLogsAndParse env c r =
     (case PullLogs env c r of Inl e \<Rightarrow> Inl e | Inr respBytes \<Rightarrow> ParsePullLogResponse env respBytes)"

definition GetLogCount :: "PullLogResponse \<Rightarrow> int" where
  "GetLogCount r = int (length (LogGroups r))"

end
