(* ===== verification/Pull_Logs_Props.thy ===== *)
theory Pull_Logs_Props
  imports Pull_Logs
begin

text \<open>
  The properties of a pull: the frames of a well-formed answer give back the log groups that
  were put into them, and the one thing that makes a pull panic.
\<close>

section \<open>Frames\<close>

text \<open>The four bytes of a length, most significant first.\<close>

definition be32 :: "nat \<Rightarrow> byte list" where
  "be32 n = [of_nat (n div 2 ^ 24), of_nat (n div 2 ^ 16), of_nat (n div 2 ^ 8), of_nat n]"

lemma bit_be_byte:
  "bit (push_bit k (ucast (of_nat (drop_bit k n) :: byte)) :: 32 word) i \<longleftrightarrow> k \<le> i \<and> i < k + 8 \<and> i < 32 \<and> bit n i"
  by (auto simp: bit_simps)

lemma be32_word:
  "push_bit 24 (ucast (of_nat (drop_bit 24 n) :: byte)) OR push_bit 16 (ucast (of_nat (drop_bit 16 n) :: byte)) OR
   push_bit 8 (ucast (of_nat (drop_bit 8 n) :: byte)) OR push_bit 0 (ucast (of_nat (drop_bit 0 n) :: byte)) =
   (of_nat n :: 32 word)" (is "?l = _")
proof (rule bit_eqI)
  fix i :: nat
  show "bit ?l i = bit (of_nat n :: 32 word) i"
    unfolding bit_or_iff bit_be_byte by (auto simp: bit_simps)
qed

lemma bytesToInt32_be32: "bytesToInt32 (be32 n @ rest) = of_nat n"
proof -
  have d: "n div 2 ^ 24 = drop_bit 24 n" "n div 2 ^ 16 = drop_bit 16 n" "n div 2 ^ 8 = drop_bit 8 n"
    by (simp_all add: drop_bit_eq_div)
  have i: "(be32 n @ rest) ! 0 = of_nat (drop_bit 24 n)" "(be32 n @ rest) ! 1 = of_nat (drop_bit 16 n)"
    "(be32 n @ rest) ! 2 = of_nat (drop_bit 8 n)" "(be32 n @ rest) ! 3 = of_nat n"
    by (simp_all add: be32_def flip: d)
  show ?thesis
    unfolding bytesToInt32_def i using be32_word [of n] by (simp only: push_bit_eq_mult drop_bit_eq_div power_0 mult_1_right div_by_1)
qed

lemma length_be32 [simp]: "length (be32 n) = 4"
  by (simp add: be32_def)

lemma sint_be32: "n < 2 ^ 31 \<Longrightarrow> sint (bytesToInt32 (be32 n @ rest)) = int n"
  by (subst bytesToInt32_be32) (simp_all add: signed_of_nat signed_take_bit_int_eq_self)

text \<open>A frame: version, 88 bytes that are not read, length, the encoded group; what follows is not read.\<close>

definition frame_of :: "byte list \<Rightarrow> LogGroup \<Rightarrow> bool" where
  "frame_of b g \<longleftrightarrow> valid_Group (Some g) \<and> plain_Group (Some g) \<and>
     (\<exists>mid tail. length mid = 88 \<and> length (enc_Group (Some g)) < 2 ^ 31 \<and>
        b = be32 130 @ mid @ be32 (length (enc_Group (Some g))) @ enc_Group (Some g) @ tail)"

lemma parse_message_frame:
  assumes "base64 msg = Inr b" and "frame_of b g"
  shows "parse_message base64 msg = Inr g"
proof -
  let ?c = "enc_Group (Some g)"
  from assms(2) obtain mid tail where b: "b = be32 130 @ mid @ be32 (length ?c) @ ?c @ tail"
    and mid: "length mid = 88" and c: "length ?c < 2 ^ 31"
    and ok: "valid_Group (Some g)" "plain_Group (Some g)"
    by (auto simp: frame_of_def)
  have "take 4 b = be32 130" "take 4 (drop 92 b) = be32 (length ?c)" "drop 96 b = ?c @ tail" "96 + length ?c \<le> length b"
    using mid by (simp_all add: b)
  moreover have "sint (bytesToInt32 (be32 130)) = 130" using sint_be32 [of 130 "[]"] by simp
  moreover have "sint (bytesToInt32 (be32 (length ?c))) = int (length ?c)" using sint_be32 [OF c, of "[]"] by simp
  moreover have "LogGroup_Unmarshal ?c = Inr g" using Group_Unmarshal [OF ok] c by simp
  ultimately show ?thesis using assms(1) by (simp add: parse_message_def)
qed

lemma parse_messages_frames:
  assumes "list_all2 (\<lambda>msg g. \<exists>b. base64 msg = Inr b \<and> frame_of b g) msgs gs"
  shows "parse_messages base64 msgs = Inr (map Some gs)"
  using assms by (induction rule: list_all2_induct) (auto dest: parse_message_frame)

text \<open>
  C22: pulling reads what was stored.  When the answer unpacks to a next offset and to frames
  that hold the encodings of some log groups, whatever stands in the rest of their headers
  and behind the groups, then the parsed response is that offset and exactly those groups,
  in their order.
\<close>

theorem ParsePullLogResponse_groups:
  assumes "pe_snappy env resp = Inr d" and "pe_json env d = Inr (n, msgs)"
    and "list_all2 (\<lambda>msg g. \<exists>b. pe_base64 env msg = Inr b \<and> frame_of b g) msgs gs"
  shows "ParsePullLogResponse env resp = Inr \<lparr>NextOffset = n, LogGroups = map Some gs\<rparr>"
  using parse_messages_frames [OF assms(3)] assms(1,2) by (simp add: ParsePullLogResponse_def)

section \<open>Panics\<close>

definition no_panic :: "'a outcome \<Rightarrow> bool" where
  "no_panic r \<longleftrightarrow> (\<forall>p. r \<noteq> Inl (Panic p))"

lemma no_panic_simps [simp]: "no_panic (Inr x)" "no_panic (Inl (Errorf e))" "\<not> no_panic (Inl (Panic p))"
  by (simp_all add: no_panic_def)

lemma read_varint_no_panic: "no_panic (read_varint d i s v)"
proof (induction d i s v rule: read_varint.induct)
  case (1 d i s v)
  then show ?case
    by (subst read_varint.simps) (simp add: Let_def int_overflow_def unexpected_eof_def)
qed

lemma read_bytes_no_panic: "no_panic (read_bytes d i)"
  using read_varint_no_panic [of d i 0 0]
  by (auto simp: read_bytes_def Let_def invalid_length_def unexpected_eof_def no_panic_def split: sum.splits)

lemma skip_value_no_panic: "no_panic (skip_value d wt i n)"
  using read_varint_no_panic [of d i 0 0]
  by (auto simp: skip_value_def invalid_length_def no_panic_def split: sum.splits)

lemma skip_loop_no_panic: "no_panic (skip_loop d i n)"
proof (induction d i n rule: skip_loop.induct)
  case (1 d i n)
  show ?case
  proof (cases "read_varint d i 0 0")
    case (Inl e)
    with read_varint_no_panic [of d i 0 0] show ?thesis by (subst skip_loop.simps) (simp add: unexpected_eof_def no_panic_def)
  next
    case (Inr wj)
    obtain w j where wj: "wj = (w, j)" by fastforce
    show ?thesis
      using 1 Inr wj skip_value_no_panic [of d "unat (w AND 7)" j n]
      by (subst skip_loop.simps)
        (auto simp: unexpected_eof_def invalid_length_def no_panic_def split: sum.splits)
  qed
qed

text \<open>A schema whose nested messages do not panic.\<close>

definition safe_schema :: "'m schema \<Rightarrow> bool" where
  "safe_schema s \<longleftrightarrow> (\<forall>n name f bs m. sch_field s n = Some (BytesField name f) \<longrightarrow> no_panic (f bs m))"

lemma read_field_no_panic:
  assumes "safe_schema s"
  shows "no_panic (read_field s d i m)"
proof -
  have "no_panic (unknown_field s d i m)"
    using skip_loop_no_panic [of "drop i d" 0 0]
    by (auto simp: unknown_field_def skipCls_def invalid_length_def unexpected_eof_def no_panic_def split: sum.splits)
  then show ?thesis
    using assms read_varint_no_panic [of d] read_bytes_no_panic [of d]
    by (auto simp: read_field_def safe_schema_def Let_def wrong_wiretype_def no_panic_def split: sum.splits option.splits field.splits)
qed

lemma fields_loop_no_panic:
  assumes "safe_schema s"
  shows "no_panic (fields_loop s d i m)"
  using assms
proof (induction s d i m rule: fields_loop.induct)
  case (1 s d i m)
  show ?case
    using read_field_no_panic [OF 1(2), of d i m] 1
    by (subst fields_loop.simps) (auto simp: unexpected_eof_def no_panic_def split: sum.splits)
qed

lemma required_no_panic: "no_panic r \<Longrightarrow> no_panic (required need r)"
  by (auto simp: required_def required_not_set_def no_panic_def split: sum.splits)

lemma Content_Unmarshal_no_panic: "no_panic (Log_Content_Unmarshal bs)"
  unfolding Log_Content_Unmarshal_def
  by (intro required_no_panic fields_loop_no_panic) (auto simp: safe_schema_def Content_schema_def split: if_splits)

lemma Tag_Unmarshal_no_panic: "no_panic (LogTag_Unmarshal bs)"
  unfolding LogTag_Unmarshal_def
  by (intro required_no_panic fields_loop_no_panic) (auto simp: safe_schema_def Tag_schema_def split: if_splits)

lemma Log_Unmarshal_no_panic: "no_panic (Log_Unmarshal bs)"
  unfolding Log_Unmarshal_def
  by (intro required_no_panic fields_loop_no_panic)
    (use Content_Unmarshal_no_panic in \<open>auto simp: safe_schema_def Log_schema_def no_panic_def split: if_splits sum.splits\<close>)

lemma Group_Unmarshal_no_panic: "no_panic (LogGroup_Unmarshal bs)"
  unfolding LogGroup_Unmarshal_def
  by (intro fields_loop_no_panic)
    (use Log_Unmarshal_no_panic Tag_Unmarshal_no_panic in
      \<open>auto simp: safe_schema_def Group_schema_def no_panic_def split: if_splits sum.splits\<close>)

text \<open>The frame that the length check lets through although its length is negative.\<close>

definition negative_frame :: "byte list \<Rightarrow> bool" where
  "negative_frame b \<longleftrightarrow> 96 \<le> length b \<and> sint (bytesToInt32 (take 4 b)) = 130 \<and>
     sint (bytesToInt32 (take 4 (drop 92 b))) < 0"

lemma parse_message_panics:
  "(\<exists>p. parse_message base64 msg = Inl (Panic p)) \<longleftrightarrow> (\<exists>b. base64 msg = Inr b \<and> negative_frame b)"
proof (cases "base64 msg")
  case (Inr b)
  have "no_panic (LogGroup_Unmarshal (take (nat (sint (bytesToInt32 (take 4 (drop 92 b))))) (drop 96 b)))"
    by (rule Group_Unmarshal_no_panic)
  with Inr show ?thesis
    by (auto simp: parse_message_def negative_frame_def Let_def no_panic_def split: sum.splits failure.splits)
qed (simp add: parse_message_def)

lemma parse_messages_panics:
  "(\<exists>p. parse_messages base64 msgs = Inl (Panic p)) \<longleftrightarrow>
   (\<exists>pre m post b. msgs = pre @ m # post \<and> list_all (\<lambda>x. \<exists>g. parse_message base64 x = Inr g) pre \<and>
      base64 m = Inr b \<and> negative_frame b)"
proof (induction msgs)
  case (Cons m ms)
  have split: "(\<exists>pre x post b. m # ms = pre @ x # post \<and> P pre \<and> Q x b) \<longleftrightarrow>
      (P [] \<and> (\<exists>b. Q m b)) \<or> (\<exists>pre x post b. ms = pre @ x # post \<and> P (m # pre) \<and> Q x b)" for P Q
    by (auto simp: Cons_eq_append_conv)
  show ?case
    unfolding split [of "\<lambda>pre. list_all (\<lambda>x. \<exists>g. parse_message base64 x = Inr g) pre"
        "\<lambda>x b. base64 x = Inr b \<and> negative_frame b"]
      parse_message_panics [symmetric]
    using Cons by (cases "parse_message base64 m") (auto split: sum.splits)
qed simp

lemma pull_headers_named: "(k, v) \<in> set (entries (pull_headers c)) \<Longrightarrow> k \<noteq> []"
  by (auto simp: entries_def pull_headers_def split: if_splits)

lemma signature_pull: "\<exists>auth. signature h t1 t2 i k meth path params (pull_headers c) e = Inr auth"
  using pull_headers_named by (fastforce simp: signature_def Let_def split: prod.splits)

text \<open>
  C31: what makes a pull panic.  The only inputs that do are answers with a frame whose length
  is negative, behind frames that parse: the check compares the size of the frame with the
  header plus the length, which a negative length passes.  No other answer, and nothing in the
  encoded groups, panics: every other failure is an error.
\<close>

theorem PullLogsAndParse_panics:
  "(\<exists>p. PullLogsAndParse env c r = Inl (Panic p)) \<longleftrightarrow>
   (\<exists>resp d n pre m post b. PullLogs env c r = Inr resp \<and> pe_snappy env resp = Inr d \<and>
      pe_json env d = Inr (n, pre @ m # post) \<and>
      list_all (\<lambda>x. \<exists>g. parse_message (pe_base64 env) x = Inr g) pre \<and>
      pe_base64 env m = Inr b \<and> negative_frame b)"
proof -
  obtain auth where "signature (pe_sha1 env) (pe_now1 env) (pe_now2 env) (pl_SecretId c) (pl_SecretKey c) ''POST''
      ''/pull_log'' [(''topic_id'', [pr_topicID r])] (pull_headers c) 300 = Inr auth"
    using signature_pull by blast
  then have "no_panic (PullLogs env c r)"
    by (auto simp: PullLogs_def Let_def pull_answer_def no_panic_def split: sum.splits option.splits pull_result.splits)
  moreover define Q where "Q msgs \<longleftrightarrow> (\<exists>pre m post b. msgs = pre @ m # post \<and>
      list_all (\<lambda>x. \<exists>g. parse_message (pe_base64 env) x = Inr g) pre \<and>
      pe_base64 env m = Inr b \<and> negative_frame b)" for msgs
  have Q: "Q msgs \<longleftrightarrow> (\<exists>p. parse_messages (pe_base64 env) msgs = Inl (Panic p))" for msgs
    by (simp add: Q_def parse_messages_panics)
  have "(\<exists>p. ParsePullLogResponse env resp = Inl (Panic p)) \<longleftrightarrow>
      (\<exists>d n msgs. pe_snappy env resp = Inr d \<and> pe_json env d = Inr (n, msgs) \<and> Q msgs)" for resp
    unfolding Q by (auto simp: ParsePullLogResponse_def split: sum.splits)
  ultimately have "(\<exists>p. PullLogsAndParse env c r = Inl (Panic p)) \<longleftrightarrow>
      (\<exists>resp d n msgs. PullLogs env c r = Inr resp \<and> pe_snappy env resp = Inr d \<and> pe_json env d = Inr (n, msgs) \<and> Q msgs)"
    by (cases "PullLogs env c r") (auto simp: PullLogsAndParse_def no_panic_def)
  also have "\<dots> \<longleftrightarrow> (\<exists>resp d n pre m post b. PullLogs env c r = Inr resp \<and> pe_snappy env resp = Inr d \<and>
      pe_json env d = Inr (n, pre @ m # post) \<and>
      list_all (\<lambda>x. \<exists>g. parse_message (pe_base64 env) x = Inr g) pre \<and>
      pe_base64 env m = Inr b \<and> negative_frame b)"
    unfolding Q_def by blast
  finally show ?thesis .
qed

text \<open>An answer that holds one frame: Snappy and base64 are the identity, JSON is one message.\<close>

definition ex_group :: LogGroup where
  "ex_group = \<lparr>Group_Logs = [], Group_ContextFlow = None, Group_Filename = None, Group_Source = Some ''s'',
     Group_LogTags = [], Group_Hostname = None, Group_XXX_unrecognized = []\<rparr>"

definition ex_frame :: "byte list" where
  "ex_frame = [0, 0, 0, 130] @ replicate 88 0 @ [0, 0, 0, 3, 34, 1, 115, 7]"

definition ex_pull :: PullEnv where
  "ex_pull = \<lparr>pe_Marshal = (\<lambda>r. Inr []), pe_sha1 = \<lparr>calSha1sum = (\<lambda>m. ''00''), calSha1HMACDigest = (\<lambda>k m. ''11'')\<rparr>,
     pe_now1 = 0, pe_now2 = 0, pe_NewRequest = (\<lambda>u. None), pe_Do = (\<lambda>r. PullResponse 200 (Inr ex_frame)),
     pe_snappy = Inr, pe_json = (\<lambda>b. Inr (7, [bytes_string b])), pe_base64 = (\<lambda>s. Inr (string_bytes s))\<rparr>"

lemma string_bytes_string [simp]: "string_bytes (bytes_string b) = b"
proof -
  have "(of_char (char_of (unat x)) :: byte) = x" for x :: byte
  proof -
    have "unat x < 256" using unsigned_less [of x] by simp
    then show ?thesis by (subst of_nat_of_char [symmetric]) simp
  qed
  then show ?thesis by (simp add: string_bytes_def bytes_string_def comp_def)
qed

lemma ex_frame_of: "frame_of ex_frame ex_group"
proof -
  have c: "enc_Group (Some ex_group) = [34, 1, 115]"
    by (simp add: enc_Group_def ex_group_def enc_string_def enc_bytes_def string_bytes_def varint.simps)
  have "ex_frame = be32 130 @ replicate 88 0 @ be32 3 @ [34, 1, 115] @ [7]" by (simp add: ex_frame_def be32_def)
  then show ?thesis
    unfolding frame_of_def c
    by (intro conjI, simp_all add: ex_group_def valid_Group_def plain_Group_def numeral_3_eq_3)
      (rule exI [of _ "replicate 88 0"], simp, rule exI [of _ "[7]"], simp)
qed

theorem ParsePullLogResponse_groups_witness:
  "ParsePullLogResponse ex_pull ex_frame = Inr \<lparr>NextOffset = 7, LogGroups = [Some ex_group]\<rparr>"
  using ParsePullLogResponse_groups [of ex_pull ex_frame ex_frame 7 "[bytes_string ex_frame]" "[ex_group]"] ex_frame_of
  by (simp add: ex_pull_def)

text \<open>The length -1 in the only frame.\<close>

definition ex_negative :: "byte list" where
  "ex_negative = [0, 0, 0, 130] @ replicate 88 0 @ [255, 255, 255, 255]"

lemma ex_negative_frame: "negative_frame ex_negative"
proof -
  have "take 4 ex_negative = [0, 0, 0, 130]" "take 4 (drop 92 ex_negative) = [255, 255, 255, 255]"
    "length ex_negative = 96"
    by (simp_all add: ex_negative_def)
  then show ?thesis by (simp add: negative_frame_def bytesToInt32_def)
qed

theorem PullLogsAndParse_panics_witness:
  "\<forall>c (r :: PullRequest). \<exists>p. PullLogsAndParse (ex_pull\<lparr>pe_Do := \<lambda>r. PullResponse 200 (Inr ex_negative)\<rparr>) c r = Inl (Panic p)"
proof (intro allI)
  fix c and r :: PullRequest
  let ?e = "ex_pull\<lparr>pe_Do := \<lambda>r. PullResponse 200 (Inr ex_negative)\<rparr>"
  obtain auth where "signature (pe_sha1 ?e) (pe_now1 ?e) (pe_now2 ?e) (pl_SecretId c) (pl_SecretKey c) ''POST''
      ''/pull_log'' [(''topic_id'', [pr_topicID r])] (pull_headers c) 300 = Inr auth"
    using signature_pull by blast
  then have "PullLogs ?e c r = Inr ex_negative" by (simp add: PullLogs_def pull_answer_def ex_pull_def Let_def)
  moreover have "pe_snappy ?e ex_negative = Inr ex_negative" "pe_json ?e ex_negative = Inr (7, [] @ bytes_string ex_negative # [])"
    "pe_base64 ?e (bytes_string ex_negative) = Inr ex_negative"
    by (simp_all add: ex_pull_def)
  ultimately show "\<exists>p. PullLogsAndParse ?e c r = Inl (Panic p)"
    unfolding PullLogsAndParse_panics using ex_negative_frame by fastforce
qed

end
