(* ===== verification/Cls_Client.thy ===== *)
theory Cls_Client
  imports Cls_Encode_Correct Signature
begin

text \<open>
  \<^verbatim>\<open>cls_client.go\<close>: options and credentials, the construction of the client, and
  \<open>Send\<close> with its compression, its authentication headers and the error each answer of the
  server becomes.  The compressors, the transport, the hashes and the JSON decoder are
  arguments.
\<close>

section \<open>Options\<close>

record Credentials =
  SecretID :: string
  SecretKEY :: string
  SecretToken :: string
  Uin :: string

record Options =
  opt_Host :: string
  opt_Scheme :: string
  opt_Timeout :: int
  opt_IdleConn :: int
  opt_CompressType :: string
  opt_Credentials :: Credentials

definition isWeakAuth :: "Options \<Rightarrow> bool" where
  "isWeakAuth opt \<longleftrightarrow> SecretID (opt_Credentials opt) = '''' \<or> SecretKEY (opt_Credentials opt) = ''''"

definition withTimeoutDefault :: "Options \<Rightarrow> Options" where
  "withTimeoutDefault opt = (if opt_Timeout opt \<le> 0 then opt\<lparr>opt_Timeout := 10000\<rparr> else opt)"

definition withIdleConnDefault :: "Options \<Rightarrow> Options" where
  "withIdleConnDefault opt = (if opt_IdleConn opt \<le> 0 then opt\<lparr>opt_IdleConn := 50\<rparr> else opt)"

text \<open>The error, and the options as the method leaves them.\<close>

definition validateOptions :: "Options \<Rightarrow> CLSError ptr \<times> Options" where
  "validateOptions opt =
     (if opt_Host opt = '''' then (NewError (-1) '''' ''MissingHost'' (Some ''host cannot be empty''), opt)
      else if isWeakAuth opt \<and> Uin (opt_Credentials opt) = ''''
      then (NewError (-1) '''' ''MissAccessKeyId''
              (Some ''SecretID or SecretKEY cannot be empty, or set Uin to use weak authorization''), opt)
      else if isWeakAuth opt \<and> ParseUint (Uin (opt_Credentials opt)) = None
      then (NewError (-1) '''' ''InvalidUin'' (Some ''uin must be a digits-only string''), opt)
      else (None, if opt_CompressType opt = '''' then opt\<lparr>opt_CompressType := ''lz4''\<rparr> else opt))"

text \<open>The settings of the HTTP client and its transport, in milliseconds.\<close>

record HttpClient =
  hc_DialTimeout :: int
  hc_MaxConns :: int
  hc_InsecureSkipVerify :: bool
  hc_Timeout :: int

record CLSClient =
  cl_options :: Options
  cl_http :: HttpClient

definition set_scheme :: "Options \<Rightarrow> Options" where
  "set_scheme opt =
     (if HasPrefix (opt_Host opt) ''http://''
      then opt\<lparr>opt_Scheme := ''http'', opt_Host := TrimPrefix (opt_Host opt) ''http://''\<rparr>
      else if HasPrefix (opt_Host opt) ''https://''
      then opt\<lparr>opt_Scheme := ''https'', opt_Host := TrimPrefix (opt_Host opt) ''https://''\<rparr>
      else opt\<lparr>opt_Scheme := ''http''\<rparr>)"

definition NewCLSClient :: "Options \<Rightarrow> CLSError + CLSClient" where
  "NewCLSClient options =
     (case validateOptions options of
        (Some e, _) \<Rightarrow> Inl e
      | (None, opt) \<Rightarrow>
          let opt' = set_scheme opt
          in Inr \<lparr>cl_options = opt',
                 cl_http = \<lparr>hc_DialTimeout = opt_Timeout opt', hc_MaxConns = opt_IdleConn opt',
                            hc_InsecureSkipVerify = (opt_Scheme opt' = ''https''),
                            hc_Timeout = opt_Timeout opt'\<rparr>\<rparr>)"

definition ResetSecretToken :: "string \<Rightarrow> string \<Rightarrow> string \<Rightarrow> CLSClient \<Rightarrow> CLSError ptr \<times> CLSClient" where
  "ResetSecretToken secretID secretKEY secretToken client =
     (if isWeakAuth (cl_options client) then (None, client)
      else if secretID = '''' then (NewError (-1) '''' ''MissAccessKeyId'' (Some ''secretID cannot be empty''), client)
      else if secretKEY = '''' then (NewError (-1) '''' ''MissAccessKeyId'' (Some ''secretKEY cannot be empty''), client)
      else if secretToken = '''' then (NewError (-1) '''' ''MissAccessKeyId'' (Some ''secretToken cannot be empty''), client)
      else (None, client\<lparr>cl_options := (cl_options client)\<lparr>opt_Credentials :=
              \<lparr>SecretID = secretID, SecretKEY = secretKEY, SecretToken = secretToken, Uin = ''''\<rparr>\<rparr>\<rparr>))"

section \<open>Data that does not compress\<close>

text \<open>
  \<open>copyIncompressible\<close> writes the data as one LZ4 sequence of literals.  The loop appends
  255s while they last; \<open>Inl\<close> is its early return when the buffer is full.
\<close>

function length_bytes ::
    "byte list \<Rightarrow> nat \<Rightarrow> nat \<Rightarrow> (nat \<times> byte list) + (byte list \<times> nat \<times> nat)" where
  "length_bytes dst di lLen =
     (if 255 \<le> lLen then
        let dst' = dst[di := 255] in
        if di + 1 = length dst then Inl (di + 1, dst') else length_bytes dst' (di + 1) (lLen - 255)
      else Inr (dst, di, lLen))"
  by auto

termination length_bytes by (relation "measure (\<lambda>(dst, di, lLen). lLen)") auto

declare length_bytes.simps [simp del]

text \<open>The copy of the literals behind position \<open>di\<close>.\<close>

definition copy_literals :: "byte list \<Rightarrow> byte list \<Rightarrow> nat \<Rightarrow> nat \<times> byte list" where
  "copy_literals src dst di =
     (if length dst < di + 1 + length src then (di + 1, dst)
      else (di + 1 + length src, take (di + 1) dst @ src @ drop (di + 1 + length src) dst))"

definition copyIncompressible :: "byte list \<Rightarrow> byte list \<Rightarrow> (nat \<times> byte list) outcome" where
  "copyIncompressible src dst =
     (if length dst = 0 then Inl (Panic ''index out of range'')
      else if length src < 15 then Inr (copy_literals src (dst[0 := of_nat (length src * 16)]) 0)
      else if length dst = 1 then Inr (1, dst[0 := 240])
      else case length_bytes (dst[0 := 240]) 1 (length src - 15) of
          Inl r \<Rightarrow> Inr r
        | Inr (dst', di, lLen) \<Rightarrow> Inr (copy_literals src (dst'[di := of_nat lLen]) di))"

section \<open>Sending\<close>

record SendRequest =
  sr_url :: string
  sr_query :: string
  sr_headers :: "(string \<times> string) list"
  sr_body :: "byte list"

text \<open>A failed round trip, or the status, the request id and the body (\<open>None\<close>: unreadable).\<close>

datatype send_result = SendFailed string | SendResponse int string "byte list option"

record SendEnv =
  se_CompressBlockBound :: "nat \<Rightarrow> nat"
  se_CompressBlock :: "byte list \<Rightarrow> string + byte list"
  se_ZSTDCompress :: "byte list \<Rightarrow> string + byte list"
  se_DeflateCompress :: "byte list \<Rightarrow> string + byte list"
  se_NewRequest :: "string \<Rightarrow> string ptr"
  se_sha1 :: Sha1
  se_now1 :: int
  se_now2 :: int
  se_userAgent :: string
  se_ErrorMessage :: "byte list \<Rightarrow> (string \<times> string) option"
  se_Do :: "SendRequest \<Rightarrow> send_result"

definition bad_request :: "string \<Rightarrow> CLSError" where
  "bad_request e = \<lparr>HTTPCode = -1, Code = ''BadRequest'', Message = e, RequestID = ''''\<rparr>"

definition new_request ::
    "SendEnv \<Rightarrow> byte list \<Rightarrow> url_values \<Rightarrow> string \<Rightarrow> string \<Rightarrow> CLSError + SendRequest" where
  "new_request env body params urlReport compressType =
     (case se_NewRequest env urlReport of
        Some e \<Rightarrow> Inl (bad_request e)
      | None \<Rightarrow> Inr \<lparr>sr_url = urlReport, sr_query = values_Encode params,
                    sr_headers = [(''x-cls-compress-type'', compressType)], sr_body = body\<rparr>)"

definition lz4Compress ::
    "SendEnv \<Rightarrow> byte list \<Rightarrow> url_values \<Rightarrow> string \<Rightarrow> (CLSError + SendRequest) outcome" where
  "lz4Compress env body params urlReport =
     (case se_CompressBlock env body of
        Inl e \<Rightarrow> Inr (Inl (bad_request e))
      | Inr out \<Rightarrow>
          if length out = 0 then
            (case copyIncompressible body (replicate (se_CompressBlockBound env (length body)) 0) of
               Inl p \<Rightarrow> Inl p
             | Inr (n, out') \<Rightarrow> Inr (new_request env (take n out') params urlReport ''lz4''))
          else Inr (new_request env out params urlReport ''lz4''))"

definition zstdCompress :: "SendEnv \<Rightarrow> byte list \<Rightarrow> url_values \<Rightarrow> string \<Rightarrow> CLSError + SendRequest" where
  "zstdCompress env body params urlReport =
     (case se_ZSTDCompress env body of
        Inl e \<Rightarrow> Inl (bad_request e)
      | Inr data \<Rightarrow> new_request env data params urlReport ''zstd'')"

definition deflateCompress :: "SendEnv \<Rightarrow> byte list \<Rightarrow> url_values \<Rightarrow> string \<Rightarrow> CLSError + SendRequest" where
  "deflateCompress env body params urlReport =
     (case se_DeflateCompress env body of
        Inl e \<Rightarrow> Inl (bad_request e)
      | Inr data \<Rightarrow> new_request env data params urlReport ''deflate'')"

definition compress ::
    "SendEnv \<Rightarrow> CLSClient \<Rightarrow> byte list \<Rightarrow> url_values \<Rightarrow> string \<Rightarrow> (CLSError + SendRequest) outcome" where
  "compress env client body params urlReport =
     (if opt_CompressType (cl_options client) = ''zstd'' then Inr (zstdCompress env body params urlReport)
      else if opt_CompressType (cl_options client) = ''deflate'' then Inr (deflateCompress env body params urlReport)
      else lz4Compress env body params urlReport)"

text \<open>The authentication headers: the plain account id, or the signature and the token.\<close>

definition auth_headers :: "SendEnv \<Rightarrow> CLSClient \<Rightarrow> url_values \<Rightarrow> (string \<times> string) list outcome" where
  "auth_headers env client params =
     (let opt = cl_options client; cred = opt_Credentials opt in
      if isWeakAuth opt then Inr [(''x-cls-auth-mode'', ''weak''), (''X-CLS-Uin'', Uin cred)]
      else case signature (se_sha1 env) (se_now1 env) (se_now2 env) (SecretID cred) (SecretKEY cred) ''POST''
                  ''/structuredlog'' params
                  [(''Host'', [opt_Host opt]), (''Content-Type'', [''application/x-protobuf''])] 300 of
          Inl p \<Rightarrow> Inl p
        | Inr authorization \<Rightarrow> Inr ((''Authorization'', authorization) #
            (if SecretToken cred \<noteq> '''' then [(''X-Cls-Token'', SecretToken cred)] else [])))"

text \<open>The error of \<open>Marshal\<close> is dropped: the body is then nil.  A panic is not an error.\<close>

definition marshal_body :: "LogGroup ptr list \<Rightarrow> byte list outcome" where
  "marshal_body groups =
     (case LogGroupList_Marshal (Some \<lparr>List_LogGroupList = groups, List_XXX_unrecognized = []\<rparr>) of
        Inr body \<Rightarrow> Inr body
      | Inl (Errorf e) \<Rightarrow> Inr []
      | Inl (Panic p) \<Rightarrow> Inl (Panic p))"

definition send_request ::
    "SendEnv \<Rightarrow> CLSClient \<Rightarrow> string \<Rightarrow> LogGroup ptr list \<Rightarrow> (CLSError + SendRequest) outcome" where
  "send_request env client topicId groups =
     (let opt = cl_options client;
          params = [(''topic_id'', [topicId])];
          urlReport = opt_Scheme opt @ ''://'' @ opt_Host opt @ ''/structuredlog''
      in case marshal_body groups of
        Inl p \<Rightarrow> Inl p
      | Inr body \<Rightarrow>
          (case compress env client body params urlReport of
             Inl p \<Rightarrow> Inl p
           | Inr (Inl e) \<Rightarrow> Inr (Inl e)
           | Inr (Inr req) \<Rightarrow>
               (case auth_headers env client params of
                  Inl p \<Rightarrow> Inl p
                | Inr auth \<Rightarrow> Inr (Inr (req\<lparr>sr_headers := sr_headers req @
                    [(''Host'', opt_Host opt), (''Content-Type'', ''application/x-protobuf''),
                     (''User-Agent'', se_userAgent env)] @ auth\<rparr>)))))"

definition int32 :: "int \<Rightarrow> int" where
  "int32 x = (x + 2147483648) mod 4294967296 - 2147483648"

definition response_error :: "SendEnv \<Rightarrow> send_result \<Rightarrow> CLSError ptr" where
  "response_error env r = (case r of
       SendFailed e \<Rightarrow> NewError (-1) ''--No RequestId--'' ''BadRequest'' (Some e)
     | SendResponse status requestId body \<Rightarrow>
         if status = 401 \<or> status = 403 \<or> status = 404 \<or> status = 413 then
           (case body of
              None \<Rightarrow> NewError (int32 status) requestId ''BadRequest'' (Some ''bad request'')
            | Some v \<Rightarrow> (case se_ErrorMessage env v of
                None \<Rightarrow> NewError (int32 status) requestId ''BadRequest'' (Some ''bad request'')
              | Some (code, message) \<Rightarrow> NewError (int32 status) requestId code (Some message)))
         else if status = 200 then None
         else if status = 429 then NewError (int32 status) requestId ''WriteQuotaExceed'' (Some ''write quota exceed'')
         else if 500 \<le> status then NewError (int32 status) requestId ''InternalError'' (Some ''server internal error'')
         else NewError (int32 status) requestId ''UnknownError'' (Some ''unknown error''))"

definition Send :: "SendEnv \<Rightarrow> CLSClient \<Rightarrow> string \<Rightarrow> LogGroup ptr list \<Rightarrow> CLSError ptr outcome" where
  "Send env client topicId groups =
     (case send_request env client topicId groups of
        Inl p \<Rightarrow> Inl p
      | Inr (Inl e) \<Rightarrow> Inr (Some e)
      | Inr (Inr req) \<Rightarrow> Inr (response_error env (se_Do env req)))"

end
