(* ===== verification/Cls_Client_Props.thy ===== *)
theory Cls_Client_Props
  imports Cls_Client
begin

text \<open>
  The properties of the log client: data that does not compress is still valid LZ4, the
  authentication mode is fixed when the client is built, and every answer of the server
  becomes the documented error.
\<close>

section \<open>The LZ4 block format\<close>

text \<open>A decoder for LZ4 blocks, as a reference: sequences of literals and matches.\<close>

fun ext_len :: "byte list \<Rightarrow> nat \<Rightarrow> (nat \<times> byte list) option" where
  "ext_len [] acc = None"
| "ext_len (b # bs) acc = (if b = 255 then ext_len bs (acc + 255) else Some (acc + unat b, bs))"

fun copy_match :: "byte list \<Rightarrow> nat \<Rightarrow> nat \<Rightarrow> byte list" where
  "copy_match out off 0 = out"
| "copy_match out off (Suc n) = copy_match (out @ [out ! (length out - off)]) off n"

lemma ext_len_shorter: "ext_len bs acc = Some (n, rest) \<Longrightarrow> length rest < length bs"
  by (induction bs acc rule: ext_len.induct) (fastforce split: if_splits)+

function lz4_block :: "byte list \<Rightarrow> byte list \<Rightarrow> byte list option" where
  "lz4_block out [] = None"
| "lz4_block out (token # bs) =
     (case (if unat token div 16 = 15 then ext_len bs 15 else Some (unat token div 16, bs)) of
        None \<Rightarrow> None
      | Some (lit, bs1) \<Rightarrow>
          if length bs1 < lit then None
          else (case drop lit bs1 of
              [] \<Rightarrow> Some (out @ take lit bs1)
            | [x] \<Rightarrow> None
            | lo # hi # bs2 \<Rightarrow>
                (case (if unat token mod 16 = 15 then ext_len bs2 15 else Some (unat token mod 16, bs2)) of
                   None \<Rightarrow> None
                 | Some (m, bs3) \<Rightarrow>
                     let off = unat lo + 256 * unat hi in
                     if off = 0 \<or> length out + lit < off then None
                     else lz4_block (copy_match (out @ take lit bs1) off (m + 4)) bs3)))"
  by pat_completeness auto

termination
proof (relation "measure (\<lambda>(out, bs). length bs)", goal_cases)
  case (2 out token bs x lit bs1 lo l hi bs2 y m bs3 off)
  have "length bs1 \<le> length bs"
    using 2(1,2) by (auto split: if_splits dest: ext_len_shorter)
  moreover have "length (drop lit bs1) = Suc (Suc (length bs2))" using 2(4,5) by simp
  then have "length bs2 < length bs1" by simp
  moreover have "length bs3 \<le> length bs2"
    using 2(6,7) by (auto split: if_splits dest: ext_len_shorter)
  ultimately show ?case by simp
qed simp

lemma ext_len_replicate:
  "r < 255 \<Longrightarrow> ext_len (replicate k 255 @ of_nat r # rest) acc = Some (acc + 255 * k + r, rest)"
proof (induction k arbitrary: acc)
  case 0
  then have "unat (of_nat r :: byte) = r" by (simp add: unsigned_of_nat take_bit_eq_mod)
  moreover from this 0 have "(of_nat r :: byte) \<noteq> 255" by auto
  ultimately show ?case by simp
qed simp

section \<open>Literals\<close>

lemma length_bytes_correct:
  "di + lLen div 255 < length dst \<Longrightarrow>
   length_bytes dst di lLen =
     Inr (take di dst @ replicate (lLen div 255) 255 @ drop (di + lLen div 255) dst,
          di + lLen div 255, lLen mod 255)"
proof (induction dst di lLen rule: length_bytes.induct)
  case (1 dst di lLen)
  show ?case
  proof (cases "255 \<le> lLen")
    case False
    then show ?thesis by (simp add: length_bytes.simps [of dst])
  next
    case True
    define k where "k = (lLen - 255) div 255"
    have d: "lLen div 255 = Suc k" "lLen mod 255 = (lLen - 255) mod 255"
      using True by (simp_all add: k_def le_div_geq le_mod_geq)
    have room: "di + 1 \<noteq> length dst" "di + 1 + k < length (dst[di := 255])" "di < length dst"
      using 1(2) by (simp_all add: d)
    have "take (Suc di) (dst[di := 255]) = take di dst @ [255]"
      using room(3) by (simp add: take_Suc_conv_app_nth)
    then show ?thesis
      using 1(1) [OF True refl room(1)] room True
      by (simp add: length_bytes.simps [of dst] d k_def [symmetric])
  qed
qed

text \<open>The bytes in front of the literals.\<close>

definition literal_header :: "nat \<Rightarrow> byte list" where
  "literal_header n = (if n < 15 then [of_nat (n * 16)]
     else 240 # replicate ((n - 15) div 255) 255 @ [of_nat ((n - 15) mod 255)])"

lemma copy_literals_fits:
  assumes "di + 1 + length src \<le> length dst" and "take (di + 1) dst = hdr"
  shows "fst (copy_literals src dst di) = length hdr + length src \<and>
    take (fst (copy_literals src dst di)) (snd (copy_literals src dst di)) = hdr @ src"
  using assms by (auto simp: copy_literals_def)

lemma copyIncompressible_spec:
  assumes "length src + length src div 255 + 2 \<le> length dst"
  shows "\<exists>n out. copyIncompressible src dst = Inr (n, out) \<and> take n out = literal_header (length src) @ src"
proof (cases "length src < 15")
  case True
  let ?dst = "dst[0 := of_nat (length src * 16)]"
  have "take (0 + 1) ?dst = literal_header (length src)"
    using assms True by (cases dst) (simp_all add: literal_header_def)
  with copy_literals_fits [of 0 src ?dst] assms True show ?thesis
    by (cases "copy_literals src ?dst 0") (auto simp: copyIncompressible_def)
next
  case False
  define k where "k = (length src - 15) div 255"
  define r where "r = (length src - 15) mod 255"
  have k: "k \<le> length src div 255" by (simp add: k_def div_le_mono)
  have room: "1 + k < length (dst[0 := 240])" "length dst \<noteq> 0" "length dst \<noteq> 1" using assms k False by auto
  define dst' where "dst' = take 1 (dst[0 := 240]) @ replicate k 255 @ drop (1 + k) (dst[0 := 240])"
  have lb: "length_bytes (dst[0 := 240]) 1 (length src - 15) = Inr (dst', 1 + k, r)"
    using length_bytes_correct [of 1 "length src - 15" "dst[0 := 240]"] room(1) by (simp add: k_def r_def dst'_def)
  have hd: "take 1 (dst[0 := 240]) = [240]" using room(2) by (cases dst) simp_all
  then have dst': "dst' = (240 # replicate k 255) @ drop (1 + k) (dst[0 := 240])" by (simp add: dst'_def)
  have "length (drop (1 + k) (dst[0 := 240])) \<noteq> 0" using room(1) by simp
  then obtain x xs where x: "drop (1 + k) (dst[0 := 240]) = x # xs" by (metis length_0_conv neq_Nil_conv)
  have "dst'[1 + k := of_nat r] = (240 # replicate k 255) @ of_nat r # xs"
    unfolding dst' x by (simp add: list_update_append)
  then have "take (1 + k + 1) (dst'[1 + k := of_nat r]) = literal_header (length src)"
    using False by (simp add: literal_header_def k_def r_def)
  moreover have "length dst' = length dst" using room(1) by (simp add: dst'_def)
  then have "1 + k + 1 + length src \<le> length (dst'[1 + k := of_nat r])" using assms k by simp
  ultimately show ?thesis
    using copy_literals_fits [of "1 + k" src "dst'[1 + k := of_nat r]"] lb room False
    by (cases "copy_literals src (dst'[1 + k := of_nat r]) (1 + k)") (auto simp: copyIncompressible_def)
qed

lemma unat_of_nat_byte: "n < 256 \<Longrightarrow> unat (of_nat n :: byte) = n"
  by (simp add: unsigned_of_nat take_bit_eq_mod)

lemma lz4_block_literals: "lz4_block out (literal_header (length src) @ src) = Some (out @ src)"
proof (cases "length src < 15")
  case True
  define n where "n = length src * 16"
  have "unat (of_nat n :: byte) = n" by (rule unat_of_nat_byte) (simp add: n_def, use True in linarith)
  moreover have "literal_header (length src) = [of_nat n]" using True by (simp add: literal_header_def n_def)
  moreover have "n div 16 = length src" by (simp add: n_def)
  ultimately show ?thesis using True by simp
next
  case False
  have "15 + 255 * ((length src - 15) div 255) + (length src - 15) mod 255 = length src" using False by simp
  then show ?thesis
    using False ext_len_replicate [of "(length src - 15) mod 255" "(length src - 15) div 255" src 15]
    by (simp add: literal_header_def)
qed

text \<open>
  C38: data that does not compress is sent as a valid LZ4 block.  For a buffer of at least
  the size the compressor asks for (the data, one byte in 255 more, and 16), the block that
  \<open>copyIncompressible\<close> writes decodes to the data, at every length, the lengths around the
  limits 15 and 255 of the encoding included.
\<close>

theorem copyIncompressible_decodes:
  assumes "length src + length src div 255 + 16 \<le> length dst"
  shows "\<exists>n out. copyIncompressible src dst = Inr (n, out) \<and> lz4_block [] (take n out) = Some src"
  using copyIncompressible_spec [of src dst] assms lz4_block_literals [of "[]" src] by fastforce

theorem copyIncompressible_decodes_witness:
  "\<exists>n out. copyIncompressible (replicate 300 7) (replicate 317 0) = Inr (n, out) \<and>
     lz4_block [] (take n out) = Some (replicate 300 7)"
  by (rule copyIncompressible_decodes) simp

section \<open>The authentication mode\<close>

text \<open>A client and the calls of \<open>ResetSecretToken\<close> made on it since.\<close>

fun reset_calls :: "(string \<times> string \<times> string) list \<Rightarrow> CLSClient \<Rightarrow> CLSClient" where
  "reset_calls [] c = c"
| "reset_calls ((i, k, t) # cs) c = reset_calls cs (snd (ResetSecretToken i k t c))"

definition credentials_ok :: "Options \<Rightarrow> bool" where
  "credentials_ok opt \<longleftrightarrow> (isWeakAuth opt \<longrightarrow> ParseUint (Uin (opt_Credentials opt)) \<noteq> None)"

text \<open>What a call of \<open>ResetSecretToken\<close> may change, and what it may not.\<close>

definition same_mode :: "Options \<Rightarrow> Options \<Rightarrow> bool" where
  "same_mode opt opt' \<longleftrightarrow> isWeakAuth opt' = isWeakAuth opt \<and>
     opt' = opt\<lparr>opt_Credentials := opt_Credentials opt'\<rparr> \<and>
     (isWeakAuth opt \<longrightarrow> opt' = opt) \<and> (credentials_ok opt \<longrightarrow> credentials_ok opt')"

lemma same_mode_refl: "same_mode opt opt"
  by (simp add: same_mode_def)

lemma same_mode_trans: "same_mode a b \<Longrightarrow> same_mode b c \<Longrightarrow> same_mode a c"
proof -
  assume ab: "same_mode a b" and bc: "same_mode b c"
  then have "b = a\<lparr>opt_Credentials := opt_Credentials b\<rparr>" "c = b\<lparr>opt_Credentials := opt_Credentials c\<rparr>"
    by (simp_all add: same_mode_def)
  then have "c = a\<lparr>opt_Credentials := opt_Credentials c\<rparr>" by (metis Options.surjective Options.update_convs(6))
  then show ?thesis using ab bc by (simp add: same_mode_def)
qed

lemma ResetSecretToken_same_mode:
  "same_mode (cl_options c) (cl_options (snd (ResetSecretToken i k t c)))"
  by (simp add: ResetSecretToken_def same_mode_def isWeakAuth_def credentials_ok_def)

lemma reset_calls_same_mode: "same_mode (cl_options c) (cl_options (reset_calls cs c))"
proof (induction cs c rule: reset_calls.induct)
  case (2 i k t cs c)
  then show ?case using same_mode_trans ResetSecretToken_same_mode by fastforce
qed (simp add: same_mode_refl)

lemma set_scheme_Credentials [simp]: "opt_Credentials (set_scheme opt) = opt_Credentials opt"
  by (simp add: set_scheme_def)

lemma validateOptions_Credentials:
  "validateOptions opt = (None, opt') \<Longrightarrow> opt_Credentials opt' = opt_Credentials opt \<and> credentials_ok opt"
  by (auto simp: validateOptions_def credentials_ok_def NewError_def isWeakAuth_def split: if_splits)

lemma NewCLSClient_Credentials:
  assumes "NewCLSClient opt = Inr c"
  shows "opt_Credentials (cl_options c) = opt_Credentials opt \<and> credentials_ok opt"
proof -
  obtain e opt' where v: "validateOptions opt = (e, opt')" by fastforce
  with assms have "e = None" by (cases e) (simp_all add: NewCLSClient_def)
  with v assms validateOptions_Credentials [of opt opt'] show ?thesis
    by (auto simp: NewCLSClient_def Let_def)
qed

text \<open>The name under which a body is announced; any setting but two means LZ4.\<close>

definition compress_name :: "Options \<Rightarrow> string" where
  "compress_name opt = (if opt_CompressType opt \<in> {''zstd'', ''deflate''} then opt_CompressType opt else ''lz4'')"

lemma compress_headers:
  assumes "compress env c body params url = Inr (Inr req)"
  shows "sr_headers req = [(''x-cls-compress-type'', compress_name (cl_options c))]"
  using assms by (auto simp: compress_def zstdCompress_def deflateCompress_def lz4Compress_def new_request_def
      compress_name_def split: if_splits sum.splits option.splits)

lemma send_request_headers:
  assumes "send_request env c topicId groups = Inr (Inr req)"
  obtains auth where "auth_headers env c [(''topic_id'', [topicId])] = Inr auth" and
    "sr_headers req = [(''x-cls-compress-type'', compress_name (cl_options c)), (''Host'', opt_Host (cl_options c)),
       (''Content-Type'', ''application/x-protobuf''), (''User-Agent'', se_userAgent env)] @ auth"
  using assms compress_headers [of env c]
  by (fastforce simp: send_request_def Let_def split: sum.splits)

text \<open>The keys in force: those given at the start, or those of the last reset that was accepted.\<close>

definition current_keys :: "Options \<Rightarrow> (string \<times> string \<times> string) list \<Rightarrow> string \<times> string \<times> string" where
  "current_keys opt calls =
     last ((SecretID (opt_Credentials opt), SecretKEY (opt_Credentials opt), SecretToken (opt_Credentials opt))
       # filter (\<lambda>(i, k, t). i \<noteq> '''' \<and> k \<noteq> '''' \<and> t \<noteq> '''') calls)"

lemma current_keys_Cons:
  "current_keys opt ((i, k, t) # calls) =
     (if i \<noteq> '''' \<and> k \<noteq> '''' \<and> t \<noteq> ''''
      then current_keys (opt\<lparr>opt_Credentials := \<lparr>SecretID = i, SecretKEY = k, SecretToken = t, Uin = ''''\<rparr>\<rparr>) calls
      else current_keys opt calls)"
  by (simp add: current_keys_def)

lemma reset_calls_keys:
  "\<not> isWeakAuth (cl_options c) \<Longrightarrow>
   (case opt_Credentials (cl_options (reset_calls calls c)) of cred \<Rightarrow> (SecretID cred, SecretKEY cred, SecretToken cred)) =
     current_keys (cl_options c) calls"
proof (induction calls c rule: reset_calls.induct)
  case (1 c)
  show ?case by (simp add: current_keys_def)
next
  case (2 i k t cs c)
  let ?c = "snd (ResetSecretToken i k t c)"
  have "\<not> isWeakAuth (cl_options ?c)"
    using ResetSecretToken_same_mode [of c i k t] 2(2) by (simp add: same_mode_def)
  moreover have "current_keys (cl_options ?c) cs = current_keys (cl_options c) ((i, k, t) # cs)"
    using 2(2) by (simp add: ResetSecretToken_def current_keys_Cons)
  ultimately show ?case using 2(1) by simp
qed

lemma current_keys_cong:
  "opt_Credentials opt = opt_Credentials opt' \<Longrightarrow> current_keys opt calls = current_keys opt' calls"
  by (simp add: current_keys_def)

lemma auth_headers_weak:
  "auth_headers env c params = Inr auth \<Longrightarrow> isWeakAuth (cl_options c) \<Longrightarrow>
   auth = [(''x-cls-auth-mode'', ''weak''), (''X-CLS-Uin'', Uin (opt_Credentials (cl_options c)))]"
  by (simp add: auth_headers_def Let_def)

lemma auth_headers_signed:
  assumes "auth_headers env c params = Inr auth" and "\<not> isWeakAuth (cl_options c)"
    and "cred = opt_Credentials (cl_options c)"
  shows "\<exists>sig. signature (se_sha1 env) (se_now1 env) (se_now2 env) (SecretID cred) (SecretKEY cred) ''POST''
      ''/structuredlog'' params
      [(''Host'', [opt_Host (cl_options c)]), (''Content-Type'', [''application/x-protobuf''])] 300 = Inr sig \<and>
    auth = (''Authorization'', sig) # (if SecretToken cred \<noteq> '''' then [(''X-Cls-Token'', SecretToken cred)] else [])"
  using assms unfolding auth_headers_def Let_def by (auto split: sum.splits)

text \<open>
  C29: the authentication mode is decided once, and fixes the headers.  A client that was
  built has either both keys or an account id of digits, and no later call of
  \<open>ResetSecretToken\<close> changes which.  Every request it sends carries the name of the
  compression, the host, the content type and the user agent, followed by exactly the headers
  of the mode: without keys the mark of the weak mode and the configured account id; with keys
  the signature of the topic, the host and the content type made with the keys in force, and
  the token in force unless it is empty.
\<close>

theorem authentication_mode_fixed:
  assumes "NewCLSClient opt = Inr c0" and "c = reset_calls calls c0"
    and "send_request env c topicId groups = Inr (Inr req)"
    and "host = opt_Host (cl_options c0)"
  shows "credentials_ok (cl_options c) \<and>
    (\<exists>auth. sr_headers req = [(''x-cls-compress-type'', compress_name (cl_options c0)), (''Host'', host),
         (''Content-Type'', ''application/x-protobuf''), (''User-Agent'', se_userAgent env)] @ auth \<and>
      (if isWeakAuth opt
       then auth = [(''x-cls-auth-mode'', ''weak''), (''X-CLS-Uin'', Uin (opt_Credentials opt))]
       else (case current_keys opt calls of (secretID, secretKey, token) \<Rightarrow>
         (\<exists>sig. signature (se_sha1 env) (se_now1 env) (se_now2 env) secretID secretKey ''POST'' ''/structuredlog''
             [(''topic_id'', [topicId])]
             [(''Host'', [host]), (''Content-Type'', [''application/x-protobuf''])] 300 = Inr sig \<and>
           auth = (''Authorization'', sig) # (if token \<noteq> '''' then [(''X-Cls-Token'', token)] else [])))))"
proof -
  have cr: "opt_Credentials (cl_options c0) = opt_Credentials opt" "credentials_ok opt"
    using NewCLSClient_Credentials [OF assms(1)] by simp_all
  then have ok: "credentials_ok (cl_options c0)" and weak: "isWeakAuth (cl_options c0) = isWeakAuth opt"
    by (simp_all add: credentials_ok_def isWeakAuth_def)
  have mode: "same_mode (cl_options c0) (cl_options c)" by (simp add: assms(2) reset_calls_same_mode)
  then obtain cred where "cl_options c = (cl_options c0)\<lparr>opt_Credentials := cred\<rparr>" unfolding same_mode_def by blast
  then have same: "opt_Host (cl_options c) = host" "compress_name (cl_options c) = compress_name (cl_options c0)"
    by (simp_all add: assms(4) compress_name_def)
  obtain auth where auth: "auth_headers env c [(''topic_id'', [topicId])] = Inr auth" and
    hs: "sr_headers req = [(''x-cls-compress-type'', compress_name (cl_options c)), (''Host'', opt_Host (cl_options c)),
       (''Content-Type'', ''application/x-protobuf''), (''User-Agent'', se_userAgent env)] @ auth"
    using assms(3) by (rule send_request_headers)
  show ?thesis
  proof (cases "isWeakAuth opt")
    case True
    with mode weak have "cl_options c = cl_options c0" by (simp add: same_mode_def)
    with True weak auth_headers_weak [OF auth] cr(1) ok hs same show ?thesis by simp
  next
    case False
    with mode weak ok have up: "credentials_ok (cl_options c)" "\<not> isWeakAuth (cl_options c)"
      by (simp_all add: same_mode_def)
    have keys: "current_keys opt calls = (case opt_Credentials (cl_options c) of cred \<Rightarrow>
        (SecretID cred, SecretKEY cred, SecretToken cred))"
      using reset_calls_keys [of c0 calls] current_keys_cong [OF cr(1)] False weak assms(2) by simp
    show ?thesis
      using auth_headers_signed [OF auth up(2) refl] False up(1) hs same unfolding keys by simp
  qed
qed

text \<open>An environment whose compressor leaves the data alone and whose server answers 200.\<close>

definition ex_send :: SendEnv where
  "ex_send = \<lparr>se_CompressBlockBound = (\<lambda>n. n + n div 255 + 16), se_CompressBlock = (\<lambda>b. Inr []),
     se_ZSTDCompress = Inr, se_DeflateCompress = Inr, se_NewRequest = (\<lambda>u. None),
     se_sha1 = \<lparr>calSha1sum = (\<lambda>m. ''00''), calSha1HMACDigest = (\<lambda>k m. ''11'')\<rparr>,
     se_now1 = 1000, se_now2 = 1000, se_userAgent = ''ua'', se_ErrorMessage = (\<lambda>b. None),
     se_Do = (\<lambda>r. SendResponse 200 ''id'' (Some []))\<rparr>"

definition ex_weak :: Options where
  "ex_weak = \<lparr>opt_Host = ''http://h'', opt_Scheme = '''', opt_Timeout = 0, opt_IdleConn = 0,
     opt_CompressType = ''zstd'',
     opt_Credentials = \<lparr>SecretID = ''i'', SecretKEY = '''', SecretToken = '''', Uin = ''12''\<rparr>\<rparr>"

definition ex_log_client :: CLSClient where
  "ex_log_client = \<lparr>cl_options = ex_weak\<lparr>opt_Scheme := ''http'', opt_Host := ''h''\<rparr>,
     cl_http = \<lparr>hc_DialTimeout = 0, hc_MaxConns = 0, hc_InsecureSkipVerify = False, hc_Timeout = 0\<rparr>\<rparr>"

lemma NewCLSClient_ex_weak: "NewCLSClient ex_weak = Inr ex_log_client"
  by (simp add: NewCLSClient_def validateOptions_def set_scheme_def ex_weak_def ex_log_client_def isWeakAuth_def
      ParseUint_def HasPrefix_def TrimPrefix_def is_digit_def digits_val_def)

lemma marshal_body_empty: "marshal_body [] = Inr []"
  by (simp add: marshal_body_def LogGroupList_Marshal_def Marshal_with_def LogGroupList_MarshalToSizedBuffer_def
      LogGroupList_Size_def and_then_def put_bytes_def)

lemma send_request_ex: "\<exists>req. send_request ex_send ex_log_client ''t'' [] = Inr (Inr req)"
  by (simp add: send_request_def ex_log_client_def ex_weak_def marshal_body_empty compress_def zstdCompress_def
      new_request_def auth_headers_def isWeakAuth_def ex_send_def)

text \<open>The same settings with keys.\<close>

definition ex_keyed :: Options where
  "ex_keyed = ex_weak\<lparr>opt_Credentials := \<lparr>SecretID = ''i'', SecretKEY = ''k'', SecretToken = '''', Uin = ''''\<rparr>\<rparr>"

definition ex_keyed_client :: CLSClient where
  "ex_keyed_client = ex_log_client\<lparr>cl_options := ex_keyed\<lparr>opt_Scheme := ''http'', opt_Host := ''h''\<rparr>\<rparr>"

lemma NewCLSClient_ex_keyed: "NewCLSClient ex_keyed = Inr ex_keyed_client"
  by code_simp

lemma send_request_ex_keyed:
  "\<exists>req. send_request ex_send (reset_calls [(''a'', ''b'', ''c'')] ex_keyed_client) ''t'' [] = Inr (Inr req)"
proof -
  have "case signature (se_sha1 ex_send) (se_now1 ex_send) (se_now2 ex_send) ''a'' ''b'' ''POST'' ''/structuredlog''
      [(''topic_id'', [''t''])] [(''Host'', [''h'']), (''Content-Type'', [''application/x-protobuf''])] 300 of
      Inl p \<Rightarrow> False | Inr sig \<Rightarrow> True"
    by code_simp
  then obtain sig where "signature (se_sha1 ex_send) (se_now1 ex_send) (se_now2 ex_send) ''a'' ''b'' ''POST'' ''/structuredlog''
      [(''topic_id'', [''t''])] [(''Host'', [''h'']), (''Content-Type'', [''application/x-protobuf''])] 300 = Inr sig"
    by (auto split: sum.splits)
  then show ?thesis
    by (simp add: send_request_def ex_keyed_client_def ex_keyed_def ex_log_client_def ex_weak_def marshal_body_empty
        compress_def zstdCompress_def new_request_def auth_headers_def isWeakAuth_def ResetSecretToken_def Let_def ex_send_def)
qed

text \<open>A client without keys, and one whose keys were replaced.\<close>

theorem authentication_mode_fixed_witness:
  "(\<exists>req. send_request ex_send (reset_calls [(''a'', ''b'', ''c'')] ex_log_client) ''t'' [] = Inr (Inr req) \<and>
     sr_headers req = [(''x-cls-compress-type'', ''zstd''), (''Host'', ''h''), (''Content-Type'', ''application/x-protobuf''),
       (''User-Agent'', ''ua''), (''x-cls-auth-mode'', ''weak''), (''X-CLS-Uin'', ''12'')]) \<and>
   (\<exists>req sig. send_request ex_send (reset_calls [(''a'', ''b'', ''c'')] ex_keyed_client) ''t'' [] = Inr (Inr req) \<and>
     sr_headers req = [(''x-cls-compress-type'', ''zstd''), (''Host'', ''h''), (''Content-Type'', ''application/x-protobuf''),
       (''User-Agent'', ''ua''), (''Authorization'', sig), (''X-Cls-Token'', ''c'')])"
proof -
  have "reset_calls [(''a'', ''b'', ''c'')] ex_log_client = ex_log_client"
    by (simp add: ResetSecretToken_def ex_log_client_def ex_weak_def isWeakAuth_def)
  moreover obtain req where req: "send_request ex_send ex_log_client ''t'' [] = Inr (Inr req)"
    using send_request_ex by blast
  moreover obtain req' where req': "send_request ex_send (reset_calls [(''a'', ''b'', ''c'')] ex_keyed_client) ''t'' [] = Inr (Inr req')"
    using send_request_ex_keyed by blast
  moreover have mode: "isWeakAuth ex_weak" "\<not> isWeakAuth ex_keyed" by (simp_all add: ex_keyed_def ex_weak_def isWeakAuth_def)
  moreover have set: "compress_name (cl_options ex_log_client) = ''zstd''" "opt_Host (cl_options ex_log_client) = ''h''"
    "compress_name (cl_options ex_keyed_client) = ''zstd''" "opt_Host (cl_options ex_keyed_client) = ''h''"
    "se_userAgent ex_send = ''ua''" "Uin (opt_Credentials ex_weak) = ''12''"
    by (simp_all add: compress_name_def ex_keyed_client_def ex_keyed_def ex_log_client_def ex_weak_def ex_send_def)
  moreover have "current_keys ex_keyed [(''a'', ''b'', ''c'')] = (''a'', ''b'', ''c'')" by (simp add: current_keys_def)
  ultimately show ?thesis
    using authentication_mode_fixed [OF NewCLSClient_ex_weak, of ex_log_client "[(''a'', ''b'', ''c'')]" ex_send "''t''" "[]" req]
      authentication_mode_fixed [OF NewCLSClient_ex_keyed refl req' refl]
    by (auto simp del: reset_calls.simps)
qed

section \<open>What \<open>Send\<close> answers\<close>

text \<open>
  \<open>Send\<close> reports success exactly for an answer with status 200 to a request it built,
  and otherwise the error carries the status of the answer, so that throttling and server
  errors can be told from the others; -1 says that there was no answer.
\<close>

theorem Send_answer:
  assumes "Send env c topicId groups = Inr r"
  shows "(r = None \<longleftrightarrow> (\<exists>req rid body. send_request env c topicId groups = Inr (Inr req) \<and>
            se_Do env req = SendResponse 200 rid body)) \<and>
    (case send_request env c topicId groups of
       Inr (Inr req) \<Rightarrow> (case se_Do env req of
           SendFailed e \<Rightarrow> map_option HTTPCode r = Some (-1)
         | SendResponse status rid body \<Rightarrow> status \<noteq> 200 \<longrightarrow>
             map_option HTTPCode r = Some (int32 status) \<and> map_option RequestID r = Some rid \<and>
             (status = 429 \<longrightarrow> map_option Code r = Some ''WriteQuotaExceed'') \<and>
             (500 \<le> status \<longrightarrow> map_option Code r = Some ''InternalError''))
     | Inr (Inl e) \<Rightarrow> r = Some e
     | Inl p \<Rightarrow> False)"
  using assms
  by (auto simp: Send_def response_error_def NewError_def split: sum.splits send_result.splits if_splits option.splits)

theorem Send_answer_witness: "Send ex_send ex_log_client ''t'' [] = Inr None"
proof -
  obtain req where req: "send_request ex_send ex_log_client ''t'' [] = Inr (Inr req)"
    using send_request_ex by blast
  then obtain r where "Send ex_send ex_log_client ''t'' [] = Inr r" by (simp add: Send_def)
  with Send_answer [OF this] req show ?thesis by (simp add: ex_send_def)
qed

text \<open>
  C30: one log that cannot be encoded loses the whole call without an error.  When a required
  field is missing anywhere in the groups, the error of \<open>Marshal\<close> is dropped: the request
  sent, and so the answer of \<open>Send\<close>, is that of an empty list of groups.
\<close>

theorem Send_drops_unencodable:
  assumes "LogGroupList_Marshal (Some \<lparr>List_LogGroupList = groups, List_XXX_unrecognized = []\<rparr>) = Inl (Errorf e)"
  shows "send_request env c topicId groups = send_request env c topicId [] \<and>
    Send env c topicId groups = Send env c topicId []"
  using assms by (simp add: Send_def send_request_def marshal_body_empty) (simp add: marshal_body_def)

definition ex_untimed :: "LogGroup ptr list" where
  "ex_untimed = [Some \<lparr>Group_Logs = [Some \<lparr>Log_Time = None, Log_Contents = [], Log_CollectTime = None,
       Log_XXX_unrecognized = []\<rparr>],
     Group_ContextFlow = None, Group_Filename = None, Group_Source = None, Group_LogTags = [],
     Group_Hostname = None, Group_XXX_unrecognized = []\<rparr>]"

theorem Send_drops_unencodable_witness:
  "Send ex_send ex_log_client ''t'' ex_untimed = Send ex_send ex_log_client ''t'' []"
proof -
  have "LogGroupList_Marshal (Some \<lparr>List_LogGroupList = ex_untimed, List_XXX_unrecognized = []\<rparr>) =
      Inl required_not_set"
    by (simp add: LogGroupList_Marshal_def Marshal_with_def LogGroupList_MarshalToSizedBuffer_def ex_untimed_def
        LogGroup_MarshalToSizedBuffer_def Log_MarshalToSizedBuffer_def and_then_def put_bytes_def wr_sub_def
        wr_optional_def)
  then show ?thesis using Send_drops_unencodable by (simp add: required_not_set_def)
qed

end
