(* ===== verification/Sync_Producer.thy ===== *)
theory Sync_Producer
  imports Cls_Client_Props Producer_Config
begin

text \<open>
  \<^verbatim>\<open>sync_producer_client.go\<close> and its configuration: one send per call, after a check of
  the size.  The address of the host is an argument, and so is everything a send needs.
\<close>

section \<open>Configuration\<close>

record SyncProducerClientConfig =
  sc_Endpoint :: string
  sc_region :: string
  sc_networkType :: string
  sc_AccessKeyID :: string
  sc_AccessKeySecret :: string
  sc_AccessToken :: string
  sc_Uin :: string
  sc_Timeout :: int
  sc_IdleConn :: int
  sc_CompressType :: string
  sc_NeedSource :: bool
  sc_HostName :: string

definition GetDefaultSyncProducerClientConfig :: SyncProducerClientConfig where
  "GetDefaultSyncProducerClientConfig =
     \<lparr>sc_Endpoint = '''', sc_region = '''', sc_networkType = '''', sc_AccessKeyID = '''',
      sc_AccessKeySecret = '''', sc_AccessToken = '''', sc_Uin = '''', sc_Timeout = 10000,
      sc_IdleConn = 50, sc_CompressType = '''', sc_NeedSource = True, sc_HostName = ''''\<rparr>"

definition sync_SetEndpoint :: "string \<Rightarrow> string \<Rightarrow> SyncProducerClientConfig \<Rightarrow> SyncProducerClientConfig" where
  "sync_SetEndpoint region networkType config =
     config\<lparr>sc_region := region, sc_networkType := networkType, sc_Endpoint := region @ ''.'' @ networkType\<rparr>"

section \<open>The client\<close>

record SyncProducerClient =
  sp_config :: SyncProducerClientConfig
  sp_client :: CLSClient
  sp_source :: string

definition validateConfig :: "SyncProducerClientConfig \<Rightarrow> SyncProducerClientConfig" where
  "validateConfig config =
     config\<lparr>sc_Timeout := (if sc_Timeout config \<le> 0 then 10000 else sc_Timeout config),
            sc_IdleConn := (if sc_IdleConn config \<le> 0 then 50 else sc_IdleConn config)\<rparr>"

text \<open>\<open>localIP\<close> is the address \<open>GetLocalIP\<close> finds, empty when there is none.\<close>

definition NewSyncProducerClient ::
    "string \<Rightarrow> SyncProducerClientConfig \<Rightarrow> CLSError + SyncProducerClient" where
  "NewSyncProducerClient localIP config =
     (let config' = validateConfig config in
      case NewCLSClient \<lparr>opt_Host = sc_Endpoint config', opt_Scheme = '''', opt_Timeout = sc_Timeout config',
             opt_IdleConn = sc_IdleConn config', opt_CompressType = sc_CompressType config',
             opt_Credentials = \<lparr>SecretID = sc_AccessKeyID config', SecretKEY = sc_AccessKeySecret config',
               SecretToken = sc_AccessToken config', Uin = sc_Uin config'\<rparr>\<rparr> of
        Inl e \<Rightarrow> Inl e
      | Inr client \<Rightarrow> Inr \<lparr>sp_config = config', sp_client = client,
          sp_source = (if sc_NeedSource config' then localIP else '''')\<rparr>)"

section \<open>Sending\<close>

text \<open>The errors a call returns; a panic is not one of them.\<close>

datatype sync_error = LogError failure | ErrLogSizeExceeded | SendError CLSError

definition MaxLogSize :: int where
  "MaxLogSize = 20 * 1024 * 1024"

definition set_source :: "SyncProducerClient \<Rightarrow> LogGroup \<Rightarrow> LogGroup" where
  "set_source c g = (if sc_NeedSource (sp_config c) then g\<lparr>Group_Source := Some (sp_source c)\<rparr> else g)"

text \<open>
  The loop over the groups, which checks the size so far and then writes the source into the
  caller's group: the error, if one ends the loop, and the groups as the loop leaves them.
\<close>

fun check_groups ::
    "SyncProducerClient \<Rightarrow> LogGroup ptr list \<Rightarrow> int \<Rightarrow> sync_error ptr outcome \<times> LogGroup ptr list" where
  "check_groups c [] totalSize = (Inr None, [])"
| "check_groups c (g # gs) totalSize =
     (case GetLogListSize (GetLogs g) of
        Inl (Panic p) \<Rightarrow> (Inl (Panic p), g # gs)
      | Inl (Errorf e) \<Rightarrow> (Inr (Some (LogError (Errorf e))), g # gs)
      | Inr n \<Rightarrow>
          if MaxLogSize < totalSize + n then (Inr (Some ErrLogSizeExceeded), g # gs)
          else if g = None \<and> sc_NeedSource (sp_config c) then (Inl nil_deref, g # gs)
          else let (r, gs') = check_groups c gs (totalSize + n) in (r, map_option (set_source c) g # gs'))"

definition send_groups :: "SendEnv \<Rightarrow> SyncProducerClient \<Rightarrow> string \<Rightarrow> LogGroup ptr list \<Rightarrow> sync_error ptr outcome" where
  "send_groups env c topicID gs =
     (case Send env (sp_client c) topicID gs of
        Inl p \<Rightarrow> Inl p
      | Inr clsErr \<Rightarrow> Inr (map_option SendError clsErr))"

definition SendLogGroupList ::
    "SendEnv \<Rightarrow> SyncProducerClient \<Rightarrow> string \<Rightarrow> LogGroup ptr list \<Rightarrow> sync_error ptr outcome \<times> LogGroup ptr list" where
  "SendLogGroupList env c topicID gs =
     (let (r, gs') = check_groups c gs 0 in
      (case r of
         Inl p \<Rightarrow> Inl p
       | Inr (Some e) \<Rightarrow> Inr (Some e)
       | Inr None \<Rightarrow> send_groups env c topicID gs', gs'))"

text \<open>The group that \<open>SendLogList\<close> makes of a list of logs.\<close>

definition list_group :: "SyncProducerClient \<Rightarrow> Log ptr list \<Rightarrow> LogGroup" where
  "list_group c logs =
     \<lparr>Group_Logs = logs, Group_ContextFlow = None, Group_Filename = None,
      Group_Source = (if sc_NeedSource (sp_config c) then Some (sp_source c) else None),
      Group_LogTags = [],
      Group_Hostname = (if 0 < length (sc_HostName (sp_config c)) then Some (sc_HostName (sp_config c)) else None),
      Group_XXX_unrecognized = []\<rparr>"

definition sync_SendLogList ::
    "SendEnv \<Rightarrow> SyncProducerClient \<Rightarrow> string \<Rightarrow> Log ptr list \<Rightarrow> sync_error ptr outcome" where
  "sync_SendLogList env c topicID logs =
     (case GetLogListSize logs of
        Inl (Panic p) \<Rightarrow> Inl (Panic p)
      | Inl (Errorf e) \<Rightarrow> Inr (Some (LogError (Errorf e)))
      | Inr n \<Rightarrow>
          if MaxLogSize < n then Inr (Some ErrLogSizeExceeded)
          else send_groups env c topicID [Some (list_group c logs)])"

definition sync_ResetSecretToken ::
    "string \<Rightarrow> string \<Rightarrow> string \<Rightarrow> SyncProducerClient \<Rightarrow> CLSError ptr \<times> SyncProducerClient" where
  "sync_ResetSecretToken i k t c =
     (let (e, client) = ResetSecretToken i k t (sp_client c) in (e, c\<lparr>sp_client := client\<rparr>))"

section \<open>Properties\<close>

lemma GetLogListSize_appendD:
  "GetLogListSize (xs @ ys) = Inr n \<Longrightarrow> \<exists>a b. GetLogListSize xs = Inr a \<and> GetLogListSize ys = Inr b \<and> n = a + b"
  by (induction xs arbitrary: n) (fastforce simp: GetLogListSize_Cons split: sum.splits)+

text \<open>The logs of a call, one after another, and whether their total size is accepted.\<close>

definition all_logs :: "LogGroup ptr list \<Rightarrow> Log ptr list" where
  "all_logs gs = concat (map GetLogs gs)"

definition accepted_size :: "int \<Rightarrow> LogGroup ptr list \<Rightarrow> bool" where
  "accepted_size t gs \<longleftrightarrow> (\<exists>n. GetLogListSize (all_logs gs) = Inr n \<and> t + n \<le> MaxLogSize)"

lemma accepted_size_Nil: "t \<le> MaxLogSize \<Longrightarrow> accepted_size t []"
  by (simp add: accepted_size_def all_logs_def)

lemma GetLogListSize_append_iff:
  "GetLogListSize (xs @ ys) = Inr n \<longleftrightarrow>
   (\<exists>a b. GetLogListSize xs = Inr a \<and> GetLogListSize ys = Inr b \<and> n = a + b)"
  by (rule iffI) (erule GetLogListSize_appendD, elim exE conjE, simp add: GetLogListSize_append)

lemma accepted_size_Cons:
  "accepted_size t (g # gs) \<longleftrightarrow> (\<exists>n. GetLogListSize (GetLogs g) = Inr n \<and> accepted_size (t + n) gs)"
  by (auto simp: accepted_size_def all_logs_def GetLogListSize_append_iff add.assoc)

lemma accepted_size_le: "accepted_size t gs \<Longrightarrow> t \<le> MaxLogSize"
  using GetLogListSize_nonneg by (fastforce simp: accepted_size_def)

lemma check_groups_accepts:
  "None \<notin> set gs \<Longrightarrow> accepted_size t gs \<Longrightarrow> check_groups c gs t = (Inr None, map (map_option (set_source c)) gs)"
proof (induction gs arbitrary: t)
  case (Cons g gs)
  then obtain n where n: "GetLogListSize (GetLogs g) = Inr n" "accepted_size (t + n) gs"
    by (auto simp: accepted_size_Cons)
  then have "t + n \<le> MaxLogSize" by (simp add: accepted_size_le)
  with Cons n show ?case by auto
qed simp

lemma check_groups_rejects:
  assumes "None \<notin> set gs" and "\<not> accepted_size t gs" and "t \<le> MaxLogSize"
  shows "\<exists>r k. k < length gs \<and> r \<noteq> Inr None \<and> (\<forall>e. r \<noteq> Inr (Some (SendError e))) \<and>
    check_groups c gs t = (r, take k (map (map_option (set_source c)) gs) @ drop k gs)"
  using assms
proof (induction gs arbitrary: t)
  case (Cons g gs)
  have here: ?case if "check_groups c (g # gs) t = (r, g # gs)" "r \<noteq> Inr None" "\<forall>e. r \<noteq> Inr (Some (SendError e))" for r
    using that by (intro exI [of _ r] exI [of _ 0]) simp
  show ?case
  proof (cases "GetLogListSize (GetLogs g)")
    case (Inl e)
    then show ?thesis
      by (cases e) (use here [of "Inl e"] here [of "Inr (Some (LogError e))"] in simp_all)
  next
    case (Inr n)
    show ?thesis
    proof (cases "MaxLogSize < t + n")
      case True
      with Inr show ?thesis using here [of "Inr (Some ErrLogSizeExceeded)"] by simp
    next
      case False
      from Inr Cons(2,3) have "None \<notin> set gs" "\<not> accepted_size (t + n) gs" by (auto simp: accepted_size_Cons)
      with Cons.IH [of "t + n"] False obtain r k where "k < length gs" "r \<noteq> Inr None" "\<forall>e. r \<noteq> Inr (Some (SendError e))"
        "check_groups c gs (t + n) = (r, take k (map (map_option (set_source c)) gs) @ drop k gs)"
        by (meson not_less)
      with Inr False Cons(2) show ?thesis by (intro exI [of _ r] exI [of _ "Suc k"]) auto
    qed
  qed
qed (simp add: accepted_size_Nil)

text \<open>
  C37: a synchronous call is all or nothing.  When every log can be measured and all logs of
  the groups together are at most 20 MiB, the groups are sent in one request, every log in
  its place and only the source set, and the answer is that of the send.  In every other
  case nothing is sent: the outcome does not depend on the transport and is never a send
  error; but the groups before the one that failed have lost their own source already.
  (\<^verbatim>\<open>README.md\<close> and \<^verbatim>\<open>README_CN.md\<close> state 5 MB and 10 000 entries as limits the client enforces;
  the code compares with 20 MiB only and does not count the logs.)
\<close>

theorem SendLogGroupList_all_or_nothing:
  assumes "None \<notin> set gs"
  shows "if accepted_size 0 gs
    then SendLogGroupList env c topicID gs =
      (send_groups env c topicID (map (map_option (set_source c)) gs), map (map_option (set_source c)) gs) \<and>
      all_logs (map (map_option (set_source c)) gs) = all_logs gs
    else \<exists>r k. k < length gs \<and> r \<noteq> Inr None \<and> (\<forall>e. r \<noteq> Inr (Some (SendError e))) \<and>
      (\<forall>env. SendLogGroupList env c topicID gs = (r, take k (map (map_option (set_source c)) gs) @ drop k gs))"
proof (cases "accepted_size 0 gs")
  case True
  have "GetLogs (map_option (set_source c) g) = GetLogs g" for g
    by (cases g) (simp_all add: GetLogs_def set_source_def)
  then have "all_logs (map (map_option (set_source c)) gs) = all_logs gs" by (simp add: all_logs_def comp_def)
  with True check_groups_accepts [OF assms True, of c] show ?thesis by (simp add: SendLogGroupList_def)
next
  case False
  obtain r k where "k < length gs" "r \<noteq> Inr None" "\<forall>e. r \<noteq> Inr (Some (SendError e))"
    "check_groups c gs 0 = (r, take k (map (map_option (set_source c)) gs) @ drop k gs)"
    using check_groups_rejects [OF assms False, of c] by (auto simp: MaxLogSize_def)
  moreover from this have "(case r of Inl p \<Rightarrow> Inl p | Inr None \<Rightarrow> x | Inr (Some e) \<Rightarrow> Inr (Some e)) = r" for x
    by (auto split: sum.splits option.splits)
  ultimately show ?thesis using False by (auto simp: SendLogGroupList_def)
qed

definition ex_sync :: SyncProducerClient where
  "ex_sync = \<lparr>sp_config = GetDefaultSyncProducerClientConfig, sp_client = ex_log_client, sp_source = ''10.0.0.1''\<rparr>"

theorem SendLogGroupList_all_or_nothing_witness:
  "snd (SendLogGroupList ex_send ex_sync ''t'' ex_untimed) = map (map_option (set_source ex_sync)) ex_untimed"
proof -
  have "accepted_size 0 ex_untimed"
    by (simp add: accepted_size_def all_logs_def ex_untimed_def GetLogs_def GetLogListSize_single
        GetLogSizeCalculate_def GetContents_def MaxLogSize_def)
  moreover have "None \<notin> set ex_untimed" by (simp add: ex_untimed_def)
  ultimately show ?thesis using SendLogGroupList_all_or_nothing [of ex_untimed ex_send ex_sync "''t''"] by simp
qed

end
