(* ===== verification/Client_Setup.thy ===== *)
theory Client_Setup
  imports Sync_Producer Async_Producer Consumer_Worker Pull_Logs
begin

text \<open>
  The constructors that put the clients together: \<^verbatim>\<open>async_producer_client.go\<close>,
  \<^verbatim>\<open>yunapi_log_client.go\<close>, \<^verbatim>\<open>consumer/consumer_client.go\<close> and
  \<^verbatim>\<open>consumer/worker.go\<close>; and the statistics of the consumer.
\<close>

section \<open>The asynchronous producer\<close>

record AsyncProducerClient =
  ac_config :: AsyncProducerClientConfig
  ac_client :: CLSClient
  ac_worker :: worker

text \<open>The worker, its queue and its accumulator before \<open>Start\<close>; no send is in flight.\<close>

definition NewWorker :: "string \<Rightarrow> worker" where
  "NewWorker hash = accumulator.extend (NewAccumulator hash)
     (worker.fields NewRetryQueue False 0 0 [])"

definition NewSendThreadPool :: send_thread_pool where
  "NewSendThreadPool = \<lparr>tp_queue = [], tp_shutDownFlag = False\<rparr>"

definition NewTimerSendLogTask :: "worker \<Rightarrow> timer_task" where
  "NewTimerSendLogTask ioWorker = worker.extend ioWorker (timer_task.fields False)"

text \<open>The constructors give the shared state that the running producer starts from.\<close>

lemma Start_assembled:
  "send_thread_pool.truncate (NewWorker hash) = NewSendThreadPool"
  "timer_task.truncate (Start hash) = NewTimerSendLogTask (NewWorker hash)"
  by (simp_all add: NewSendThreadPool_def NewTimerSendLogTask_def NewWorker_def NewAccumulator_def Start_def
      send_thread_pool.defs accumulator.defs worker.defs timer_task.defs)

definition producer_options :: "AsyncProducerClientConfig \<Rightarrow> Options" where
  "producer_options c =
     \<lparr>opt_Host = cfg_Endpoint c, opt_Scheme = '''', opt_Timeout = cfg_Timeout c, opt_IdleConn = cfg_IdleConn c,
      opt_CompressType = cfg_CompressType c,
      opt_Credentials = \<lparr>SecretID = cfg_AccessKeyID c, SecretKEY = cfg_AccessKeySecret c,
        SecretToken = cfg_AccessToken c, Uin = cfg_Uin c\<rparr>\<rparr>"

text \<open>The error is the message of the client's.  The validation writes into the caller's configuration.\<close>

definition NewAsyncProducerClient ::
    "string \<Rightarrow> string \<Rightarrow> AsyncProducerClientConfig \<Rightarrow> string + AsyncProducerClient" where
  "NewAsyncProducerClient localIP hash config =
     (let config' = validateProducerConfig localIP config in
      case NewCLSClient (producer_options config') of
        Inl e \<Rightarrow> Inl (Message e)
      | Inr client \<Rightarrow> Inr \<lparr>ac_config = config', ac_client = client, ac_worker = NewWorker hash\<rparr>)"

section \<open>The cloud API client\<close>

record YunApiLogClientConfig =
  yf_AccessKeyId :: string
  yf_AccessKey :: string
  yf_Internal :: bool
  yf_SecurityToken :: string
  yf_Source :: string
  yf_Region :: string

definition api_endpoint :: "YunApiLogClientConfig \<Rightarrow> string" where
  "api_endpoint config =
     (if yf_Internal config then ''cls.internal.tencentcloudapi.com''
      else if yf_Region config \<noteq> '''' then ''cls.'' @ yf_Region config @ ''.tencentcloudapi.com''
      else ''cls.tencentcloudapi.com'')"

definition api_options :: "YunApiLogClientConfig \<Rightarrow> Options" where
  "api_options config =
     \<lparr>opt_Host = api_endpoint config, opt_Scheme = '''', opt_Timeout = 30000, opt_IdleConn = 50,
      opt_CompressType = ''lz4'',
      opt_Credentials = \<lparr>SecretID = yf_AccessKeyId config, SecretKEY = yf_AccessKey config,
        SecretToken = yf_SecurityToken config, Uin = ''''\<rparr>\<rparr>"

text \<open>Of the embedded log client, the calls use the host and the token.\<close>

definition NewYunApiLogClientFromConfig :: "YunApiLogClientConfig \<Rightarrow> CLSError + YunApiLogClient" where
  "NewYunApiLogClientFromConfig config =
     (if yf_AccessKeyId config = '''' then
        Inl \<lparr>HTTPCode = -1, Code = ''MissAccessKeyId'', Message = ''accessKeyId cannot be empty'', RequestID = ''''\<rparr>
      else if yf_AccessKey config = '''' then
        Inl \<lparr>HTTPCode = -1, Code = ''MissAccessKeyId'', Message = ''accessKey cannot be empty'', RequestID = ''''\<rparr>
      else (case NewCLSClient (api_options config) of
          Inl e \<Rightarrow> Inl e
        | Inr client \<Rightarrow> Inr \<lparr>yc_host = opt_Host (cl_options client),
            yc_token = SecretToken (opt_Credentials (cl_options client)), yc_region = yf_Region config,
            yc_secretId = yf_AccessKeyId config, yc_secretKey = yf_AccessKey config\<rparr>))"

text \<open>The deprecated constructors answer nil for an error.\<close>

definition NewYunApiLogClientWithConfig :: "YunApiLogClientConfig \<Rightarrow> YunApiLogClient ptr" where
  "NewYunApiLogClientWithConfig config =
     (case NewYunApiLogClientFromConfig config of Inl e \<Rightarrow> None | Inr client \<Rightarrow> Some client)"

definition NewYunApiLogClientSimple :: "string \<Rightarrow> string \<Rightarrow> YunApiLogClient ptr" where
  "NewYunApiLogClientSimple accessKeyId accessKey =
     NewYunApiLogClientWithConfig \<lparr>yf_AccessKeyId = accessKeyId, yf_AccessKey = accessKey, yf_Internal = False,
       yf_SecurityToken = '''', yf_Source = '''', yf_Region = ''''\<rparr>"

definition NewYunApiLogClient ::
    "string \<Rightarrow> string \<Rightarrow> bool \<Rightarrow> string \<Rightarrow> string \<Rightarrow> string \<Rightarrow> YunApiLogClient ptr" where
  "NewYunApiLogClient accessKeyId accessKey internal securityToken source region =
     NewYunApiLogClientWithConfig \<lparr>yf_AccessKeyId = accessKeyId, yf_AccessKey = accessKey, yf_Internal = internal,
       yf_SecurityToken = securityToken, yf_Source = source, yf_Region = region\<rparr>"

text \<open>
  \<open>ResetSecretToken\<close>, which the cloud API client has from the log client it embeds: the new
  keys go into the embedded options, of which the calls read the token only.
\<close>

definition api_ResetSecretToken ::
    "string \<Rightarrow> string \<Rightarrow> string \<Rightarrow> YunApiLogClient \<times> CLSClient \<Rightarrow> CLSError ptr \<times> YunApiLogClient \<times> CLSClient" where
  "api_ResetSecretToken i k t yc =
     (let (e, client) = ResetSecretToken i k t (snd yc)
      in (e, (fst yc)\<lparr>yc_token := SecretToken (opt_Credentials (cl_options client))\<rparr>, client))"

section \<open>The consumer\<close>

definition NewConsumerClient ::
    "YunApiLogClient \<Rightarrow> string \<Rightarrow> string list \<Rightarrow> string \<Rightarrow> string \<Rightarrow> string \<Rightarrow> ConsumerClient" where
  "NewConsumerClient yunapi logsetID topicIDs consumerGroup consumer region =
     \<lparr>cc_YunApi = yunapi, cc_LogsetID = logsetID, cc_TopicIDs = topicIDs, cc_ConsumerGroup = consumerGroup,
      cc_Consumer = consumer, cc_Region = region\<rparr>"

text \<open>The errors of the constructor; the last one wraps that of the cloud API client.\<close>

datatype setup_error = OptionError string | YunApiError CLSError

text \<open>A worker with its two clients.\<close>

record 'h consumer =
  cs_client :: ConsumerClient
  cs_pull :: PullLogsClient
  cs_worker :: "'h ConsumerWorker"

definition NewConsumerWorkerWithOption ::
    "ConsumerOption ptr \<Rightarrow> 'h Processor ptr \<Rightarrow> setup_error + 'h consumer" where
  "NewConsumerWorkerWithOption option processor =
     (case (option, processor) of
        (None, _) \<Rightarrow> Inl (OptionError ''consumer option cannot be nil'')
      | (Some opt, None) \<Rightarrow> Inl (OptionError ''processor cannot be nil'')
      | (Some opt, Some proc) \<Rightarrow>
          if co_Endpoint opt = '''' then Inl (OptionError ''consumer option endpoint cannot be empty'')
          else (case NewYunApiLogClientFromConfig
                    \<lparr>yf_AccessKeyId = co_AccessKeyID opt, yf_AccessKey = co_AccessKey opt,
                     yf_Internal = co_Internal opt, yf_SecurityToken = '''', yf_Source = '''',
                     yf_Region = co_Region opt\<rparr> of
              Inl e \<Rightarrow> Inl (YunApiError e)
            | Inr yunapi \<Rightarrow> Inr
                \<lparr>cs_client = NewConsumerClient yunapi (co_LogsetID opt) (co_TopicIDs opt) (co_ConsumerGroup opt)
                   (co_ConsumerName opt) (co_Region opt),
                 cs_pull = NewPullLogsClient (co_Endpoint opt) (co_AccessKeyID opt) (co_AccessKey opt) '''' '''',
                 cs_worker = fresh_ConsumerWorker opt proc\<rparr>))"

definition NewConsumerWorker :: "ConsumerOption ptr \<Rightarrow> 'h Processor ptr \<Rightarrow> 'h consumer ptr" where
  "NewConsumerWorker option processor =
     (case NewConsumerWorkerWithOption option processor of Inl e \<Rightarrow> None | Inr c \<Rightarrow> Some c)"

section \<open>Statistics\<close>

record PartitionStats =
  st_topic_id :: string
  st_partition_id :: int
  st_total_logs_consumed :: int
  st_total_log_groups_consumed :: int
  st_last_fetch_count :: int
  st_next_fetch_offset :: int
  st_is_shutdown :: bool

definition pw_GetStats :: "'p PartitionConsumerWorker \<Rightarrow> PartitionStats" where
  "pw_GetStats pw =
     \<lparr>st_topic_id = pw_TopicID pw, st_partition_id = pw_PartitionID pw,
      st_total_logs_consumed = TotalLogsConsumed pw, st_total_log_groups_consumed = TotalLogGroupsConsumed pw,
      st_last_fetch_count = LastFetchCount pw, st_next_fetch_offset = NextFetchOffset pw,
      st_is_shutdown = pw_IsShutdown pw\<rparr>"

record ConsumerStats =
  st_total_partitions :: int
  st_active_partitions :: int
  st_logs :: int
  st_log_groups :: int
  st_partition_details :: "PartitionStats list"
  st_consumer_group :: string
  st_consumer_name :: string
  st_shutdown :: bool

definition cw_GetStats :: "'h ConsumerWorker \<Rightarrow> ConsumerStats" where
  "cw_GetStats cw =
     (let workers = snapshotPartitionWorkers cw; details = map pw_GetStats workers in
      \<lparr>st_total_partitions = int (length workers),
       st_active_partitions = int (length (filter (\<lambda>w. \<not> pw_IsShutdown w) workers)),
       st_logs = fold (\<lambda>d n. int64 (n + st_total_logs_consumed d)) details 0,
       st_log_groups = fold (\<lambda>d n. int64 (n + st_total_log_groups_consumed d)) details 0,
       st_partition_details = details,
       st_consumer_group = co_ConsumerGroup (cw_Option cw), st_consumer_name = co_ConsumerName (cw_Option cw),
       st_shutdown = cw_IsShutdown cw\<rparr>)"

section \<open>Properties\<close>

lemma NewCLSClient_ok:
  "(\<exists>c. NewCLSClient opt = Inr c) \<longleftrightarrow> opt_Host opt \<noteq> '''' \<and> credentials_ok opt"
  by (auto simp: NewCLSClient_def validateOptions_def credentials_ok_def NewError_def ParseUint_def Let_def
      split: prod.splits option.splits if_splits)

lemma NewCLSClient_http:
  "NewCLSClient opt = Inr c \<Longrightarrow>
   hc_Timeout (cl_http c) = opt_Timeout opt \<and> hc_DialTimeout (cl_http c) = opt_Timeout opt \<and>
   hc_MaxConns (cl_http c) = opt_IdleConn opt"
  by (auto simp: NewCLSClient_def validateOptions_def set_scheme_def NewError_def Let_def split: if_splits)

lemma acc_wf_NewWorker: "acc_wf (NewWorker hash)"
  by (simp add: acc_wf_def NewWorker_def NewAccumulator_def worker.defs accumulator.defs)

text \<open>
  C40: the producer can be built exactly when it has an endpoint and either both keys or an
  account id of digits, and then everything its parts rely on holds from the start: the
  configuration is within its ranges, the transport has a finite timeout and a bound on its
  connections, the credentials are usable, and the accumulator, the quota, the queues and
  the task count are empty.
\<close>

theorem NewAsyncProducerClient_correct:
  "case NewAsyncProducerClient localIP hash config of
     Inl msg \<Rightarrow> \<not> (cfg_Endpoint config \<noteq> '''' \<and> credentials_ok (producer_options config))
   | Inr p \<Rightarrow> cfg_Endpoint config \<noteq> '''' \<and> credentials_ok (producer_options config) \<and>
       ac_config p = validateProducerConfig localIP config \<and> valid_config (ac_config p) \<and>
       0 < hc_Timeout (cl_http (ac_client p)) \<and> 0 < hc_MaxConns (cl_http (ac_client p)) \<and>
       credentials_ok (cl_options (ac_client p)) \<and> acc_wf (ac_worker p) \<and>
       producerLogGroupSize (ac_worker p) = 0 \<and> taskCount (ac_worker p) = 0 \<and>
       tp_queue (ac_worker p) = [] \<and> retryQueue (ac_worker p) = []"
proof -
  let ?c = "validateProducerConfig localIP config"
  have host: "cfg_Endpoint ?c = cfg_Endpoint config" and
    cred: "opt_Credentials (producer_options ?c) = opt_Credentials (producer_options config)"
    by (simp_all add: validateProducerConfig_def producer_options_def)
  then have ok: "credentials_ok (producer_options ?c) = credentials_ok (producer_options config)"
    by (simp add: credentials_ok_def isWeakAuth_def)
  show ?thesis
  proof (cases "NewCLSClient (producer_options ?c)")
    case (Inl e)
    then have "\<not> (\<exists>c. NewCLSClient (producer_options ?c) = Inr c)" by simp
    then have "\<not> (cfg_Endpoint config \<noteq> '''' \<and> credentials_ok (producer_options config))"
      unfolding NewCLSClient_ok ok by (simp add: producer_options_def host)
    with Inl show ?thesis by (simp add: NewAsyncProducerClient_def)
  next
    case (Inr c)
    then have "cfg_Endpoint config \<noteq> ''''" "credentials_ok (producer_options config)"
      using NewCLSClient_ok [of "producer_options ?c"] ok by (auto simp: producer_options_def host)
    moreover have "credentials_ok (cl_options c)"
      using NewCLSClient_Credentials [OF Inr] by (simp add: credentials_ok_def isWeakAuth_def)
    ultimately show ?thesis
      using Inr NewCLSClient_http [OF Inr] validate_valid [of localIP config] acc_wf_NewWorker [of hash]
      by (simp add: NewAsyncProducerClient_def Let_def valid_config_def producer_options_def NewWorker_def
          NewAccumulator_def NewRetryQueue_def heap_Init_def worker.defs accumulator.defs)
  qed
qed

lemma api_options_ok:
  assumes "yf_AccessKeyId config \<noteq> ''''" and "yf_AccessKey config \<noteq> ''''"
  shows "\<exists>c. NewCLSClient (api_options config) = Inr c \<and> opt_Host (cl_options c) = api_endpoint config \<and>
    SecretToken (opt_Credentials (cl_options c)) = yf_SecurityToken config"
proof -
  have "opt_Host (api_options config) \<noteq> ''''" "credentials_ok (api_options config)"
    using assms by (simp_all add: api_options_def api_endpoint_def credentials_ok_def isWeakAuth_def)
  then obtain c where c: "NewCLSClient (api_options config) = Inr c" using NewCLSClient_ok by blast
  then have "opt_Host (cl_options c) = api_endpoint config"
    using assms by (auto simp: NewCLSClient_def validateOptions_def set_scheme_def HasPrefix_def api_options_def
        api_endpoint_def isWeakAuth_def Let_def)
  moreover have "SecretToken (opt_Credentials (cl_options c)) = yf_SecurityToken config"
    using NewCLSClient_Credentials [OF c] by (simp add: api_options_def)
  ultimately show ?thesis using c by blast
qed

text \<open>
  A consumer is built exactly from a complete configuration.  With options, a processor,
  an endpoint to pull from and both keys, the constructor answers a worker that has not
  started, whose cloud API calls go to the internal endpoint if asked for, else to the
  region's, else to the default one; in every other case it answers an error, and the
  deprecated constructor nil.
\<close>

theorem NewConsumerWorkerWithOption_correct:
  "NewConsumerWorkerWithOption option processor = Inr c \<longleftrightarrow>
    (\<exists>opt proc. option = Some opt \<and> processor = Some proc \<and> co_Endpoint opt \<noteq> '''' \<and>
       co_AccessKeyID opt \<noteq> '''' \<and> co_AccessKey opt \<noteq> '''' \<and>
       cs_worker c = fresh_ConsumerWorker opt proc \<and>
       cs_pull c = \<lparr>pl_Endpoint = co_Endpoint opt, pl_SecretId = co_AccessKeyID opt,
         pl_SecretKey = co_AccessKey opt, pl_Token = '''', pl_UserAgent = ''''\<rparr> \<and>
       cs_client c = \<lparr>cc_YunApi = \<lparr>yc_host =
             (if co_Internal opt then ''cls.internal.tencentcloudapi.com''
              else if co_Region opt = '''' then ''cls.tencentcloudapi.com''
              else ''cls.'' @ co_Region opt @ ''.tencentcloudapi.com''),
           yc_token = '''', yc_region = co_Region opt, yc_secretId = co_AccessKeyID opt,
           yc_secretKey = co_AccessKey opt\<rparr>,
         cc_LogsetID = co_LogsetID opt, cc_TopicIDs = co_TopicIDs opt,
         cc_ConsumerGroup = co_ConsumerGroup opt, cc_Consumer = co_ConsumerName opt, cc_Region = co_Region opt\<rparr>)
   \<and> NewConsumerWorker option processor = Some c"
  (is "?l \<longleftrightarrow> ?r \<and> ?n")

proof -
  have lr: "?l \<longleftrightarrow> ?r"
  proof (cases "\<exists>opt proc. option = Some opt \<and> processor = Some proc \<and> co_Endpoint opt \<noteq> '''' \<and>
       co_AccessKeyID opt \<noteq> '''' \<and> co_AccessKey opt \<noteq> ''''")
    case True
    then obtain opt proc where o: "option = Some opt" "processor = Some proc" "co_Endpoint opt \<noteq> ''''"
      "co_AccessKeyID opt \<noteq> ''''" "co_AccessKey opt \<noteq> ''''" by blast
    let ?f = "\<lparr>yf_AccessKeyId = co_AccessKeyID opt, yf_AccessKey = co_AccessKey opt, yf_Internal = co_Internal opt,
      yf_SecurityToken = '''', yf_Source = '''', yf_Region = co_Region opt\<rparr>"
    obtain cl where "NewCLSClient (api_options ?f) = Inr cl" "opt_Host (cl_options cl) = api_endpoint ?f"
      "SecretToken (opt_Credentials (cl_options cl)) = ''''"
      using api_options_ok [of ?f] o(4,5) by auto
    then have "NewYunApiLogClientFromConfig ?f = Inr \<lparr>yc_host = api_endpoint ?f, yc_token = '''',
        yc_region = co_Region opt, yc_secretId = co_AccessKeyID opt, yc_secretKey = co_AccessKey opt\<rparr>"
      using o(4,5) by (simp add: NewYunApiLogClientFromConfig_def)
    with o show ?thesis
      by (cases c) (auto simp: NewConsumerWorkerWithOption_def NewConsumerClient_def NewPullLogsClient_def
          api_endpoint_def)
  next
    case False
    then have "\<not> ?l"
      by (cases option; cases processor)
        (auto simp: NewConsumerWorkerWithOption_def NewYunApiLogClientFromConfig_def)
    with False show ?thesis by blast
  qed
  moreover have "?l \<Longrightarrow> ?n" by (simp add: NewConsumerWorker_def)
  ultimately show ?thesis by blast
qed

text \<open>
  The keys that sign the calls of a cloud API client stay as they were built: a later
  \<open>ResetSecretToken\<close> changes the token alone.
\<close>

lemma api_ResetSecretToken_keys:
  assumes "\<not> isWeakAuth (cl_options (snd yc))" and "i \<noteq> ''''" and "k \<noteq> ''''" and "t \<noteq> ''''"
  shows "fst (snd (api_ResetSecretToken i k t yc)) = (fst yc)\<lparr>yc_token := t\<rparr>"
  using assms by (simp add: api_ResetSecretToken_def ResetSecretToken_def)

end
