(* ===== verification/Compression.thy ===== *)
theory Compression
  imports Cls_Client
begin

text \<open>
  \<^verbatim>\<open>zstd.go\<close> and \<^verbatim>\<open>deflate.go\<close>: the caches of encoders and decoders and the calls of
  the two compression libraries, whose operations are arguments.  The lemmas show that the
  caches cannot be observed, so that the log client may take compression as a function.
\<close>

section \<open>Zstandard\<close>

text \<open>
  The library: the level of a parameter, the constructors (which may answer nil beside the
  error that the code drops), and the two calls, with the source and the destination they
  append to.
\<close>

record ('l, 'e, 'd) zstd_lib =
  zl_SpeedDefault :: 'l
  zl_EncoderLevelFromZstd :: "int \<Rightarrow> 'l"
  zl_NewWriter :: "'l \<Rightarrow> 'e ptr"
  zl_EncodeAll :: "'e \<Rightarrow> byte list \<Rightarrow> byte list \<Rightarrow> byte list"
  zl_NewReader :: "'d ptr"
  zl_DecodeAll :: "'d \<Rightarrow> byte list \<Rightarrow> byte list \<Rightarrow> string + byte list"

definition CompressionLevelDefault :: int where
  "CompressionLevelDefault = -1000"

record ZstdEncoderParams =
  zp_Level :: int

type_synonym ZstdDecoderParams = unit

record ('e, 'd) zstd_maps =
  zstdEncMap :: "(ZstdEncoderParams, 'e ptr) gomap"
  zstdDecMap :: "(ZstdDecoderParams, 'd ptr) gomap"

definition encoder_level :: "('l, 'e, 'd) zstd_lib \<Rightarrow> ZstdEncoderParams \<Rightarrow> 'l" where
  "encoder_level lib params =
     (if zp_Level params \<noteq> CompressionLevelDefault then zl_EncoderLevelFromZstd lib (zp_Level params)
      else zl_SpeedDefault lib)"

definition getEncoder ::
    "('l, 'e, 'd) zstd_lib \<Rightarrow> ZstdEncoderParams \<Rightarrow> ('e, 'd) zstd_maps \<Rightarrow> 'e ptr \<times> ('e, 'd) zstd_maps" where
  "getEncoder lib params s =
     (case gm_get (zstdEncMap s) params of
        Some ret \<Rightarrow> (ret, s)
      | None \<Rightarrow>
          let zstdEnc = zl_NewWriter lib (encoder_level lib params)
          in (zstdEnc, s\<lparr>zstdEncMap := gm_put params zstdEnc (zstdEncMap s)\<rparr>))"

definition getDecoder ::
    "('l, 'e, 'd) zstd_lib \<Rightarrow> ZstdDecoderParams \<Rightarrow> ('e, 'd) zstd_maps \<Rightarrow> 'd ptr \<times> ('e, 'd) zstd_maps" where
  "getDecoder lib params s =
     (case gm_get (zstdDecMap s) params of
        Some ret \<Rightarrow> (ret, s)
      | None \<Rightarrow>
          let zstdDec = zl_NewReader lib
          in (zstdDec, s\<lparr>zstdDecMap := gm_put params zstdDec (zstdDecMap s)\<rparr>))"

definition ZSTDCompress ::
    "('l, 'e, 'd) zstd_lib \<Rightarrow> ZstdEncoderParams \<Rightarrow> byte list \<Rightarrow> byte list \<Rightarrow> ('e, 'd) zstd_maps
     \<Rightarrow> (string + byte list) outcome \<times> ('e, 'd) zstd_maps" where
  "ZSTDCompress lib params dst src s =
     (case getEncoder lib params s of
        (None, s') \<Rightarrow> (Inl (Panic ''nil pointer dereference''), s')
      | (Some e, s') \<Rightarrow> (Inr (Inr (zl_EncodeAll lib e src dst)), s'))"

definition ZSTDDecompress ::
    "('l, 'e, 'd) zstd_lib \<Rightarrow> ZstdDecoderParams \<Rightarrow> byte list \<Rightarrow> byte list \<Rightarrow> ('e, 'd) zstd_maps
     \<Rightarrow> (string + byte list) outcome \<times> ('e, 'd) zstd_maps" where
  "ZSTDDecompress lib params dst src s =
     (case getDecoder lib params s of
        (None, s') \<Rightarrow> (Inl (Panic ''nil pointer dereference''), s')
      | (Some d, s') \<Rightarrow> (Inr (zl_DecodeAll lib d src dst), s'))"

text \<open>
  What the caches hold: for each parameter what the library would make for it.  Goroutines that
  race between the look-up and the store each store such an entry, so it holds then too.
\<close>

definition caches_ok :: "('l, 'e, 'd) zstd_lib \<Rightarrow> ('e, 'd) zstd_maps \<Rightarrow> bool" where
  "caches_ok lib s \<longleftrightarrow>
     (\<forall>params e. gm_get (zstdEncMap s) params = Some e \<longrightarrow> e = zl_NewWriter lib (encoder_level lib params)) \<and>
     (\<forall>params d. gm_get (zstdDecMap s) params = Some d \<longrightarrow> d = zl_NewReader lib)"

lemma caches_start: "caches_ok lib \<lparr>zstdEncMap = [], zstdDecMap = []\<rparr>"
  by (simp add: caches_ok_def)

lemma caches_okD:
  "caches_ok lib s \<Longrightarrow> gm_get (zstdEncMap s) params = Some e \<Longrightarrow> e = zl_NewWriter lib (encoder_level lib params)"
  "caches_ok lib s \<Longrightarrow> gm_get (zstdDecMap s) u = Some d \<Longrightarrow> d = zl_NewReader lib"
  by (auto simp: caches_ok_def)

lemma caches_store:
  "caches_ok lib s \<Longrightarrow>
   caches_ok lib (s\<lparr>zstdEncMap := gm_put params (zl_NewWriter lib (encoder_level lib params)) (zstdEncMap s)\<rparr>)"
  "caches_ok lib s \<Longrightarrow> caches_ok lib (s\<lparr>zstdDecMap := gm_put u (zl_NewReader lib) (zstdDecMap s)\<rparr>)"
  by (auto simp: caches_ok_def)

lemma getEncoder_transparent:
  assumes "caches_ok lib s" and "getEncoder lib params s = (e, s')"
  shows "e = zl_NewWriter lib (encoder_level lib params) \<and> caches_ok lib s'"
  using assms caches_store(1) [OF assms(1), of params]
  by (auto simp: getEncoder_def Let_def split: option.splits dest: caches_okD)

lemma getDecoder_transparent:
  assumes "caches_ok lib s" and "getDecoder lib params s = (d, s')"
  shows "d = zl_NewReader lib \<and> caches_ok lib s'"
  using assms caches_store(2) [OF assms(1), of params]
  by (auto simp: getDecoder_def Let_def split: option.splits dest: caches_okD)

text \<open>
  With a library whose decoder undoes its encoder, what is compressed is decompressed to
  itself, whatever was compressed before and at whatever level.
\<close>

lemma ZSTD_roundtrip:
  assumes "caches_ok lib s" and "zl_NewWriter lib (encoder_level lib params) = Some e"
    and "zl_NewReader lib = Some d" and "\<And>src. zl_DecodeAll lib d (zl_EncodeAll lib e src []) [] = Inr src"
    and "ZSTDCompress lib params [] src s = (Inr (Inr data), s')"
  shows "fst (ZSTDDecompress lib u [] data s') = Inr (Inr src)"
proof -
  obtain r s1 where enc: "getEncoder lib params s = (r, s1)" by force
  from getEncoder_transparent [OF assms(1) enc] assms(2,5) enc
  have data: "data = zl_EncodeAll lib e src []" and ok: "caches_ok lib s'"
    by (auto simp: ZSTDCompress_def split: option.splits)
  obtain r' s2 where dec: "getDecoder lib u s' = (r', s2)" by force
  with getDecoder_transparent [OF ok dec] assms(3,4) data show ?thesis
    by (simp add: ZSTDDecompress_def)
qed

section \<open>Deflate\<close>

text \<open>
  The writer of \<^verbatim>\<open>compress/flate\<close>: what it writes to the buffer and its next state, or an
  error.
\<close>

record 'w flate_lib =
  fl_NewWriter :: 'w
  fl_Write :: "'w \<Rightarrow> byte list \<Rightarrow> string + byte list \<times> 'w"
  fl_Close :: "'w \<Rightarrow> string + byte list"

definition DeflateCompress :: "'w flate_lib \<Rightarrow> byte list \<Rightarrow> string + byte list" where
  "DeflateCompress lib data =
     (case fl_Write lib (fl_NewWriter lib) data of
        Inl err \<Rightarrow> Inl err
      | Inr (out, w) \<Rightarrow> (case fl_Close lib w of Inl err \<Rightarrow> Inl err | Inr out' \<Rightarrow> Inr (out @ out')))"

section \<open>In the log client\<close>

text \<open>
  The arguments the log client takes for its compressors, on the libraries; the encoder of the
  default level exists, as the library promises for the levels it names.
\<close>

definition with_compressors :: "('l, 'e, 'd) zstd_lib \<Rightarrow> 'e \<Rightarrow> 'w flate_lib \<Rightarrow> SendEnv \<Rightarrow> SendEnv" where
  "with_compressors lib e flate env =
     env\<lparr>se_ZSTDCompress := \<lambda>body. Inr (zl_EncodeAll lib e body []), se_DeflateCompress := DeflateCompress flate\<rparr>"

lemma client_zstd:
  assumes "caches_ok lib s" and "zl_NewWriter lib (zl_SpeedDefault lib) = Some e"
  shows "fst (ZSTDCompress lib \<lparr>zp_Level = CompressionLevelDefault\<rparr> [] body s) =
    Inr (se_ZSTDCompress (with_compressors lib e flate env) body)"
proof -
  obtain r s1 where enc: "getEncoder lib \<lparr>zp_Level = CompressionLevelDefault\<rparr> s = (r, s1)" by force
  with getEncoder_transparent [OF assms(1) enc] assms(2) show ?thesis
    by (simp add: ZSTDCompress_def with_compressors_def encoder_level_def)
qed

lemma client_zstd_request:
  assumes "opt_CompressType (cl_options client) = ''zstd''"
  shows "compress (with_compressors lib e flate env) client body params url =
    Inr (new_request (with_compressors lib e flate env) (zl_EncodeAll lib e body []) params url ''zstd'')"
  using assms by (simp add: compress_def zstdCompress_def with_compressors_def)

end
