(* ===== verification/Logging.thy ===== *)
theory Logging
  imports Prelude
begin

text \<open>
  \<^verbatim>\<open>logger.go\<close>: the adapter between the SDK's \<open>Logger\<close> interface and a zap logger.  The
  four methods of the zap logger, \<open>zap.Any\<close> and what \<open>Config.Build\<close> makes of a configuration
  are arguments; \<open>'w\<close> is the state of the outside that a log line changes.
\<close>

record 'v Field =
  fld_Key :: string
  fld_Value :: 'v

text \<open>The methods of \<open>zap.Logger\<close> that are used, on zap's own fields \<open>'f\<close>.\<close>

record ('f, 'w) zap_logger =
  zap_Debug :: "string \<Rightarrow> 'f list \<Rightarrow> 'w \<Rightarrow> 'w"
  zap_Info :: "string \<Rightarrow> 'f list \<Rightarrow> 'w \<Rightarrow> 'w"
  zap_Warn :: "string \<Rightarrow> 'f list \<Rightarrow> 'w \<Rightarrow> 'w"
  zap_Error :: "string \<Rightarrow> 'f list \<Rightarrow> 'w \<Rightarrow> 'w"

record ('f, 'w) ZapLogger =
  zl_logger :: "('f, 'w) zap_logger"

definition NewZapLogger :: "('f, 'w) zap_logger \<Rightarrow> ('f, 'w) ZapLogger" where
  "NewZapLogger logger = \<lparr>zl_logger = logger\<rparr>"

text \<open>Writing the results into a slice of the length of the arguments, index by index.\<close>

fun toArgs_loop :: "(string \<Rightarrow> 'v \<Rightarrow> 'f) \<Rightarrow> nat \<Rightarrow> 'v Field list \<Rightarrow> 'f list \<Rightarrow> 'f list" where
  "toArgs_loop any i [] result = result"
| "toArgs_loop any i (arg # args) result =
     toArgs_loop any (i + 1) args (result[i := any (fld_Key arg) (fld_Value arg)])"

definition toArgs :: "'f \<Rightarrow> (string \<Rightarrow> 'v \<Rightarrow> 'f) \<Rightarrow> 'v Field list \<Rightarrow> 'f list" where
  "toArgs zero any args = toArgs_loop any 0 args (replicate (length args) zero)"

definition log_Debug ::
    "'f \<Rightarrow> (string \<Rightarrow> 'v \<Rightarrow> 'f) \<Rightarrow> ('f, 'w) ZapLogger \<Rightarrow> string \<Rightarrow> 'v Field list \<Rightarrow> 'w \<Rightarrow> 'w" where
  "log_Debug zero any z msg args = zap_Debug (zl_logger z) msg (toArgs zero any args)"

definition log_Info ::
    "'f \<Rightarrow> (string \<Rightarrow> 'v \<Rightarrow> 'f) \<Rightarrow> ('f, 'w) ZapLogger \<Rightarrow> string \<Rightarrow> 'v Field list \<Rightarrow> 'w \<Rightarrow> 'w" where
  "log_Info zero any z msg args = zap_Info (zl_logger z) msg (toArgs zero any args)"

definition log_Warn ::
    "'f \<Rightarrow> (string \<Rightarrow> 'v \<Rightarrow> 'f) \<Rightarrow> ('f, 'w) ZapLogger \<Rightarrow> string \<Rightarrow> 'v Field list \<Rightarrow> 'w \<Rightarrow> 'w" where
  "log_Warn zero any z msg args = zap_Warn (zl_logger z) msg (toArgs zero any args)"

definition log_Error ::
    "'f \<Rightarrow> (string \<Rightarrow> 'v \<Rightarrow> 'f) \<Rightarrow> ('f, 'w) ZapLogger \<Rightarrow> string \<Rightarrow> 'v Field list \<Rightarrow> 'w \<Rightarrow> 'w" where
  "log_Error zero any z msg args = zap_Error (zl_logger z) msg (toArgs zero any args)"

text \<open>
  The initialisation of the package: the production configuration with JSON on the standard
  output becomes the global logger, or the program stops.
\<close>

record zap_config =
  cfg_Encoding :: string
  cfg_OutputPaths :: "string list"
  cfg_ErrorOutputPaths :: "string list"

definition logger_init ::
    "'c zap_config_scheme \<Rightarrow> ('c zap_config_scheme \<Rightarrow> ('f, 'w) zap_logger outcome) \<Rightarrow> ('f, 'w) zap_logger outcome" where
  "logger_init production build =
     (case build (production\<lparr>cfg_Encoding := ''json'', cfg_OutputPaths := [''stdout''],
             cfg_ErrorOutputPaths := [''stderr'']\<rparr>) of
        Inl err \<Rightarrow> Inl (Panic (case err of Errorf m \<Rightarrow> m | Panic m \<Rightarrow> m))
      | Inr logger \<Rightarrow> Inr logger)"

definition GetZapLoggerAdapter :: "('f, 'w) zap_logger \<Rightarrow> ('f, 'w) ZapLogger" where
  "GetZapLoggerAdapter global = NewZapLogger global"

section \<open>The adapter keeps the fields\<close>

lemma toArgs_loop_drop:
  "i + length args = length result \<Longrightarrow>
    toArgs_loop any i args result = take i result @ map (\<lambda>a. any (fld_Key a) (fld_Value a)) args"
proof (induction args arbitrary: i result)
  case (Cons arg args)
  then have "i < length result" by simp
  with Cons show ?case by (simp add: take_Suc_conv_app_nth)
qed simp

text \<open>The index loop is a map: no field is lost, moved or left at the zero value.\<close>

lemma toArgs_map: "toArgs zero any args = map (\<lambda>a. any (fld_Key a) (fld_Value a)) args"
  by (simp add: toArgs_def toArgs_loop_drop)

text \<open>Over a zap logger that records, a line reaches its own level with its fields in order.\<close>

datatype level = DebugLevel | InfoLevel | WarnLevel | ErrorLevel

definition recording :: "('f, (level \<times> string \<times> 'f list) list) zap_logger" where
  "recording = \<lparr>zap_Debug = (\<lambda>m fs w. w @ [(DebugLevel, m, fs)]), zap_Info = (\<lambda>m fs w. w @ [(InfoLevel, m, fs)]),
     zap_Warn = (\<lambda>m fs w. w @ [(WarnLevel, m, fs)]), zap_Error = (\<lambda>m fs w. w @ [(ErrorLevel, m, fs)])\<rparr>"

lemma recorded_levels:
  fixes args :: "'v Field list"
  defines "fs \<equiv> map (\<lambda>a. (fld_Key a, fld_Value a)) args"
  shows "log_Debug z Pair (GetZapLoggerAdapter recording) m args w = w @ [(DebugLevel, m, fs)]"
    and "log_Info z Pair (GetZapLoggerAdapter recording) m args w = w @ [(InfoLevel, m, fs)]"
    and "log_Warn z Pair (GetZapLoggerAdapter recording) m args w = w @ [(WarnLevel, m, fs)]"
    and "log_Error z Pair (GetZapLoggerAdapter recording) m args w = w @ [(ErrorLevel, m, fs)]"
  by (simp_all add: log_Debug_def log_Info_def log_Warn_def log_Error_def GetZapLoggerAdapter_def NewZapLogger_def
      recording_def toArgs_map fs_def)

end
