(* ===== verification/Spec2Isabelle.thy ===== *)
theory Spec2Isabelle
  imports Producer_Close Producer_Spec Package_Ids Consumer_Stop Consumer_Pass Heartbeat_Run
    Consumer_Reports Cls_Library Signature_Order Api_Signature Pull_Logs_Props Client_Setup Compression Logging
begin

text \<open>
  A verification development for \<^verbatim>\<open>tencentcloud-cls-sdk-go\<close>, the Go SDK of the Tencent
  Cloud Log Service.

  \<^bold>\<open>The program.\<close>  The SDK has three clients.

  \<^item> The \<^emph>\<open>asynchronous producer\<close> takes logs from any number of callers
    (\<^verbatim>\<open>async_producer_client.go\<close>).  The accumulator (\<^verbatim>\<open>log_accumulator.go\<close>)
    admits them against a byte quota and groups them into one open batch per topic
    (\<^verbatim>\<open>producer_batch.go\<close>); full batches go into the send queue
    (\<^verbatim>\<open>log_send_thread_pool.go\<close>), and a timer (\<^verbatim>\<open>timer_send_log_task.go\<close>) moves
    the ones that have lingered and the ones whose retry is due.  Sending goroutines run the
    worker (\<^verbatim>\<open>woker.go\<close>), which resolves a batch by its callbacks or puts it into the
    retry heap (\<^verbatim>\<open>log_send_retry_queue.go\<close>).
  \<^item> The \<^emph>\<open>synchronous producer\<close> (\<^verbatim>\<open>sync_producer_client.go\<close>) sends each call at
    once.  Both producers share the log client (\<^verbatim>\<open>cls_client.go\<close>), which encodes
    (\<^verbatim>\<open>cls.pb.go\<close>), compresses, signs (\<^verbatim>\<open>signature.go\<close>) and posts.
  \<^item> The \<^emph>\<open>consumer group client\<close> (\<^verbatim>\<open>consumer/\<close>) registers with the cloud API
    (\<^verbatim>\<open>yunapi_log_client.go\<close>, signed by \<^verbatim>\<open>tc3_signature.go\<close>), learns from
    heartbeats which partitions it holds, and runs one worker per partition that pulls
    (\<^verbatim>\<open>pull_logs.go\<close>), processes, and commits offsets.

  \<^bold>\<open>Theories and sources.\<close>
  \<^item> \<open>Prelude\<close>, \<open>Go_Text\<close>: Go's 64-bit arithmetic on \<open>int\<close>, maps as association lists in
    iteration order, failures as values (an error or a panic), decimal texts and splitting.
  \<^item> \<open>Interfaces\<close>: the holders of batches (\<open>batch_holder\<close>), the first-in-first-out queue
    (\<open>fifo_queue\<close>) and the priority queue (\<open>min_queue\<close>) as locales; \<open>Send_Thread_Pool\<close>,
    \<open>Retry_Queue\<close> (with \<open>Go_Heap\<close>, the part of \<^verbatim>\<open>container/heap\<close> it uses) and
    \<open>Accumulator\<close> (\<open>batch_measure\<close>) interpret them.
  \<^item> \<open>Cls_Proto\<close>, \<open>Cls_Encode\<close>, \<open>Cls_Decode\<close>: messages, sizes, \<open>Marshal\<close>, \<open>Unmarshal\<close> of
    \<^verbatim>\<open>cls.pb.go\<close>; \<open>Cls_Encode_Correct\<close>, \<open>Cls_Roundtrip\<close>: their correctness, with the
    locales \<open>message_writer\<close> and \<open>message_codec\<close> of what a message type promises, which all
    five types interpret; \<open>Cls_Library\<close>: \<open>MarshalTo\<close> and the methods the protobuf library calls.
  \<^item> \<open>Utils\<close>: \<^verbatim>\<open>utils.go\<close>, \<^verbatim>\<open>error.go\<close>, \<^verbatim>\<open>result.go\<close>, \<^verbatim>\<open>attempt.go\<close>;
    \<open>Producer_Config\<close>, \<open>Producer_Batch\<close>, \<open>Accumulator\<close>, \<open>Worker\<close>, \<open>Timer_Task\<close>,
    \<open>Async_Producer\<close>: one theory per file of the producer, the last one with all goroutines
    as a step relation.  \<open>Admission\<close>, \<open>Delivery\<close>, \<open>Producer_Invariant\<close>, \<open>Producer_Props\<close>,
    \<open>Producer_Spec\<close> (the abstract store that the producer implements, with the locale
    \<open>simulation\<close>), \<open>Package_Ids\<close> and \<open>Producer_Close\<close> hold what is proved of them.
  \<^item> \<open>Signature\<close>, \<open>Signature_Order\<close>, \<open>Cls_Client\<close>, \<open>Cls_Client_Props\<close>, \<open>Sync_Producer\<close>:
    signatures, log client, synchronous producer; \<open>Go_Hash\<close>: SHA-1, SHA-256, HMAC, CRC-64 and
    the calendar, with the functions of \<^verbatim>\<open>signature.go\<close>, \<^verbatim>\<open>tc3_signature.go\<close> and
    \<^verbatim>\<open>utils.go\<close> that use them; \<open>Compression\<close>: \<^verbatim>\<open>zstd.go\<close>, \<^verbatim>\<open>deflate.go\<close>.
  \<^item> \<open>Yun_Api\<close>, \<open>Consumer_Client\<close>, \<open>Offset_Tracker\<close> (with \<^verbatim>\<open>consumer/processor.go\<close>),
    \<open>Heartbeat_Worker\<close>, \<open>Pull_Logs\<close>, \<open>Partition_Worker\<close>, \<open>Consumer_Worker\<close>: one theory per
    file of the consumer; \<open>Consumer_Progress\<close>, \<open>Consumer_Commits\<close> (locale
    \<open>offset_processor\<close>, interpreted for the SDK's adaptor), \<open>Consumer_Handover\<close> (its extensions
    \<open>tracked_processor\<close> and \<open>committing_processor\<close>), \<open>Consumer_Race\<close> (the worker and
    the goroutine that closes it, step by step; locale \<open>racing_processor\<close>), \<open>Consumer_Pass\<close> (these steps
    against the pass of \<open>Partition_Worker\<close>), \<open>Heartbeat_Run\<close> (the heartbeat loop),
    \<open>Consumer_Ownership\<close>, \<open>Consumer_Group\<close> (the main loop and the heartbeat together, and an
    outage of the cloud API), \<open>Consumer_Reports\<close> (what the group gets to see), \<open>Consumer_Stop\<close>, \<open>Api_Signature\<close>, \<open>Pull_Logs_Props\<close> hold what is
    proved of them.
  \<^item> \<open>Client_Setup\<close>: the constructors that join the parts, and the statistics; \<open>Logging\<close>:
    the adapter to the logging library (\<^verbatim>\<open>logger.go\<close>).

  \<^bold>\<open>State and effects.\<close>  A Go struct is a record, a pointer an option, a nil dereference or
  an index out of range the failure \<open>Panic\<close>, a returned error \<open>Errorf\<close> or the value of the
  source's error type.  Methods that write return the new state.  The records of the
  producer extend one another, from the send queue to the running producer, so that an
  operation of a part runs on the whole.  What the code does not own is an argument: the
  clock, the network, JSON, base64, the compressors, the user's processor and callbacks.  The
  hash functions are arguments of the signatures too, instantiated in \<open>Go_Hash\<close>.

  \<^bold>\<open>Concurrency.\<close>  In the producer a step is what one goroutine does under one lock or with
  one atomic operation, and the properties hold in every reachable state.  A consumer's
  partition is processed by one goroutine at a time (the \<open>running\<close> flag).  \<open>Partition_Worker\<close>
  has its passes one after another, with what other goroutines may change in between (the
  shutdown flag, before each check of it) as an argument; \<open>Consumer_Race\<close> interleaves its steps
  with those of \<open>close\<close>, and \<open>Consumer_Pass\<close> runs these steps on the inputs of a pass and shows
  that they do what the pass does.

  \<^bold>\<open>What is shown.\<close>
  \<^item> Producer: the quota is exact and never exceeded, no log is lost or misfiled, callbacks run
    exactly once, package ids are unique, sends are bounded, batches keep their limits, admission refines an append
    to per-topic streams, the three blocking modes do what they promise, a batch is resolved
    after finitely many sends, retries come out in order and on time, the timer leaves
    nothing behind; the whole of it refines an abstract store, and a nil from \<open>Close\<close> means
    what \<open>Close_nil_guarantees\<close> says; and the exceptions: a log, a retry and a running send
    that \<open>Close\<close> leaves behind, a delay that overflows.
  \<^item> Wire: \<open>Marshal\<close> writes the protobuf format, \<open>Unmarshal\<close> reads it back and never panics,
    incompressible data is a valid LZ4 block.
  \<^item> Client: the authentication mode is fixed and determines the headers, the answer of the server decides the result,
    the signature does not depend on the order of Go's maps, the synchronous call is all or
    nothing; and one log that cannot be encoded empties the payload.
  \<^item> Consumer: a partition passes through its owners without a gap and, unless one crashes,
    without a repetition; commits are exact over the whole life of a worker; what a consumer
    holds is always part of its last assignment, and nothing once it may have lost the group; while anything is assigned,
    workers follow the assignment and give back what they leave; the stop
    rule, the retries and the parsing of pulls are characterised; closing a worker always ends,
    and of its work only a pull or a batch already past the check of the flag is still done; and the exceptions: the processor cannot
    hold an offset back, the shutdown commits what was not processed, a closed worker can still
    commit and process, an answer without an entry leaves the workers running, an outage of the
    cloud API looks like good health, a partition that is still being given back is not reported, a negative length panics.

  \<^bold>\<open>Bounds.\<close>  Lengths are natural numbers: a Go slice is shorter than \<open>2 ^ 63\<close>, which
  \<open>Cls_Decode\<close> uses to read a negative index off the sum.  Quota and timestamps are \<open>int\<close>
  with \<open>int64\<close> where the code adds, and the properties state the ranges they need; varints,
  field numbers and lengths are words.  Loops with a bound in the source recurse on it (three
  pulls, ten requests, three deletions); the two that may run for ever (a caller that blocks,
  the deliveries of a batch) are a \<open>partial_function\<close> and a function of the outcomes, and
  their termination is a property.

  \<^bold>\<open>Not modelled.\<close>  The log lines the parts write, the registration of the messages
  with the protobuf library, its text format and its merging, and the example program: they only call libraries.  Of \<^verbatim>\<open>net/http\<close> the model has the
  request that is built and the answer; header names are as the code gives them, before
  \<open>Header.Add\<close> changes their case.  Waiting is not modelled, only what is read of the clock.
\<close>

end
